(* ===== verification/Prelude.thy ===== *)
theory Prelude
  imports Main "HOL-Library.Word" "HOL-Library.Sublist"
begin

text \<open>
  What every component of the development shares: the machine integers of the C and C++
  code, the ways a call can fail, the two sequencing operators the models are written in,
  and the lemmas about them that the component proofs rest on.

  A C string is a \<^typ>\<open>string\<close> whose contents end at the first NUL; \<open>c_str\<close> gives
  the part the code sees.  A \<open>char*\<close> that may be NULL is a \<^typ>\<open>string option\<close>.
\<close>

named_theorems step_simps \<open>unfolding rules for the operations of a component\<close>

type_synonym byte = "8 word"
type_synonym i32 = "32 word"
type_synonym u32 = "32 word"
type_synonym i64 = "64 word"
type_synonym f64 = "64 word" \<comment> \<open>the bit pattern of an IEEE 754 double\<close>

lemma unat_of_nat_u32: "n < 2 ^ 32 \<Longrightarrow> unat (of_nat n :: u32) = n"
  by (simp add: unat_of_nat)

lemma unat_of_nat_u64: "n < 2 ^ 64 \<Longrightarrow> unat (of_nat n :: i64) = n"
  by (simp add: unat_of_nat)

subsection \<open>Failures\<close>

text \<open>
  \<open>Stop\<close> is \<open>cpp11::stop\<close> (a C++ exception that reaches R as an error), \<open>RError\<close> is
  \<open>Rf_error\<close> (a long jump) or an error an R API function raises on a wrong argument,
  \<open>Interrupt\<close> is the user interrupt, and \<open>UB\<close> is an access the C or C++ standard leaves
  undefined: a null dereference, an index outside an object, a read of an
  uninitialised cell, unbounded recursion.
\<close>

datatype r_error = Stop string | RError string | Interrupt | UB string

type_synonym 'a res = "r_error + 'a"

fun is_UB :: "r_error \<Rightarrow> bool" where
  "is_UB (UB _) \<longleftrightarrow> True"
| "is_UB _ \<longleftrightarrow> False"

fun undefined_behaviour :: "'a res \<Rightarrow> bool" where
  "undefined_behaviour (Inl e) \<longleftrightarrow> is_UB e"
| "undefined_behaviour (Inr _) \<longleftrightarrow> False"

definition rbind :: "'a res \<Rightarrow> ('a \<Rightarrow> 'b res) \<Rightarrow> 'b res" where
  "rbind m f = (case m of Inl e \<Rightarrow> Inl e | Inr x \<Rightarrow> f x)"

lemma rbind_simps [simp]:
  "rbind (Inl e) f = Inl e"
  "rbind (Inr x) f = f x"
  by (simp_all add: rbind_def)

lemma rbind_eq_Inr [simp]:
  "rbind m f = Inr y \<longleftrightarrow> (\<exists>x. m = Inr x \<and> f x = Inr y)"
  by (cases m) simp_all

lemma rbind_assoc: "rbind (rbind m f) g = rbind m (\<lambda>x. rbind (f x) g)"
  by (cases m) simp_all

lemma rbind_return [simp]: "rbind m Inr = m"
  by (cases m) simp_all

lemma rbind_cong [fundef_cong]:
  "m = m' \<Longrightarrow> (\<And>x. m' = Inr x \<Longrightarrow> f x = g x) \<Longrightarrow> rbind m f = rbind m' g"
  by (cases m') simp_all

subsection \<open>Failures and warnings\<close>

text \<open>
  Code that may also call \<open>cpp11::warning\<close> or \<open>Rf_warning\<close> returns the warnings it
  emitted, in order, beside its value.
\<close>

type_synonym 'a eff = "('a \<times> string list) res"

definition ret :: "'a \<Rightarrow> 'a eff" where
  "ret x = Inr (x, [])"

definition warning :: "string \<Rightarrow> unit eff" where
  "warning w = Inr ((), [w])"

definition ebind :: "'a eff \<Rightarrow> ('a \<Rightarrow> 'b eff) \<Rightarrow> 'b eff" where
  "ebind m f = (case m of Inl e \<Rightarrow> Inl e
     | Inr (x, ws) \<Rightarrow> (case f x of Inl e \<Rightarrow> Inl e | Inr (y, ws') \<Rightarrow> Inr (y, ws @ ws')))"

definition lift_res :: "'a res \<Rightarrow> 'a eff" where
  "lift_res m = (case m of Inl e \<Rightarrow> Inl e | Inr x \<Rightarrow> Inr (x, []))"

lemma ebind_Inl [simp]: "ebind (Inl e) f = Inl e"
  by (simp add: ebind_def)

lemma ebind_ret [simp]: "ebind (ret x) f = f x"
  by (simp add: ebind_def ret_def split: sum.split)

lemma ebind_Inr_Nil [simp]: "ebind (Inr (x, [])) f = f x"
  by (simp add: ebind_def split: sum.split)

lemma ebind_eq_Inr:
  "ebind m f = Inr (y, ws) \<longleftrightarrow>
     (\<exists>x ws1 ws2. m = Inr (x, ws1) \<and> f x = Inr (y, ws2) \<and> ws = ws1 @ ws2)"
  by (cases m) (auto simp: ebind_def split: sum.splits prod.splits)

lemma ebind_assoc: "ebind (ebind m f) g = ebind m (\<lambda>x. ebind (f x) g)"
  by (cases m) (auto simp: ebind_def split: sum.splits prod.splits)

lemma lift_res_simps [simp]:
  "lift_res (Inl e) = Inl e"
  "lift_res (Inr x) = ret x"
  by (simp_all add: lift_res_def ret_def)

lemma ebind_cong [fundef_cong]:
  "m = m' \<Longrightarrow> (\<And>x ws. m' = Inr (x, ws) \<Longrightarrow> f x = g x) \<Longrightarrow> ebind m f = ebind m' g"
  by (cases m') (auto simp: ebind_def split: sum.splits prod.splits)

subsection \<open>Loops over a list that may fail\<close>

fun foldE :: "('s \<Rightarrow> 'x \<Rightarrow> 's eff) \<Rightarrow> 's \<Rightarrow> 'x list \<Rightarrow> 's eff" where
  "foldE f s [] = ret s"
| "foldE f s (x # xs) = ebind (f s x) (\<lambda>s'. foldE f s' xs)"

fun mapE :: "('x \<Rightarrow> 'y eff) \<Rightarrow> 'x list \<Rightarrow> 'y list eff" where
  "mapE f [] = ret []"
| "mapE f (x # xs) = ebind (f x) (\<lambda>y. ebind (mapE f xs) (\<lambda>ys. ret (y # ys)))"

lemma foldE_append: "foldE f s (xs @ ys) = ebind (foldE f s xs) (\<lambda>s'. foldE f s' ys)"
  by (induction xs arbitrary: s) (simp_all add: ebind_assoc)

text \<open>If every step succeeds without a warning and computes \<open>g\<close>, the loop is the pure fold or map.\<close>

lemma foldE_pure:
  assumes "\<And>s x. P s \<Longrightarrow> x \<in> set xs \<Longrightarrow> f s x = ret (g s x) \<and> P (g s x)" and "P s"
  shows "foldE f s xs = ret (foldl g s xs) \<and> P (foldl g s xs)"
  using assms by (induction xs arbitrary: s) simp_all

lemma mapE_pure:
  "(\<And>x. x \<in> set xs \<Longrightarrow> f x = ret (g x)) \<Longrightarrow> mapE f xs = ret (map g xs)"
  by (induction xs) simp_all

lemma mapE_nth:
  "(\<And>k. k < length xs \<Longrightarrow> f (xs ! k) = Inr (g k, w k)) \<Longrightarrow>
     mapE f xs = Inr (map g [0..<length xs], concat (map w [0..<length xs]))"
proof (induction xs arbitrary: g w)
  case (Cons x xs)
  from Cons.prems [of 0] have "f x = Inr (g 0, w 0)" by simp
  moreover have "mapE f xs = Inr (map (\<lambda>k. g (Suc k)) [0..<length xs], concat (map (\<lambda>k. w (Suc k)) [0..<length xs]))"
    using Cons.prems [of "Suc _"] by (intro Cons.IH) simp
  ultimately show ?case by (simp add: ebind_def ret_def map_upt_Suc del: upt_Suc)
qed (simp add: ret_def)

lemma mapE_nth_pure:
  "(\<And>k. k < length xs \<Longrightarrow> f (xs ! k) = ret (g k)) \<Longrightarrow>
     mapE f xs = ret (map g [0..<length xs])"
  using mapE_nth [of xs f g "\<lambda>_. []"] by (simp add: ret_def)

lemma mapE_length: "mapE f xs = Inr (ys, ws) \<Longrightarrow> length ys = length xs"
  by (induction xs arbitrary: ys ws) (auto simp: ebind_eq_Inr ret_def)

subsection \<open>Operations on an object\<close>

text \<open>
  A method of an object that outlives an exception returns the object also when it fails: its
  result, the object after it, and the warnings.
\<close>

type_synonym ('s, 'a) act = "'s \<Rightarrow> (r_error + 'a) \<times> 's \<times> string list"

definition areturn :: "'a \<Rightarrow> ('s, 'a) act" where
  "areturn x s = (Inr x, s, [])"

definition athrow :: "r_error \<Rightarrow> ('s, 'a) act" where
  "athrow e s = (Inl e, s, [])"

definition abind :: "('s, 'a) act \<Rightarrow> ('a \<Rightarrow> ('s, 'b) act) \<Rightarrow> ('s, 'b) act" where
  "abind m f s = (case m s of
       (Inl e, s', ws) \<Rightarrow> (Inl e, s', ws)
     | (Inr x, s', ws) \<Rightarrow> (case f x s' of (r, s'', ws') \<Rightarrow> (r, s'', ws @ ws')))"

definition amodify :: "('s \<Rightarrow> 's) \<Rightarrow> ('s, unit) act" where
  "amodify f s = (Inr (), f s, [])"

definition alift :: "'a eff \<Rightarrow> ('s, 'a) act" where
  "alift m s = (case m of Inl e \<Rightarrow> (Inl e, s, []) | Inr (x, ws) \<Rightarrow> (Inr x, s, ws))"

fun afor :: "('x \<Rightarrow> ('s, unit) act) \<Rightarrow> 'x list \<Rightarrow> ('s, unit) act" where
  "afor f [] s = (Inr (), s, [])"
| "afor f (x # xs) s = abind (f x) (\<lambda>_. afor f xs) s"

lemmas act_defs = areturn_def athrow_def amodify_def alift_def

lemma abind_simps:
  "m s = (Inr x, s', ws) \<Longrightarrow>
     abind m f s = (case f x s' of (r, s'', ws') \<Rightarrow> (r, s'', ws @ ws'))"
  "m s = (Inl e, s', ws) \<Longrightarrow> abind m f s = (Inl e, s', ws)"
  by (simp_all add: abind_def)

lemma abind_eq_Inr:
  "abind m f s = (Inr y, t, ws) \<longleftrightarrow>
     (\<exists>x s' ws1 ws2. m s = (Inr x, s', ws1) \<and> f x s' = (Inr y, t, ws2) \<and> ws = ws1 @ ws2)"
  by (auto simp: abind_def split: prod.splits sum.splits)

text \<open>A relation every step keeps is kept by the loop.\<close>

lemma afor_keeps:
  assumes "\<And>x s. x \<in> set xs \<Longrightarrow> Q s (fst (snd (f x s)))"
    and "\<And>s. Q s s" "\<And>s t u. Q s t \<Longrightarrow> Q t u \<Longrightarrow> Q s u"
  shows "Q s (fst (snd (afor f xs s)))"
  using assms(1)
proof (induction xs arbitrary: s)
  case (Cons x xs)
  obtain r s' ws where f: "f x s = (r, s', ws)" by (cases "f x s") auto
  then have "Q s s'" using Cons.prems [of x s] by simp
  moreover have "Q s' (fst (snd (afor f xs s')))" using Cons by simp
  ultimately show ?case
    using f assms(3) by (cases r) (auto simp: abind_def split: prod.splits)
qed (simp add: assms(2))

subsection \<open>Numbers in messages\<close>

fun show_nat :: "nat \<Rightarrow> string" where
  "show_nat n = (if n < 10 then [char_of (48 + n)] else show_nat (n div 10) @ [char_of (48 + n mod 10)])"

declare show_nat.simps [simp del]

subsection \<open>C strings\<close>

definition c_str :: "string \<Rightarrow> string" where
  "c_str z = takeWhile (\<lambda>c. c \<noteq> CHR 0x00) z"

lemma c_str_simps [simp]:
  "c_str [] = []"
  "c_str (c # z) = (if c = CHR 0x00 then [] else c # c_str z)"
  by (simp_all add: c_str_def)

lemma c_str_no_nul: "CHR 0x00 \<notin> set z \<Longrightarrow> c_str z = z"
  by (induction z) auto

lemma c_str_idem [simp]: "c_str (c_str z) = c_str z"
  by (induction z) auto

end
