(* ===== verification/Affinity.thy ===== *)
theory Affinity
  imports Prelude
begin

text \<open>
  \<open>src/src/affinity.c\<close>: the affinity of a column from the text of its declared type.
  The code keeps the last four bytes, folded to lower case, in one 32-bit word and compares
  it with the packed patterns; the comment above it promises a search for substrings with a
  priority order.  \<open>affinity_spec\<close> is that promise, and the theorems here show that the scan
  with the rolling word keeps it.
\<close>

subsection \<open>The code\<close>

definition SQLITE_AFF_BLOB :: char where "SQLITE_AFF_BLOB = CHR ''A''"
definition SQLITE_AFF_TEXT :: char where "SQLITE_AFF_TEXT = CHR ''B''"
definition SQLITE_AFF_NUMERIC :: char where "SQLITE_AFF_NUMERIC = CHR ''C''"
definition SQLITE_AFF_INTEGER :: char where "SQLITE_AFF_INTEGER = CHR ''D''"
definition SQLITE_AFF_REAL :: char where "SQLITE_AFF_REAL = CHR ''E''"

lemmas SQLITE_AFF_defs = SQLITE_AFF_BLOB_def SQLITE_AFF_TEXT_def SQLITE_AFF_NUMERIC_def
  SQLITE_AFF_INTEGER_def SQLITE_AFF_REAL_def

text \<open>The table has the bytes 0 to 64, then 97 to 122 for the capitals, then 91 to 255.\<close>

definition sqlite3UpperToLower :: "nat list" where
  "sqlite3UpperToLower = [0..<65] @ [97..<123] @ [91..<256]"

text \<open>\<open>(a<<24) + (b<<16) + (c<<8) + d\<close> on character constants, as the code writes its patterns.\<close>

definition pack4 :: "char \<Rightarrow> char \<Rightarrow> char \<Rightarrow> char \<Rightarrow> u32" where
  "pack4 a b c d =
     push_bit 24 (of_char a) + push_bit 16 (of_char b) + push_bit 8 (of_char c) + of_char d"

definition pack3 :: "char \<Rightarrow> char \<Rightarrow> char \<Rightarrow> u32" where
  "pack3 a b c = push_bit 16 (of_char a) + push_bit 8 (of_char b) + of_char c"

fun affinity_loop :: "u32 \<Rightarrow> char \<Rightarrow> string \<Rightarrow> char" where
  "affinity_loop h aff [] = aff"
| "affinity_loop h aff (c # zIn) =
     (if c = CHR 0x00 then aff
      else let h = push_bit 8 h + of_nat (sqlite3UpperToLower ! of_char c) in
        if h = pack4 CHR ''c'' CHR ''h'' CHR ''a'' CHR ''r'' then
          affinity_loop h SQLITE_AFF_TEXT zIn
        else if h = pack4 CHR ''c'' CHR ''l'' CHR ''o'' CHR ''b'' then
          affinity_loop h SQLITE_AFF_TEXT zIn
        else if h = pack4 CHR ''t'' CHR ''e'' CHR ''x'' CHR ''t'' then
          affinity_loop h SQLITE_AFF_TEXT zIn
        else if h = pack4 CHR ''b'' CHR ''l'' CHR ''o'' CHR ''b''
                \<and> (aff = SQLITE_AFF_NUMERIC \<or> aff = SQLITE_AFF_REAL) then
          affinity_loop h SQLITE_AFF_BLOB zIn
        else if h = pack4 CHR ''r'' CHR ''e'' CHR ''a'' CHR ''l''
                \<and> aff = SQLITE_AFF_NUMERIC then
          affinity_loop h SQLITE_AFF_REAL zIn
        else if h = pack4 CHR ''f'' CHR ''l'' CHR ''o'' CHR ''a''
                \<and> aff = SQLITE_AFF_NUMERIC then
          affinity_loop h SQLITE_AFF_REAL zIn
        else if h = pack4 CHR ''d'' CHR ''o'' CHR ''u'' CHR ''b''
                \<and> aff = SQLITE_AFF_NUMERIC then
          affinity_loop h SQLITE_AFF_REAL zIn
        else if and h 0x00FFFFFF = pack3 CHR ''i'' CHR ''n'' CHR ''t'' then
          SQLITE_AFF_INTEGER
        else affinity_loop h aff zIn)"

definition sqlite3AffinityType :: "string option \<Rightarrow> char" where
  "sqlite3AffinityType zIn =
     (case zIn of None \<Rightarrow> SQLITE_AFF_NUMERIC
      | Some z \<Rightarrow> affinity_loop 0 SQLITE_AFF_NUMERIC z)"

subsection \<open>The promise of the comment\<close>

definition lower :: "char \<Rightarrow> nat" where
  "lower c = (let n = of_char c :: nat in if 65 \<le> n \<and> n \<le> 90 then n + 32 else n)"

definition bytes_of :: "string \<Rightarrow> nat list" where
  "bytes_of = map of_char"

definition has :: "string \<Rightarrow> nat list \<Rightarrow> bool" where
  "has pat z \<longleftrightarrow> sublist (bytes_of pat) z"

definition text_like :: "nat list \<Rightarrow> bool" where
  "text_like z \<longleftrightarrow> has ''char'' z \<or> has ''clob'' z \<or> has ''text'' z"

definition blob_like :: "nat list \<Rightarrow> bool" where
  "blob_like z \<longleftrightarrow> has ''blob'' z"

definition real_like :: "nat list \<Rightarrow> bool" where
  "real_like z \<longleftrightarrow> has ''real'' z \<or> has ''floa'' z \<or> has ''doub'' z"

definition class_of :: "nat list \<Rightarrow> char" where
  "class_of z =
     (if text_like z then SQLITE_AFF_TEXT
      else if blob_like z then SQLITE_AFF_BLOB
      else if real_like z then SQLITE_AFF_REAL
      else SQLITE_AFF_NUMERIC)"

definition affinity_spec :: "string \<Rightarrow> char" where
  "affinity_spec z =
     (let l = map lower z in if has ''int'' l then SQLITE_AFF_INTEGER else class_of l)"

subsection \<open>The rolling word holds the last four bytes\<close>

lemma upper_to_lower_nth: "sqlite3UpperToLower ! of_char c = lower c"
proof -
  have n: "(of_char c :: nat) < 256"
    using nat_of_char_less_256 .
  show ?thesis
    using n
    by (auto simp: sqlite3UpperToLower_def lower_def Let_def nth_append simp del: upt_rec_numeral)
qed

lemma lower_less: "lower c < 256"
proof -
  have n: "(of_char c :: nat) < 256" by (rule nat_of_char_less_256)
  then show ?thesis by (auto simp: lower_def Let_def)
qed

lemma lower_pos: "c \<noteq> CHR 0x00 \<Longrightarrow> 0 < lower c"
proof -
  assume "c \<noteq> CHR 0x00"
  then have "(of_char c :: nat) \<noteq> of_char (CHR 0x00)"
    by (metis char_of_char)
  then show ?thesis by (auto simp: lower_def Let_def)
qed

definition val :: "nat list \<Rightarrow> nat" where
  "val bs = foldl (\<lambda>h b. h * 256 + b) 0 bs"

lemma val_simps [simp]: "val [] = 0" "val (bs @ [b]) = val bs * 256 + b"
  by (simp_all add: val_def)

lemma val_less: "\<forall>b\<in>set bs. b < 256 \<Longrightarrow> val bs < 256 ^ length bs"
proof (induction bs rule: rev_induct)
  case Nil
  then show ?case by simp
next
  case (snoc b bs)
  then have "val bs < 256 ^ length bs" "b < 256" by auto
  then have "val bs * 256 + b < (val bs + 1) * 256" by simp
  also have "\<dots> \<le> 256 ^ length bs * 256"
    using \<open>val bs < 256 ^ length bs\<close> by (intro mult_right_mono) auto
  finally show ?case by simp
qed

lemma last_split:
  assumes "n \<le> length bs"
  obtains p q where "bs = p @ q" "length q = n"
  using that [of "take (length bs - n) bs" "drop (length bs - n) bs"] assms by simp

lemma list4: "length q = 4 \<Longrightarrow> \<exists>a b c d. q = [a, b, c, d]"
  by (auto simp: numeral_eq_Suc length_Suc_conv)

lemma list3: "length q = 3 \<Longrightarrow> \<exists>a b c. q = [a, b, c]"
  by (auto simp: numeral_eq_Suc length_Suc_conv)

lemma val_append4:
  "val (p @ [a, b, c, d]) = val p * 2 ^ 32 + (((a * 256 + b) * 256 + c) * 256 + d)"
  by (simp add: val_def)

lemma val_append3: "val (p @ [a, b, c]) = val p * 2 ^ 24 + ((a * 256 + b) * 256 + c)"
  by (simp add: val_def)

lemma base256:
  fixes a b a' b' :: nat
  assumes eq: "a * 256 + b = a' * 256 + b'" and "b < 256" "b' < 256"
  shows "a = a' \<and> b = b'"
proof -
  have "(a * 256 + b) div 256 = a" "(a' * 256 + b') div 256 = a'"
    using assms(2,3) by simp_all
  with eq show ?thesis by simp
qed

lemma base256_4:
  fixes a b c d a' b' c' d' :: nat
  assumes "((a * 256 + b) * 256 + c) * 256 + d = ((a' * 256 + b') * 256 + c') * 256 + d'"
    and "b < 256" "c < 256" "d < 256" "b' < 256" "c' < 256" "d' < 256"
  shows "a = a' \<and> b = b' \<and> c = c' \<and> d = d'"
proof -
  have "(a * 256 + b) * 256 + c = (a' * 256 + b') * 256 + c' \<and> d = d'"
    by (rule base256) (use assms in simp_all)
  moreover from this have "a * 256 + b = a' * 256 + b' \<and> c = c'"
    by (intro base256) (use assms in simp_all)
  moreover from this have "a = a' \<and> b = b'"
    by (intro base256) (use assms in simp_all)
  ultimately show ?thesis by blast
qed

text \<open>The low 32 bits of the value are a pattern exactly when the last four bytes are.\<close>

lemma val_mod_4:
  assumes b: "\<forall>x\<in>set bs. x < 256" and pat: "0 < a" "a < 256" "b < 256" "c < 256" "d < 256"
  shows "val bs mod 2 ^ 32 = ((a * 256 + b) * 256 + c) * 256 + d \<longleftrightarrow> suffix [a, b, c, d] bs"
    (is "?v = ?p \<longleftrightarrow> _")
proof (cases "4 \<le> length bs")
  case True
  then obtain p q where bs: "bs = p @ q" and "length q = 4" by (rule last_split)
  then obtain a' b' c' d' where q: "q = [a', b', c', d']" using list4 by blast
  have less: "a' < 256" "b' < 256" "c' < 256" "d' < 256" using b bs q by auto
  have "?v = ((a' * 256 + b') * 256 + c') * 256 + d'"
    using less by (simp add: bs q val_append4)
  moreover have "suffix [a, b, c, d] bs \<longleftrightarrow> [a, b, c, d] = q"
    using bs q by (auto simp: suffix_def)
  ultimately show ?thesis
    using base256_4 [of a' b' c' d' a b c d] less pat q by auto
next
  case False
  have "val bs < 256 ^ length bs" using b by (rule val_less)
  also have "\<dots> \<le> 256 ^ 3" using False by (intro power_increasing) auto
  finally have "?v < 256 ^ 3" by simp
  moreover have "256 ^ 3 \<le> ?p" using pat by simp
  moreover have "\<not> suffix [a, b, c, d] bs"
    using False by (auto dest: suffix_length_le)
  ultimately show ?thesis by simp
qed

lemma val_mod_3:
  assumes b: "\<forall>x\<in>set bs. x < 256" and pat: "0 < a" "a < 256" "b < 256" "c < 256"
  shows "val bs mod 2 ^ 24 = (a * 256 + b) * 256 + c \<longleftrightarrow> suffix [a, b, c] bs"
    (is "?v = ?p \<longleftrightarrow> _")
proof (cases "3 \<le> length bs")
  case True
  then obtain p q where bs: "bs = p @ q" and "length q = 3" by (rule last_split)
  then obtain a' b' c' where q: "q = [a', b', c']" using list3 by blast
  have less: "a' < 256" "b' < 256" "c' < 256" using b bs q by auto
  have "?v = (a' * 256 + b') * 256 + c'"
    using less by (simp add: bs q val_append3)
  moreover have "suffix [a, b, c] bs \<longleftrightarrow> [a, b, c] = q"
    using bs q by (auto simp: suffix_def)
  ultimately show ?thesis
    using base256_4 [of 0 a' b' c' 0 a b c] less pat q by auto
next
  case False
  have "val bs < 256 ^ length bs" using b by (rule val_less)
  also have "\<dots> \<le> 256 ^ 2" using False by (intro power_increasing) auto
  finally have "?v < 256 ^ 2" by simp
  moreover have "256 ^ 2 \<le> ?p" using pat by simp
  moreover have "\<not> suffix [a, b, c] bs"
    using False by (auto dest: suffix_length_le)
  ultimately show ?thesis by simp
qed

definition hash :: "nat list \<Rightarrow> u32" where
  "hash bs = of_nat (val bs)"

lemma hash_snoc: "push_bit 8 (hash bs) + of_nat b = hash (bs @ [b])"
  by (simp add: hash_def push_bit_eq_mult mult.commute)

lemma unat_hash: "unat (hash bs) = val bs mod 2 ^ 32"
  by (simp add: hash_def unat_of_nat)

lemma unat_hash_low: "unat (and (hash bs) 0x00FFFFFF) = val bs mod 2 ^ 24"
proof -
  have "and (hash bs) 0x00FFFFFF = take_bit 24 (hash bs)"
    by (simp add: take_bit_eq_mask mask_eq_exp_minus_1)
  then have "unat (and (hash bs) 0x00FFFFFF) = take_bit 24 (unat (hash bs))"
    by (simp add: unsigned_take_bit_eq)
  also have "\<dots> = val bs mod 2 ^ 32 mod 2 ^ 24"
    by (simp add: unat_hash take_bit_eq_mod)
  also have "\<dots> = val bs mod 2 ^ 24"
    by (rule mod_mod_cancel) simp
  finally show ?thesis .
qed

subsection \<open>The scan finds the substrings of the table\<close>

lemma has_snoc: "pat \<noteq> [] \<Longrightarrow> has pat (p @ [b]) \<longleftrightarrow> has pat p \<or> suffix (bytes_of pat) (p @ [b])"
proof -
  assume "pat \<noteq> []"
  then have "sublist (bytes_of pat) (p @ [b]) \<longleftrightarrow>
      prefix (rev (bytes_of pat)) (b # rev p) \<or> sublist (rev (bytes_of pat)) (rev p)"
    by (subst sublist_rev [symmetric]) (simp add: sublist_Cons_right)
  then show ?thesis by (auto simp: has_def suffix_to_prefix)
qed

lemma hash_eq_iff:
  assumes "\<forall>x\<in>set bs. x < 256" "0 < a" "a < 256" "b < 256" "c < 256" "d < 256"
    and w: "w = of_nat (((a * 256 + b) * 256 + c) * 256 + d)"
  shows "hash bs = w \<longleftrightarrow> suffix [a, b, c, d] bs"
proof -
  let ?n = "((a * 256 + b) * 256 + c) * 256 + d"
  have "?n < 2 ^ 32" using assms(2-6) by simp
  then have "unat w = ?n" unfolding w by (rule unat_of_nat_u32)
  then have "hash bs = w \<longleftrightarrow> val bs mod 2 ^ 32 = ?n"
    by (simp add: word_unat_eq_iff unat_hash)
  then show ?thesis using val_mod_4 assms by blast
qed

lemma hash_low_eq_iff:
  assumes "\<forall>x\<in>set bs. x < 256" "0 < a" "a < 256" "b < 256" "c < 256"
    and w: "w = of_nat ((a * 256 + b) * 256 + c)"
  shows "and (hash bs) 0x00FFFFFF = w \<longleftrightarrow> suffix [a, b, c] bs"
proof -
  let ?n = "(a * 256 + b) * 256 + c"
  have "?n < 2 ^ 32" using assms(2-5) by simp
  then have "unat w = ?n" unfolding w by (rule unat_of_nat_u32)
  then have "and (hash bs) 0x00FFFFFF = w \<longleftrightarrow> val bs mod 2 ^ 24 = ?n"
    by (simp add: word_unat_eq_iff unat_hash_low)
  then show ?thesis using val_mod_3 assms by blast
qed

lemma hash_patterns:
  assumes "\<forall>x\<in>set bs. x < 256"
  shows "hash bs = pack4 CHR ''c'' CHR ''h'' CHR ''a'' CHR ''r'' \<longleftrightarrow> suffix (bytes_of ''char'') bs"
    "hash bs = pack4 CHR ''c'' CHR ''l'' CHR ''o'' CHR ''b'' \<longleftrightarrow> suffix (bytes_of ''clob'') bs"
    "hash bs = pack4 CHR ''t'' CHR ''e'' CHR ''x'' CHR ''t'' \<longleftrightarrow> suffix (bytes_of ''text'') bs"
    "hash bs = pack4 CHR ''b'' CHR ''l'' CHR ''o'' CHR ''b'' \<longleftrightarrow> suffix (bytes_of ''blob'') bs"
    "hash bs = pack4 CHR ''r'' CHR ''e'' CHR ''a'' CHR ''l'' \<longleftrightarrow> suffix (bytes_of ''real'') bs"
    "hash bs = pack4 CHR ''f'' CHR ''l'' CHR ''o'' CHR ''a'' \<longleftrightarrow> suffix (bytes_of ''floa'') bs"
    "hash bs = pack4 CHR ''d'' CHR ''o'' CHR ''u'' CHR ''b'' \<longleftrightarrow> suffix (bytes_of ''doub'') bs"
    "and (hash bs) 0x00FFFFFF = pack3 CHR ''i'' CHR ''n'' CHR ''t'' \<longleftrightarrow> suffix (bytes_of ''int'') bs"
  using assms by (simp_all add: bytes_of_def pack4_def pack3_def hash_eq_iff hash_low_eq_iff)

lemma suffix_last2:
  "suffix (xs @ [a, b]) zs \<Longrightarrow> suffix (ys @ [c, d]) zs \<Longrightarrow> a = c \<and> b = d"
  by (auto simp: suffix_def)

text \<open>No other pattern ends with the last two bytes of \<open>int\<close>.\<close>

lemma int_exclusive_aux:
  assumes "suffix (bytes_of ''int'') zs" and "(of_char c, of_char d) \<noteq> (110 :: nat, 116 :: nat)"
  shows "\<not> suffix (bytes_of [a, b, c, d]) zs"
proof
  assume "suffix (bytes_of [a, b, c, d]) zs"
  then have "suffix ([of_char a, of_char b] @ [of_char c, of_char d]) zs"
    by (simp add: bytes_of_def)
  moreover have "suffix ([105] @ [110, 116]) zs"
    using assms(1) by (simp add: bytes_of_def)
  ultimately have "of_char c = (110 :: nat) \<and> of_char d = (116 :: nat)"
    by (rule suffix_last2)
  then show False using assms(2) by simp
qed

lemma int_exclusive:
  assumes "suffix (bytes_of ''int'') zs"
  shows "\<not> suffix (bytes_of ''char'') zs" "\<not> suffix (bytes_of ''clob'') zs"
    "\<not> suffix (bytes_of ''text'') zs" "\<not> suffix (bytes_of ''blob'') zs"
    "\<not> suffix (bytes_of ''real'') zs" "\<not> suffix (bytes_of ''floa'') zs"
    "\<not> suffix (bytes_of ''doub'') zs"
  by (rule int_exclusive_aux [OF assms], simp)+

text \<open>How the class of the bytes read changes with one more byte.\<close>

lemmas has_snocs =
  has_snoc [of "''char''", OF list.distinct(2)] has_snoc [of "''clob''", OF list.distinct(2)]
  has_snoc [of "''text''", OF list.distinct(2)] has_snoc [of "''blob''", OF list.distinct(2)]
  has_snoc [of "''real''", OF list.distinct(2)] has_snoc [of "''floa''", OF list.distinct(2)]
  has_snoc [of "''doub''", OF list.distinct(2)] has_snoc [of "''int''", OF list.distinct(2)]

lemma like_snoc:
  "text_like (p @ [b]) \<longleftrightarrow> text_like p \<or> suffix (bytes_of ''char'') (p @ [b])
     \<or> suffix (bytes_of ''clob'') (p @ [b]) \<or> suffix (bytes_of ''text'') (p @ [b])"
  "blob_like (p @ [b]) \<longleftrightarrow> blob_like p \<or> suffix (bytes_of ''blob'') (p @ [b])"
  "real_like (p @ [b]) \<longleftrightarrow> real_like p \<or> suffix (bytes_of ''real'') (p @ [b])
     \<or> suffix (bytes_of ''floa'') (p @ [b]) \<or> suffix (bytes_of ''doub'') (p @ [b])"
  unfolding text_like_def blob_like_def real_like_def has_snocs by blast+

lemma class_of_test:
  "class_of p = SQLITE_AFF_NUMERIC \<longleftrightarrow> \<not> text_like p \<and> \<not> blob_like p \<and> \<not> real_like p"
  "class_of p = SQLITE_AFF_REAL \<longleftrightarrow> \<not> text_like p \<and> \<not> blob_like p \<and> real_like p"
  by (simp_all add: class_of_def SQLITE_AFF_defs)

text \<open>The choice the scan makes on one byte, over the tests as booleans.\<close>

lemma choice:
  fixes T B R :: bool and l :: "char \<Rightarrow> char"
  defines "cl t b r \<equiv> if t then SQLITE_AFF_TEXT else if b then SQLITE_AFF_BLOB
             else if r then SQLITE_AFF_REAL else SQLITE_AFF_NUMERIC"
  assumes "n \<Longrightarrow> \<not> t1 \<and> \<not> t2 \<and> \<not> t3 \<and> \<not> b1 \<and> \<not> r1 \<and> \<not> r2 \<and> \<not> r3"
  shows "(if t1 then l SQLITE_AFF_TEXT else if t2 then l SQLITE_AFF_TEXT
      else if t3 then l SQLITE_AFF_TEXT
      else if b1 \<and> (\<not> T \<and> \<not> B \<and> \<not> R \<or> \<not> T \<and> \<not> B \<and> R) then l SQLITE_AFF_BLOB
      else if r1 \<and> (\<not> T \<and> \<not> B \<and> \<not> R) then l SQLITE_AFF_REAL
      else if r2 \<and> (\<not> T \<and> \<not> B \<and> \<not> R) then l SQLITE_AFF_REAL
      else if r3 \<and> (\<not> T \<and> \<not> B \<and> \<not> R) then l SQLITE_AFF_REAL
      else if n then SQLITE_AFF_INTEGER else l (cl T B R))
    = (if n then SQLITE_AFF_INTEGER
       else l (cl (T \<or> t1 \<or> t2 \<or> t3) (B \<or> b1) (R \<or> r1 \<or> r2 \<or> r3)))"
  using assms(2) by (cases n; cases T; cases B) (simp_all add: cl_def)

text \<open>One byte that does not complete \<open>int\<close>: the word and the affinity follow the bytes read.\<close>

lemma affinity_loop_Cons:
  assumes "\<forall>x\<in>set (p @ [lower c]). x < 256" "c \<noteq> CHR 0x00"
  shows "affinity_loop (hash p) (class_of p) (c # z) =
     (if suffix (bytes_of ''int'') (p @ [lower c]) then SQLITE_AFF_INTEGER
      else affinity_loop (hash (p @ [lower c])) (class_of (p @ [lower c])) z)"
proof -
  let ?h = "hash (p @ [lower c])"
  have h: "push_bit 8 (hash p) + of_nat (sqlite3UpperToLower ! of_char c) = ?h"
    by (simp only: upper_to_lower_nth hash_snoc)
  note ends = hash_patterns [OF assms(1)]
  show ?thesis
    apply (simp only: affinity_loop.simps assms(2) if_False h Let_def ends class_of_test)
    apply (simp only: class_of_def like_snoc)
    apply (rule choice [where l = "\<lambda>aff. affinity_loop ?h aff z"])
    by (simp add: int_exclusive del: suffix_snoc)
qed

lemma affinity_loop_spec:
  assumes "\<forall>x\<in>set p. x < 256" and "\<not> has ''int'' p"
  shows "affinity_loop (hash p) (class_of p) z =
     (let l = p @ map lower (c_str z) in
      if has ''int'' l then SQLITE_AFF_INTEGER else class_of l)"
  using assms
proof (induction z arbitrary: p)
  case Nil
  then show ?case by simp
next
  case (Cons c z)
  show ?case
  proof (cases "c = CHR 0x00")
    case True
    then show ?thesis using Cons.prems by simp
  next
    case False
    let ?p = "p @ [lower c]"
    have b: "\<forall>x\<in>set ?p. x < 256" using Cons.prems by (auto intro: lower_less)
    have IH: "\<not> has ''int'' ?p \<Longrightarrow> affinity_loop (hash ?p) (class_of ?p) z =
        (let l = ?p @ map lower (c_str z) in
         if has ''int'' l then SQLITE_AFF_INTEGER else class_of l)"
      using Cons.IH b by blast
    have "\<not> has ''int'' ?p \<longleftrightarrow> \<not> suffix (bytes_of ''int'') ?p"
      using Cons.prems by (simp only: has_snocs simp_thms)
    moreover have "has ''int'' ?p \<Longrightarrow> has ''int'' (?p @ map lower (c_str z))"
      unfolding has_def by (metis sublist_append)
    ultimately show ?thesis
      using IH b False
      by (simp add: affinity_loop_Cons Let_def del: suffix_snoc affinity_loop.simps)
  qed
qed

lemma affinity_of_declared: "sqlite3AffinityType (Some z) = affinity_spec (c_str z)"
proof -
  have "class_of [] = SQLITE_AFF_NUMERIC" "hash [] = 0" "\<not> has ''int'' []"
    by (simp_all add: class_of_def text_like_def blob_like_def real_like_def has_def hash_def bytes_of_def)
  then show ?thesis
    using affinity_loop_spec [of "[]" z]
    by (simp add: sqlite3AffinityType_def affinity_spec_def)
qed

text \<open>
  C36: the affinity of a declared type is the one of the table in the comment of
  \<open>affinity.c\<close>: a case-insensitive search for substrings, \<open>INT\<close> first.
\<close>

theorem sqlite3AffinityType_spec:
  "sqlite3AffinityType zIn =
     (case zIn of None \<Rightarrow> SQLITE_AFF_NUMERIC | Some z \<Rightarrow> affinity_spec (c_str z))"
proof (cases zIn)
  case None
  then show ?thesis by (simp add: sqlite3AffinityType_def)
next
  case (Some z)
  then show ?thesis by (simp add: affinity_of_declared)
qed

end
