(* ===== verification/RValues.thy ===== *)
theory RValues
  imports Prelude
begin

unbundle bit_operations_syntax

text \<open>
  The R objects the C++ code reads and writes, and the parts of C's floating point it relies on.

  A vector is a list of cells; a cell of a freshly allocated logical, integer or real vector is
  \<open>None\<close>, since \<open>Rf_allocVector\<close> does not initialise it, and reading it is \<open>UB\<close>.  A real vector
  holds bit patterns, because the code stores 64-bit integers in it as well
  (\<open>INTEGER64\<close> in \<open>src/src/integer64.h\<close> is a \<open>reinterpret_cast\<close> of \<open>REAL\<close>).  An accessor applied
  to a vector of another type raises R's error; an index outside the vector is \<open>UB\<close>.
\<close>

subsection \<open>Doubles as bit patterns\<close>

definition f64_exp :: "f64 \<Rightarrow> nat" where
  "f64_exp w = unat (drop_bit 52 w) mod 2048"

definition f64_frac :: "f64 \<Rightarrow> nat" where
  "f64_frac w = unat (take_bit 52 w)"

definition f64_is_nan :: "f64 \<Rightarrow> bool" where
  "f64_is_nan w \<longleftrightarrow> f64_exp w = 2047 \<and> f64_frac w \<noteq> 0"

text \<open>The C operator \<open>==\<close>: no NaN equals anything, and the two zeros are equal.\<close>

definition f64_eq :: "f64 \<Rightarrow> f64 \<Rightarrow> bool" where
  "f64_eq a b \<longleftrightarrow> \<not> f64_is_nan a \<and> \<not> f64_is_nan b \<and>
     (a = b \<or> take_bit 63 a = 0 \<and> take_bit 63 b = 0)"

fun log2 :: "nat \<Rightarrow> nat" where
  "log2 n = (if n < 2 then 0 else Suc (log2 (n div 2)))"

declare log2.simps [simp del]

definition round_half_even :: "nat \<Rightarrow> nat \<Rightarrow> nat" where
  "round_half_even m s =
     (let q = m div 2 ^ s; r = m mod 2 ^ s
      in if 2 * r < 2 ^ s \<or> 2 * r = 2 ^ s \<and> even q then q else q + 1)"

text \<open>The conversion of an integer to \<open>double\<close>, rounding to nearest, ties to even.\<close>

definition f64_of_int :: "int \<Rightarrow> f64" where
  "f64_of_int n =
     (if n = 0 then 0
      else let m = nat \<bar>n\<bar>; e = log2 m;
               frac = (if e \<le> 52 then m * 2 ^ (52 - e) else round_half_even m (e - 52))
           in (if n < 0 then push_bit 63 1 else 0) + of_nat ((e + 1022) * 2 ^ 52 + frac))"

text \<open>Truncation of a finite double towards zero.\<close>

definition f64_trunc :: "f64 \<Rightarrow> int" where
  "f64_trunc w =
     (if f64_exp w < 1023 then 0
      else let m = 2 ^ 52 + f64_frac w; e = f64_exp w - 1023;
               a = (if e \<le> 52 then m div 2 ^ (52 - e) else m * 2 ^ (e - 52))
           in if bit w 63 then - int a else int a)"

subsection \<open>Missing values\<close>

definition NA_INTEGER :: i32 where "NA_INTEGER = 0x80000000"
definition NA_LOGICAL :: i32 where "NA_LOGICAL = 0x80000000"
definition NA_INTEGER64 :: i64 where "NA_INTEGER64 = 0x8000000000000000"
definition NA_REAL :: f64 where "NA_REAL = 0x7FF00000000007A2"

definition R_IsNA :: "f64 \<Rightarrow> bool" where
  "R_IsNA w \<longleftrightarrow> f64_is_nan w \<and> take_bit 32 w = 1954"

subsection \<open>Vectors\<close>

datatype sexptype = NILSXP | LGLSXP | INTSXP | REALSXP | STRSXP | VECSXP | RAWSXP

datatype rstring = NA_STRING | RString string

datatype sexp =
    NilSXP
  | LglSXP "i32 option list"
  | IntSXP "i32 option list"
  | RealSXP "f64 option list"
  | StrSXP "rstring list"
  | VecSXP "sexp list"
  | RawSXP "byte option list"

definition INT64SXP :: sexptype where "INT64SXP = REALSXP"

fun TYPEOF :: "sexp \<Rightarrow> sexptype" where
  "TYPEOF NilSXP = NILSXP"
| "TYPEOF (LglSXP _) = LGLSXP"
| "TYPEOF (IntSXP _) = INTSXP"
| "TYPEOF (RealSXP _) = REALSXP"
| "TYPEOF (StrSXP _) = STRSXP"
| "TYPEOF (VecSXP _) = VECSXP"
| "TYPEOF (RawSXP _) = RAWSXP"

fun Rf_xlength :: "sexp \<Rightarrow> nat" where
  "Rf_xlength NilSXP = 0"
| "Rf_xlength (LglSXP xs) = length xs"
| "Rf_xlength (IntSXP xs) = length xs"
| "Rf_xlength (RealSXP xs) = length xs"
| "Rf_xlength (StrSXP xs) = length xs"
| "Rf_xlength (VecSXP xs) = length xs"
| "Rf_xlength (RawSXP xs) = length xs"

fun Rf_allocVector :: "sexptype \<Rightarrow> nat \<Rightarrow> sexp" where
  "Rf_allocVector NILSXP n = NilSXP"
| "Rf_allocVector LGLSXP n = LglSXP (replicate n None)"
| "Rf_allocVector INTSXP n = IntSXP (replicate n None)"
| "Rf_allocVector REALSXP n = RealSXP (replicate n None)"
| "Rf_allocVector STRSXP n = StrSXP (replicate n (RString ''''))"
| "Rf_allocVector VECSXP n = VecSXP (replicate n NilSXP)"
| "Rf_allocVector RAWSXP n = RawSXP (replicate n None)"

fun Rf_type2char :: "sexptype \<Rightarrow> string" where
  "Rf_type2char NILSXP = ''NULL''"
| "Rf_type2char LGLSXP = ''logical''"
| "Rf_type2char INTSXP = ''integer''"
| "Rf_type2char REALSXP = ''double''"
| "Rf_type2char STRSXP = ''character''"
| "Rf_type2char VECSXP = ''list''"
| "Rf_type2char RAWSXP = ''raw''"

subsection \<open>Checked cell access\<close>

definition set_cell :: "'a list \<Rightarrow> nat \<Rightarrow> 'a \<Rightarrow> 'a list res" where
  "set_cell xs k v = (if k < length xs then Inr (xs[k := v]) else Inl (UB ''index out of bounds''))"

definition get_cell :: "'a list \<Rightarrow> nat \<Rightarrow> 'a res" where
  "get_cell xs k = (if k < length xs then Inr (xs ! k) else Inl (UB ''index out of bounds''))"

definition get_init :: "'a option list \<Rightarrow> nat \<Rightarrow> 'a res" where
  "get_init xs k = rbind (get_cell xs k)
     (\<lambda>c. case c of None \<Rightarrow> Inl (UB ''uninitialised cell'') | Some v \<Rightarrow> Inr v)"

fun set_logical :: "sexp \<Rightarrow> nat \<Rightarrow> i32 \<Rightarrow> sexp res" where
  "set_logical (LglSXP xs) k v = rbind (set_cell xs k (Some v)) (\<lambda>ys. Inr (LglSXP ys))"
| "set_logical _ k v = Inl (RError ''LOGICAL() can only be applied to a logical'')"

fun set_integer :: "sexp \<Rightarrow> nat \<Rightarrow> i32 \<Rightarrow> sexp res" where
  "set_integer (IntSXP xs) k v = rbind (set_cell xs k (Some v)) (\<lambda>ys. Inr (IntSXP ys))"
| "set_integer _ k v = Inl (RError ''INTEGER() can only be applied to an integer'')"

fun set_real :: "sexp \<Rightarrow> nat \<Rightarrow> f64 \<Rightarrow> sexp res" where
  "set_real (RealSXP xs) k v = rbind (set_cell xs k (Some v)) (\<lambda>ys. Inr (RealSXP ys))"
| "set_real _ k v = Inl (RError ''REAL() can only be applied to a numeric'')"

fun SET_STRING_ELT :: "sexp \<Rightarrow> nat \<Rightarrow> rstring \<Rightarrow> sexp res" where
  "SET_STRING_ELT (StrSXP xs) k v = rbind (set_cell xs k v) (\<lambda>ys. Inr (StrSXP ys))"
| "SET_STRING_ELT _ k v = Inl (RError ''SET_STRING_ELT() can only be applied to a character vector'')"

fun SET_VECTOR_ELT :: "sexp \<Rightarrow> nat \<Rightarrow> sexp \<Rightarrow> sexp res" where
  "SET_VECTOR_ELT (VecSXP xs) k v = rbind (set_cell xs k v) (\<lambda>ys. Inr (VecSXP ys))"
| "SET_VECTOR_ELT _ k v = Inl (RError ''SET_VECTOR_ELT() can only be applied to a list'')"

text \<open>\<open>INTEGER64(x)\<close> is the memory of \<open>REAL(x)\<close> read as 64-bit integers.\<close>

definition set_integer64 :: "sexp \<Rightarrow> nat \<Rightarrow> i64 \<Rightarrow> sexp res" where
  "set_integer64 x k v = set_real x k v"

fun LOGICAL :: "sexp \<Rightarrow> nat \<Rightarrow> i32 res" where
  "LOGICAL (LglSXP xs) k = get_init xs k"
| "LOGICAL _ k = Inl (RError ''LOGICAL() can only be applied to a logical'')"

fun INTEGER :: "sexp \<Rightarrow> nat \<Rightarrow> i32 res" where
  "INTEGER (IntSXP xs) k = get_init xs k"
| "INTEGER _ k = Inl (RError ''INTEGER() can only be applied to an integer'')"

fun REAL :: "sexp \<Rightarrow> nat \<Rightarrow> f64 res" where
  "REAL (RealSXP xs) k = get_init xs k"
| "REAL _ k = Inl (RError ''REAL() can only be applied to a numeric'')"

definition INTEGER64 :: "sexp \<Rightarrow> nat \<Rightarrow> i64 res" where
  "INTEGER64 x k = REAL x k"

fun STRING_ELT :: "sexp \<Rightarrow> nat \<Rightarrow> rstring res" where
  "STRING_ELT (StrSXP xs) k = get_cell xs k"
| "STRING_ELT _ k = Inl (RError ''STRING_ELT() can only be applied to a character vector'')"

fun VECTOR_ELT :: "sexp \<Rightarrow> nat \<Rightarrow> sexp res" where
  "VECTOR_ELT (VecSXP xs) k = get_cell xs k"
| "VECTOR_ELT _ k = Inl (RError ''VECTOR_ELT() can only be applied to a list'')"

subsection \<open>Objects: a vector with its attributes\<close>

record robj =
  rdata :: sexp
  rclass :: "string list"
  rtzone :: "string option"

definition plain :: "sexp \<Rightarrow> robj" where
  "plain x = \<lparr>rdata = x, rclass = [], rtzone = None\<rparr>"

text \<open>
  \<open>cpp11::package(pkg)[name]\<close>, an R function of another package, is a parameter of the model.
  The code calls \<open>blob::new_blob\<close> and \<open>hms::new_hms\<close>, and relies on their giving back the vector
  with a class attribute added.
\<close>

record r_packages =
  package_function :: "string \<Rightarrow> string \<Rightarrow> robj \<Rightarrow> robj"

definition packages_keep_data :: "r_packages \<Rightarrow> bool" where
  "packages_keep_data P \<longleftrightarrow>
     (\<forall>x. rdata (package_function P ''blob'' ''new_blob'' x) = rdata x) \<and>
     (\<forall>x. rdata (package_function P ''hms'' ''new_hms'' x) = rdata x)"

definition std_packages :: r_packages where
  "std_packages =
     \<lparr>package_function = (\<lambda>pkg name x.
        if pkg = ''blob'' then x\<lparr>rclass := [''blob'', ''vctrs_list_of'', ''vctrs_vctr'', ''list'']\<rparr>
        else x\<lparr>rclass := [''hms'', ''difftime'']\<rparr>)\<rparr>"

lemma std_packages_keep_data [simp]: "packages_keep_data std_packages"
  by (simp add: packages_keep_data_def std_packages_def)

subsection \<open>Lemmas on cells\<close>

lemma set_cell_Inr [simp]: "k < length xs \<Longrightarrow> set_cell xs k v = Inr (xs[k := v])"
  by (simp add: set_cell_def)

lemma get_cell_Inr [simp]: "k < length xs \<Longrightarrow> get_cell xs k = Inr (xs ! k)"
  by (simp add: get_cell_def)

lemma get_init_Inr [simp]: "k < length xs \<Longrightarrow> xs ! k = Some v \<Longrightarrow> get_init xs k = Inr v"
  by (simp add: get_init_def)

lemma Rf_allocVector_type [simp]: "TYPEOF (Rf_allocVector t n) = t"
  by (cases t) simp_all

lemma Rf_allocVector_length [simp]: "t \<noteq> NILSXP \<Longrightarrow> Rf_xlength (Rf_allocVector t n) = n"
  by (cases t) simp_all

subsection \<open>Lemmas on doubles\<close>

lemma NA_REAL_is_nan [simp]: "f64_is_nan NA_REAL"
  by (simp add: f64_is_nan_def f64_exp_def f64_frac_def NA_REAL_def)

lemma R_IsNA_NA_REAL [simp]: "R_IsNA NA_REAL"
  by (simp add: R_IsNA_def) (simp add: NA_REAL_def)

lemma f64_eq_NA_REAL [simp]: "\<not> f64_eq v NA_REAL"
  by (simp add: f64_eq_def)

lemma log2_bounds: "0 < m \<Longrightarrow> 2 ^ log2 m \<le> m \<and> m < 2 ^ Suc (log2 m)"
proof (induction m rule: log2.induct)
  case (1 n)
  show ?case
  proof (cases "n < 2")
    case True
    with "1.prems" show ?thesis by (simp add: log2.simps [of n])
  next
    case False
    then have "2 ^ log2 (n div 2) \<le> n div 2 \<and> n div 2 < 2 ^ Suc (log2 (n div 2))"
      using "1.IH" by simp
    with False show ?thesis by (simp add: log2.simps [of n]) linarith
  qed
qed

lemma log2_less: "0 < m \<Longrightarrow> m < 2 ^ k \<Longrightarrow> log2 m < k"
proof (rule ccontr)
  assume m: "0 < m" "m < 2 ^ k" and "\<not> log2 m < k"
  then have "(2 :: nat) ^ k \<le> 2 ^ log2 m" by simp
  with m log2_bounds [of m] show False by linarith
qed

lemma log2_le: "0 < m \<Longrightarrow> m \<le> 2 ^ k \<Longrightarrow> log2 m \<le> k"
  using log2_less [of m "Suc k"] by simp

text \<open>The fields of a pattern put together from a sign and the 63 bits below it.\<close>

definition f64_pack :: "bool \<Rightarrow> nat \<Rightarrow> f64" where
  "f64_pack s N = (if s then push_bit 63 1 else 0) + of_nat N"

lemma unat_f64_pack: "N < 2 ^ 63 \<Longrightarrow> unat (f64_pack s N) = (if s then 2 ^ 63 else 0) + N"
proof -
  assume N: "N < 2 ^ 63"
  have "f64_pack s N = of_nat ((if s then 2 ^ 63 else 0) + N)"
    by (simp add: f64_pack_def)
  moreover have "(if s then 2 ^ 63 else 0) + N < 2 ^ 64" using N by simp
  ultimately show ?thesis by (simp only: unat_of_nat_u64)
qed

lemma f64_pack_fields:
  assumes N: "N < 2 ^ 63"
  shows "f64_exp (f64_pack s N) = N div 2 ^ 52"
    and "f64_frac (f64_pack s N) = N mod 2 ^ 52"
    and "bit (f64_pack s N) 63 = s"
proof -
  let ?u = "(if s then 2 ^ 63 else 0) + N"
  note u = unat_f64_pack [OF N, of s]
  have d: "?u div 2 ^ 52 = (if s then 2048 else 0) + N div 2 ^ 52"
    using div_mult_self1 [of "2 ^ 52" N 2048] by (simp add: add.commute)
  have "N div 2 ^ 52 < 2048" using N by (simp add: less_mult_imp_div_less)
  then show "f64_exp (f64_pack s N) = N div 2 ^ 52"
    unfolding f64_exp_def unsigned_drop_bit_eq u using N d
    by (simp add: drop_bit_eq_div take_bit_nat_eq_self)
  have "?u mod 2 ^ 52 = N mod 2 ^ 52"
    using mod_mult_self1 [of N 2048 "2 ^ 52"] by (simp add: add.commute)
  then show "f64_frac (f64_pack s N) = N mod 2 ^ 52"
    unfolding f64_frac_def unsigned_take_bit_eq u by (simp add: take_bit_eq_mod)
  have "bit (f64_pack s N) 63 = bit (unat (f64_pack s N)) 63"
    by (simp add: bit_unsigned_iff)
  also have "\<dots> = odd (?u div 2 ^ 63)"
    unfolding bit_iff_odd u ..
  also have "?u div 2 ^ 63 = (if s then 1 else 0)"
    using N by (auto intro: div_nat_eqI)
  also have "odd (if s then 1 else 0 :: nat) = s" by simp
  finally show "bit (f64_pack s N) 63 = s" .
qed

definition f64_mantissa :: "nat \<Rightarrow> nat" where
  "f64_mantissa m =
     (let e = log2 m in if e \<le> 52 then m * 2 ^ (52 - e) else round_half_even m (e - 52))"

lemma f64_of_int_pack:
  "n \<noteq> 0 \<Longrightarrow> f64_of_int n =
     f64_pack (n < 0) ((log2 (nat \<bar>n\<bar>) + 1022) * 2 ^ 52 + f64_mantissa (nat \<bar>n\<bar>))"
  by (simp add: f64_of_int_def f64_pack_def f64_mantissa_def Let_def)

lemma f64_mantissa_bounds:
  assumes "0 < m"
  shows "2 ^ 52 \<le> f64_mantissa m" and "f64_mantissa m \<le> 2 ^ 53"
    and "log2 m \<le> 52 \<Longrightarrow> f64_mantissa m < 2 ^ 53"
proof -
  note b = log2_bounds [OF assms]
  have small: "2 ^ 52 \<le> f64_mantissa m \<and> f64_mantissa m < 2 ^ 53" if "log2 m \<le> 52"
  proof -
    have "2 ^ log2 m * 2 ^ (52 - log2 m) \<le> m * 2 ^ (52 - log2 m)"
      using b by simp
    moreover have "m * 2 ^ (52 - log2 m) < 2 ^ Suc (log2 m) * 2 ^ (52 - log2 m)"
      using b by (simp only: mult_less_cancel2) simp
    moreover have "(2 :: nat) ^ log2 m * 2 ^ (52 - log2 m) = 2 ^ 52"
      "(2 :: nat) ^ Suc (log2 m) * 2 ^ (52 - log2 m) = 2 ^ 53"
      using that by (simp_all flip: power_add power_Suc)
    ultimately show ?thesis using that
      by (simp only: f64_mantissa_def Let_def if_True)
  qed
  have big: "2 ^ 52 \<le> f64_mantissa m \<and> f64_mantissa m \<le> 2 ^ 53" if "\<not> log2 m \<le> 52"
  proof -
    let ?s = "log2 m - 52"
    have "2 ^ 52 * 2 ^ ?s \<le> m" "m < 2 ^ 53 * 2 ^ ?s"
    proof -
      have e: "log2 m = 52 + ?s" using that by simp
      have "(2 :: nat) ^ log2 m = 2 ^ 52 * 2 ^ ?s"
        by (subst e) (rule power_add)
      moreover from this have "(2 :: nat) ^ Suc (log2 m) = 2 ^ 53 * 2 ^ ?s" by simp
      ultimately show "2 ^ 52 * 2 ^ ?s \<le> m" "m < 2 ^ 53 * 2 ^ ?s" using b by (simp_all only:)
    qed
    then have "2 ^ 52 \<le> m div 2 ^ ?s" "m div 2 ^ ?s < 2 ^ 53"
      by (simp_all add: less_mult_imp_div_less less_eq_div_iff_mult_less_eq)
    then show ?thesis using that
      by (auto simp: f64_mantissa_def round_half_even_def Let_def)
  qed
  show "2 ^ 52 \<le> f64_mantissa m" "f64_mantissa m \<le> 2 ^ 53"
    "log2 m \<le> 52 \<Longrightarrow> f64_mantissa m < 2 ^ 53"
    using small big by (cases "log2 m \<le> 52"; simp)+
qed

lemma f64_pack_bound:
  assumes "0 < m" "m < 2 ^ 64"
  shows "(log2 m + 1022) * 2 ^ 52 + f64_mantissa m < 2 ^ 63"
    and "((log2 m + 1022) * 2 ^ 52 + f64_mantissa m) div 2 ^ 52 < 2047"
proof -
  have "log2 m < 64" using assms by (rule log2_less)
  then have le: "(log2 m + 1022) * 2 ^ 52 + f64_mantissa m < 2047 * 2 ^ 52"
    using f64_mantissa_bounds(2) [OF assms(1)] by simp
  then show "(log2 m + 1022) * 2 ^ 52 + f64_mantissa m < 2 ^ 63"
    by simp
  show "((log2 m + 1022) * 2 ^ 52 + f64_mantissa m) div 2 ^ 52 < 2047"
    using le by (rule less_mult_imp_div_less)
qed

lemma f64_of_int_not_nan: "\<bar>n\<bar> < 2 ^ 64 \<Longrightarrow> \<not> f64_is_nan (f64_of_int n)"
proof (cases "n = 0")
  case True
  then show ?thesis by (simp add: f64_of_int_def f64_is_nan_def f64_exp_def)
next
  case False
  assume "\<bar>n\<bar> < 2 ^ 64"
  then have m: "0 < nat \<bar>n\<bar>" "nat \<bar>n\<bar> < 2 ^ 64" using False by (simp_all add: nat_less_iff)
  show ?thesis
    using f64_pack_bound [OF m]
    by (simp add: f64_is_nan_def f64_of_int_pack False f64_pack_fields del: mult_Suc)
qed

lemma R_IsNA_of_int64 [simp]: "\<not> R_IsNA (f64_of_int (sint (v :: i64)))"
proof -
  have "\<bar>sint v\<bar> < 2 ^ 64"
    using sint_ge [of v] sint_lt [of v] by simp
  then show ?thesis by (simp add: R_IsNA_def f64_of_int_not_nan)
qed

text \<open>Integers of at most 53 bits survive the conversion to \<open>double\<close>.\<close>

lemma f64_trunc_of_int:
  assumes "\<bar>n\<bar> < 2 ^ 53"
  shows "f64_trunc (f64_of_int n) = n"
proof (cases "n = 0")
  case True
  then show ?thesis by (simp add: f64_of_int_def f64_trunc_def f64_exp_def)
next
  case False
  define m where "m = nat \<bar>n\<bar>"
  let ?e = "log2 m" and ?f = "f64_mantissa m"
  have m: "0 < m" "m < 2 ^ 64" "m < 2 ^ 53"
    using assms False by (simp_all add: m_def nat_less_iff)
  have e: "?e \<le> 52" using log2_less [OF m(1,3)] by simp
  note f = f64_mantissa_bounds(1) [OF m(1)] f64_mantissa_bounds(3) [OF m(1) e]
  let ?N = "(?e + 1022) * 2 ^ 52 + ?f"
  have N: "?N = (?e + 1023) * 2 ^ 52 + (?f - 2 ^ 52)"
    using f(1) by simp
  have d: "?N div 2 ^ 52 = ?e + 1023" "?N mod 2 ^ 52 = ?f - 2 ^ 52"
    using f unfolding N by (simp_all only: div_mult_self3 mod_mult_self3) simp_all
  have "?f div 2 ^ (52 - ?e) = m" using e by (simp add: f64_mantissa_def)
  then have "f64_trunc (f64_pack (n < 0) ?N) = (if n < 0 then - int m else int m)"
    using f e d
    by (simp add: f64_trunc_def f64_pack_fields f64_pack_bound [OF m(1,2)] del: mult_Suc)
  then show ?thesis
    by (simp add: f64_of_int_pack False flip: m_def) (simp add: m_def)
qed

end
