(* ===== verification/SqliteValue.thy ===== *)
theory SqliteValue
  imports RValues
begin

text \<open>
  The part of SQLite's value interface the package calls: the fundamental types, the accessors
  \<open>sqlite3_column_*\<close> on the current row of a statement, and the conversions between numeric
  types (\<open>sqlite3VdbeIntValue\<close>, \<open>sqlite3VdbeRealValue\<close>, \<open>sqlite3RealToI64\<close>,
  \<open>sqlite3VdbeMemSetDouble\<close> of \<open>src/src/vendor/sqlite3/sqlite3.c\<close>).  The conversions between
  text and numbers are parameters.  The assumption throughout is that no allocation inside
  SQLite fails and that reading a column does not change its type.

  A row is what the accessors see of the statement: the values of the current row, which are
  none when the statement is not on a row, and the declared types of the columns.
\<close>

datatype sqlite_value =
    SqlNull
  | SqlInt i64
  | SqlFloat f64
  | SqlText string
  | SqlBlob "byte list"

datatype sqlite_type = SQLITE_INTEGER | SQLITE_FLOAT | SQLITE_TEXT | SQLITE_BLOB | SQLITE_NULL

record text_conv =
  text_to_int64 :: "string \<Rightarrow> i64"
  text_to_real :: "string \<Rightarrow> f64"
  int64_to_text :: "i64 \<Rightarrow> string"
  real_to_text :: "f64 \<Rightarrow> string"

record sqlite_row =
  row_values :: "sqlite_value list"
  row_decltypes :: "string option list"

subsection \<open>Conversions of a value\<close>

definition chars_of_bytes :: "byte list \<Rightarrow> string" where
  "chars_of_bytes = map (\<lambda>b. char_of (unat b))"

definition bytes_of_chars :: "string \<Rightarrow> byte list" where
  "bytes_of_chars = map (\<lambda>c. of_nat (of_char c))"

definition f64_key :: "f64 \<Rightarrow> int" where
  "f64_key w = (let m = int (unat (take_bit 63 w)) in if bit w 63 then - m else m)"

definition f64_less :: "f64 \<Rightarrow> f64 \<Rightarrow> bool" where
  "f64_less a b \<longleftrightarrow> \<not> f64_is_nan a \<and> \<not> f64_is_nan b \<and> f64_key a < f64_key b"

text \<open>The constants are the patterns of \<open>-9223372036854774784.0\<close> and \<open>+9223372036854774784.0\<close>.\<close>

definition sqlite3RealToI64 :: "f64 \<Rightarrow> i64" where
  "sqlite3RealToI64 r =
     (if f64_less r 0xC3DFFFFFFFFFFFFF then 0x8000000000000000
      else if f64_less 0x43DFFFFFFFFFFFFF r then 0x7FFFFFFFFFFFFFFF
      else of_int (f64_trunc r))"

fun sqlite3VdbeIntValue :: "text_conv \<Rightarrow> sqlite_value \<Rightarrow> i64" where
  "sqlite3VdbeIntValue T (SqlInt i) = i"
| "sqlite3VdbeIntValue T (SqlFloat r) = sqlite3RealToI64 r"
| "sqlite3VdbeIntValue T (SqlText s) = text_to_int64 T s"
| "sqlite3VdbeIntValue T (SqlBlob b) = text_to_int64 T (chars_of_bytes b)"
| "sqlite3VdbeIntValue T SqlNull = 0"

fun sqlite3VdbeRealValue :: "text_conv \<Rightarrow> sqlite_value \<Rightarrow> f64" where
  "sqlite3VdbeRealValue T (SqlFloat r) = r"
| "sqlite3VdbeRealValue T (SqlInt i) = f64_of_int (sint i)"
| "sqlite3VdbeRealValue T (SqlText s) = text_to_real T s"
| "sqlite3VdbeRealValue T (SqlBlob b) = text_to_real T (chars_of_bytes b)"
| "sqlite3VdbeRealValue T SqlNull = 0"

fun sqlite3_value_text :: "text_conv \<Rightarrow> sqlite_value \<Rightarrow> string option" where
  "sqlite3_value_text T SqlNull = None"
| "sqlite3_value_text T (SqlInt i) = Some (int64_to_text T i)"
| "sqlite3_value_text T (SqlFloat r) = Some (real_to_text T r)"
| "sqlite3_value_text T (SqlText s) = Some s"
| "sqlite3_value_text T (SqlBlob b) = Some (chars_of_bytes b)"

text \<open>The bytes that \<open>sqlite3_column_blob\<close> and \<open>sqlite3_column_bytes\<close> give together.\<close>

definition sqlite3_value_blob :: "text_conv \<Rightarrow> sqlite_value \<Rightarrow> byte list" where
  "sqlite3_value_blob T v =
     (case sqlite3_value_text T v of None \<Rightarrow> [] | Some s \<Rightarrow> bytes_of_chars s)"

fun sqlite3_value_type :: "sqlite_value \<Rightarrow> sqlite_type" where
  "sqlite3_value_type SqlNull = SQLITE_NULL"
| "sqlite3_value_type (SqlInt _) = SQLITE_INTEGER"
| "sqlite3_value_type (SqlFloat _) = SQLITE_FLOAT"
| "sqlite3_value_type (SqlText _) = SQLITE_TEXT"
| "sqlite3_value_type (SqlBlob _) = SQLITE_BLOB"

text \<open>A double is stored as NULL when it is a NaN.\<close>

definition sqlite3VdbeMemSetDouble :: "f64 \<Rightarrow> sqlite_value" where
  "sqlite3VdbeMemSetDouble r = (if f64_is_nan r then SqlNull else SqlFloat r)"

subsection \<open>Columns of the current row\<close>

definition columnMem :: "sqlite_row \<Rightarrow> nat \<Rightarrow> sqlite_value" where
  "columnMem row i = (if i < length (row_values row) then row_values row ! i else SqlNull)"

definition sqlite3_column_type :: "sqlite_row \<Rightarrow> nat \<Rightarrow> sqlite_type" where
  "sqlite3_column_type row i = sqlite3_value_type (columnMem row i)"

definition sqlite3_column_int :: "text_conv \<Rightarrow> sqlite_row \<Rightarrow> nat \<Rightarrow> i32" where
  "sqlite3_column_int T row i = ucast (sqlite3VdbeIntValue T (columnMem row i))"

definition sqlite3_column_int64 :: "text_conv \<Rightarrow> sqlite_row \<Rightarrow> nat \<Rightarrow> i64" where
  "sqlite3_column_int64 T row i = sqlite3VdbeIntValue T (columnMem row i)"

definition sqlite3_column_double :: "text_conv \<Rightarrow> sqlite_row \<Rightarrow> nat \<Rightarrow> f64" where
  "sqlite3_column_double T row i = sqlite3VdbeRealValue T (columnMem row i)"

definition sqlite3_column_text :: "text_conv \<Rightarrow> sqlite_row \<Rightarrow> nat \<Rightarrow> string option" where
  "sqlite3_column_text T row i = sqlite3_value_text T (columnMem row i)"

definition sqlite3_column_blob :: "text_conv \<Rightarrow> sqlite_row \<Rightarrow> nat \<Rightarrow> byte list" where
  "sqlite3_column_blob T row i = sqlite3_value_blob T (columnMem row i)"

definition sqlite3_column_decltype :: "sqlite_row \<Rightarrow> nat \<Rightarrow> string option" where
  "sqlite3_column_decltype row i =
     (if i < length (row_decltypes row) then row_decltypes row ! i else None)"

lemmas sqlite3_column_defs = sqlite3_column_type_def sqlite3_column_int_def
  sqlite3_column_int64_def sqlite3_column_double_def sqlite3_column_text_def
  sqlite3_column_blob_def

subsection \<open>Lemmas\<close>

lemma bytes_of_chars_of_bytes [simp]: "bytes_of_chars (chars_of_bytes b) = b"
proof -
  have "unat x mod 256 = unat x" for x :: byte
  proof -
    have "unat x < 2 ^ LENGTH(8)" by (rule unsigned_less)
    then show ?thesis by simp
  qed
  then show ?thesis
    by (simp add: bytes_of_chars_def chars_of_bytes_def comp_def of_char_of)
qed

lemma sqlite3_value_blob_SqlBlob [simp]: "sqlite3_value_blob T (SqlBlob b) = b"
  by (simp add: sqlite3_value_blob_def)

lemma sqlite3_value_type_NULL [simp]: "sqlite3_value_type v = SQLITE_NULL \<longleftrightarrow> v = SqlNull"
  by (cases v) simp_all

lemma sqlite3_value_text_None [simp]: "sqlite3_value_text T v = None \<longleftrightarrow> v = SqlNull"
  by (cases v) simp_all

lemma sqlite3VdbeMemSetDouble_NA [simp]: "sqlite3VdbeMemSetDouble NA_REAL = SqlNull"
  by (simp add: sqlite3VdbeMemSetDouble_def)

end
