(* ===== verification/ColumnSource.thy ===== *)
theory ColumnSource
  imports SqliteValue Affinity
begin

text \<open>
  \<open>src/src/DbColumnDataType.h\<close>, \<open>DbColumnDataSource.h\<close> and \<open>SqliteColumnDataSource.cpp\<close>:
  the type the code gives to a column value and the ways it reads the value.

  The abstract class \<open>DbColumnDataSource\<close> is the record \<open>column_source\<close> of the results of
  its virtual methods on the row the statement is at; \<open>sqlite_column_source\<close> is its one
  implementation.  What the storage classes rely on is the locale \<open>column_source_contract\<close>,
  interpreted on that implementation at the end.
\<close>

subsection \<open>Data types\<close>

datatype data_type =
    DT_UNKNOWN | DT_BOOL | DT_INT | DT_INT64 | DT_REAL | DT_STRING | DT_BLOB
  | DT_DATE | DT_DATETIME | DT_DATETIMETZ | DT_TIME

text \<open>The enumerators in their order; \<open>std::set\<open>DATA_TYPE\<close>\<close> iterates in this order.\<close>

fun dt_code :: "data_type \<Rightarrow> nat" where
  "dt_code DT_UNKNOWN = 0"
| "dt_code DT_BOOL = 1"
| "dt_code DT_INT = 2"
| "dt_code DT_INT64 = 3"
| "dt_code DT_REAL = 4"
| "dt_code DT_STRING = 5"
| "dt_code DT_BLOB = 6"
| "dt_code DT_DATE = 7"
| "dt_code DT_DATETIME = 8"
| "dt_code DT_DATETIMETZ = 9"
| "dt_code DT_TIME = 10"

lemma dt_code_inject: "dt_code a = dt_code b \<longleftrightarrow> a = b"
  by (cases a; cases b) simp_all

instantiation data_type :: linorder
begin

definition less_eq_data_type :: "data_type \<Rightarrow> data_type \<Rightarrow> bool" where
  "less_eq_data_type a b \<longleftrightarrow> dt_code a \<le> dt_code b"

definition less_data_type :: "data_type \<Rightarrow> data_type \<Rightarrow> bool" where
  "less_data_type a b \<longleftrightarrow> dt_code a < dt_code b"

instance
  by standard (auto simp: less_eq_data_type_def less_data_type_def dt_code_inject [symmetric])

end

subsection \<open>The interface of a column source\<close>

record column_source =
  get_data_type :: data_type
  get_decl_data_type :: data_type
  is_null :: bool
  fetch_bool :: i32
  fetch_int :: i32
  fetch_int64 :: i64
  fetch_real :: f64
  fetch_string :: "rstring res"
  fetch_blob :: sexp
  fetch_date :: "f64 eff"
  fetch_datetime_local :: "f64 eff"
  fetch_datetime :: f64
  fetch_time :: "f64 eff"

subsection \<open>SqliteColumnDataSource\<close>

text \<open>
  The date parsers of Boost are parameters: each gives the parsed count (days since the epoch,
  or microseconds) or \<open>None\<close> for any exception, and \<open>micros\<close> is the product of a count with
  the double \<open>1e-6\<close>.
\<close>

record date_parsers =
  from_simple_string :: "string \<Rightarrow> int option"
  parse_delimited_time :: "string \<Rightarrow> int option"
  duration_from_string :: "string \<Rightarrow> int option"
  micros :: "int \<Rightarrow> f64"

definition to_upper :: "char \<Rightarrow> nat" where
  "to_upper c = (let n = of_char c :: nat in if 97 \<le> n \<and> n \<le> 122 then n - 32 else n)"

definition iequals :: "string \<Rightarrow> string \<Rightarrow> bool" where
  "iequals a b \<longleftrightarrow> map to_upper a = map to_upper b"

definition datatype_from_decltype :: "string option \<Rightarrow> bool \<Rightarrow> data_type" where
  "datatype_from_decltype decl_type with_alt_types =
     (case decl_type of None \<Rightarrow> DT_BOOL
      | Some z \<Rightarrow>
          if with_alt_types \<and> (iequals (c_str z) ''datetime'' \<or> iequals (c_str z) ''timestamp'')
          then DT_DATETIME
          else if with_alt_types \<and> iequals (c_str z) ''date'' then DT_DATE
          else if with_alt_types \<and> iequals (c_str z) ''time'' then DT_TIME
          else
            let affinity = sqlite3AffinityType decl_type in
            if affinity = SQLITE_AFF_INTEGER then DT_INT
            else if affinity = SQLITE_AFF_NUMERIC \<or> affinity = SQLITE_AFF_REAL then DT_REAL
            else if affinity = SQLITE_AFF_TEXT then DT_STRING
            else if affinity = SQLITE_AFF_BLOB then DT_BLOB
            else DT_BOOL)"

text \<open>\<open>std::numeric_limits<int32_t>\<close> bounds, compared as signed 64-bit integers.\<close>

definition needs_64_bit :: "i64 \<Rightarrow> bool" where
  "needs_64_bit v \<longleftrightarrow> sint v < - 2147483648 \<or> sint v > 2147483647"

definition sqlite_get_decl_data_type :: "bool \<Rightarrow> sqlite_row \<Rightarrow> nat \<Rightarrow> data_type" where
  "sqlite_get_decl_data_type with_alt_types row j =
     datatype_from_decltype (sqlite3_column_decltype row j) with_alt_types"

definition sqlite_get_column_type :: "sqlite_row \<Rightarrow> nat \<Rightarrow> sqlite_type" where
  [simp]: "sqlite_get_column_type row j = sqlite3_column_type row j"

definition sqlite_get_data_type :: "text_conv \<Rightarrow> bool \<Rightarrow> sqlite_row \<Rightarrow> nat \<Rightarrow> data_type" where
  "sqlite_get_data_type T with_alt_types row j =
     (let decl_dt = sqlite_get_decl_data_type with_alt_types row j in
      if with_alt_types \<and> (decl_dt = DT_DATE \<or> decl_dt = DT_DATETIME \<or> decl_dt = DT_TIME)
      then decl_dt
      else case sqlite_get_column_type row j of
          SQLITE_INTEGER \<Rightarrow>
            (if needs_64_bit (sqlite3_column_int64 T row j) then DT_INT64 else DT_INT)
        | SQLITE_FLOAT \<Rightarrow> DT_REAL
        | SQLITE_TEXT \<Rightarrow> DT_STRING
        | SQLITE_BLOB \<Rightarrow> DT_BLOB
        | SQLITE_NULL \<Rightarrow> DT_UNKNOWN)"

definition sqlite_is_null :: "sqlite_row \<Rightarrow> nat \<Rightarrow> bool" where
  "sqlite_is_null row j \<longleftrightarrow> sqlite_get_column_type row j = SQLITE_NULL"

text \<open>\<open>Rf_mkCharCE\<close> reads a C string; on a null pointer it would crash.\<close>

definition sqlite_fetch_string :: "text_conv \<Rightarrow> sqlite_row \<Rightarrow> nat \<Rightarrow> rstring res" where
  "sqlite_fetch_string T row j =
     (case sqlite3_column_text T row j of
        None \<Rightarrow> Inl (UB ''Rf_mkCharCE on a null pointer'')
      | Some text \<Rightarrow> Inr (RString (c_str text)))"

definition sqlite_fetch_blob :: "text_conv \<Rightarrow> sqlite_row \<Rightarrow> nat \<Rightarrow> sexp" where
  "sqlite_fetch_blob T row j = RawSXP (map Some (sqlite3_column_blob T row j))"

text \<open>
  The three date readers have one shape: text goes through a parser whose exceptions become a
  missing value with a warning, a blob becomes a missing value with another warning, and
  anything else is read as a number.
\<close>

definition fetch_parsed ::
  "text_conv \<Rightarrow> sqlite_row \<Rightarrow> nat \<Rightarrow> (string \<Rightarrow> f64 option) \<Rightarrow> f64 \<Rightarrow> f64 eff" where
  "fetch_parsed T row j parse number =
     (case sqlite_get_column_type row j of
        SQLITE_TEXT \<Rightarrow>
          (case sqlite3_column_text T row j of
             None \<Rightarrow> Inl (UB ''string from a null pointer'')
           | Some s \<Rightarrow> (case parse (c_str s) of
                 None \<Rightarrow> ebind (warning ''Unknown string format, NA is returned.'') (\<lambda>_. ret NA_REAL)
               | Some v \<Rightarrow> ret v))
      | SQLITE_BLOB \<Rightarrow> ebind (warning ''Cannot convert blob, NA is returned.'') (\<lambda>_. ret NA_REAL)
      | _ \<Rightarrow> ret number)"

definition sqlite_fetch_date :: "text_conv \<Rightarrow> date_parsers \<Rightarrow> sqlite_row \<Rightarrow> nat \<Rightarrow> f64 eff" where
  "sqlite_fetch_date T D row j =
     fetch_parsed T row j (\<lambda>s. map_option f64_of_int (from_simple_string D s))
       (f64_of_int (sint (sqlite3_column_int T row j)))"

definition sqlite_fetch_datetime_local ::
  "text_conv \<Rightarrow> date_parsers \<Rightarrow> sqlite_row \<Rightarrow> nat \<Rightarrow> f64 eff" where
  "sqlite_fetch_datetime_local T D row j =
     fetch_parsed T row j (\<lambda>s. map_option (micros D) (parse_delimited_time D s))
       (sqlite3_column_double T row j)"

definition sqlite_fetch_time :: "text_conv \<Rightarrow> date_parsers \<Rightarrow> sqlite_row \<Rightarrow> nat \<Rightarrow> f64 eff" where
  "sqlite_fetch_time T D row j =
     fetch_parsed T row j (\<lambda>s. map_option (micros D) (duration_from_string D s))
       (sqlite3_column_double T row j)"

text \<open>The methods of the object for column \<open>j\<close>, seen at \<open>row\<close>.\<close>

definition sqlite_column_source ::
  "text_conv \<Rightarrow> date_parsers \<Rightarrow> bool \<Rightarrow> nat \<Rightarrow> sqlite_row \<Rightarrow> column_source" where
  "sqlite_column_source T D with_alt_types j row =
     \<lparr>get_data_type = sqlite_get_data_type T with_alt_types row j,
      get_decl_data_type = sqlite_get_decl_data_type with_alt_types row j,
      is_null = sqlite_is_null row j,
      fetch_bool = 0,
      fetch_int = sqlite3_column_int T row j,
      fetch_int64 = sqlite3_column_int64 T row j,
      fetch_real = sqlite3_column_double T row j,
      fetch_string = sqlite_fetch_string T row j,
      fetch_blob = sqlite_fetch_blob T row j,
      fetch_date = sqlite_fetch_date T D row j,
      fetch_datetime_local = sqlite_fetch_datetime_local T D row j,
      fetch_datetime = 0,
      fetch_time = sqlite_fetch_time T D row j\<rparr>"

text \<open>
  The objects and their factory.  The pointer to the statement is modelled by what is behind it
  when a method runs, the row the statement is at.
\<close>

record db_column_data_source =
  dcs_j :: nat

record 'stmt sqlite_column_data_source = db_column_data_source +
  scs_stmt :: 'stmt
  scs_with_alt_types :: bool

record 'stmt sqlite_column_data_source_factory =
  sf_stmt :: 'stmt
  sf_with_alt_types :: bool

definition db_column_data_source_new :: "nat \<Rightarrow> db_column_data_source" where
  [simp]: "db_column_data_source_new j = \<lparr>dcs_j = j\<rparr>"

definition get_j :: "'a db_column_data_source_scheme \<Rightarrow> nat" where
  [simp]: "get_j src = dcs_j src"

definition sqlite_column_data_source_new :: "'stmt \<Rightarrow> nat \<Rightarrow> bool \<Rightarrow> 'stmt sqlite_column_data_source" where
  "sqlite_column_data_source_new stmt j with_alt_types =
     db_column_data_source.extend (db_column_data_source_new j)
       (sqlite_column_data_source.fields stmt with_alt_types)"

lemma sqlite_column_data_source_new_simp [simp]:
  "sqlite_column_data_source_new stmt j alt = \<lparr>dcs_j = j, scs_stmt = stmt, scs_with_alt_types = alt\<rparr>"
  by (simp add: sqlite_column_data_source_new_def db_column_data_source.defs sqlite_column_data_source.defs)

definition get_stmt :: "'stmt sqlite_column_data_source \<Rightarrow> 'stmt" where
  [simp]: "get_stmt src = scs_stmt src"

definition sqlite_factory_new :: "'stmt \<Rightarrow> bool \<Rightarrow> 'stmt sqlite_column_data_source_factory" where
  [simp]: "sqlite_factory_new stmt with_alt_types = \<lparr>sf_stmt = stmt, sf_with_alt_types = with_alt_types\<rparr>"

definition factory_create :: "'stmt sqlite_column_data_source_factory \<Rightarrow> nat \<Rightarrow> 'stmt sqlite_column_data_source" where
  [simp]: "factory_create factory j =
     sqlite_column_data_source_new (sf_stmt factory) j (sf_with_alt_types factory)"

definition source_methods ::
  "text_conv \<Rightarrow> date_parsers \<Rightarrow> sqlite_row sqlite_column_data_source \<Rightarrow> column_source" where
  [simp]: "source_methods T D src = sqlite_column_source T D (scs_with_alt_types src) (get_j src) (get_stmt src)"

subsection \<open>The contract the storage classes rely on\<close>

locale column_source_contract =
  fixes src :: "'row \<Rightarrow> column_source"
  assumes type_known: "\<not> is_null (src r) \<Longrightarrow> get_data_type (src r) \<noteq> DT_UNKNOWN"
    and decl_known: "get_decl_data_type (src r) \<noteq> DT_UNKNOWN"
    and string_total: "\<not> is_null (src r) \<Longrightarrow> \<exists>s. fetch_string (src r) = Inr s"
    and date_total: "\<exists>v ws. fetch_date (src r) = Inr (v, ws)"
    and datetime_total: "\<exists>v ws. fetch_datetime_local (src r) = Inr (v, ws)"
    and time_total: "\<exists>v ws. fetch_time (src r) = Inr (v, ws)"

lemma sqlite_type_not_unknown:
  "\<not> sqlite_is_null row j \<Longrightarrow> sqlite_get_data_type T alt row j \<noteq> DT_UNKNOWN"
  by (auto simp: sqlite_get_data_type_def sqlite_is_null_def Let_def split: sqlite_type.splits)

lemma datatype_from_decltype_not_unknown: "datatype_from_decltype d alt \<noteq> DT_UNKNOWN"
  by (auto simp: datatype_from_decltype_def Let_def split: option.splits)

lemma fetch_parsed_total: "\<exists>v ws. fetch_parsed T row j parse number = Inr (v, ws)"
proof -
  have "sqlite3_column_type row j = SQLITE_TEXT \<Longrightarrow> sqlite3_column_text T row j \<noteq> None"
    unfolding sqlite3_column_type_def sqlite3_column_text_def
    by (cases "columnMem row j") simp_all
  then show ?thesis
    by (auto simp: fetch_parsed_def warning_def ebind_def ret_def
        split: sqlite_type.splits option.splits)
qed

interpretation sqlite_source: column_source_contract "sqlite_column_source T D alt j"
  for T D alt j
proof
  fix r
  show "\<not> is_null (sqlite_column_source T D alt j r) \<Longrightarrow>
      get_data_type (sqlite_column_source T D alt j r) \<noteq> DT_UNKNOWN"
    using sqlite_type_not_unknown by (simp add: sqlite_column_source_def)
  show "get_decl_data_type (sqlite_column_source T D alt j r) \<noteq> DT_UNKNOWN"
    by (simp add: sqlite_column_source_def sqlite_get_decl_data_type_def
        datatype_from_decltype_not_unknown)
  show "\<not> is_null (sqlite_column_source T D alt j r) \<Longrightarrow>
      \<exists>s. fetch_string (sqlite_column_source T D alt j r) = Inr s"
    by (auto simp: sqlite_column_source_def sqlite_is_null_def sqlite_fetch_string_def
        sqlite3_column_type_def sqlite3_column_text_def split: option.splits)
qed (simp_all add: sqlite_column_source_def sqlite_fetch_date_def
      sqlite_fetch_datetime_local_def sqlite_fetch_time_def fetch_parsed_total)

subsection \<open>The type of a value and what reading it gives\<close>

lemma ucast_of_int: "ucast (word_of_int k :: i64) = (word_of_int k :: i32)"
  by (simp add: unsigned_of_int word_of_int_eq_iff)

lemma sint_of_int_i32:
  "- 2147483648 \<le> k \<Longrightarrow> k \<le> 2147483647 \<Longrightarrow> sint (word_of_int k :: i32) = k"
  by (simp add: signed_of_int signed_take_bit_int_eq_self)

lemma sint_of_int_i64:
  "- 9223372036854775808 \<le> k \<Longrightarrow> k \<le> 9223372036854775807 \<Longrightarrow> sint (word_of_int k :: i64) = k"
  by (simp add: signed_of_int signed_take_bit_int_eq_self)

lemma narrow_eq: "ucast (v :: i64) = (word_of_int (sint v) :: i32)"
  using ucast_of_int [of "sint v"] by simp

lemma narrow_exact: "\<not> needs_64_bit v \<Longrightarrow> sint (ucast v :: i32) = sint v"
  unfolding narrow_eq by (rule sint_of_int_i32) (simp_all add: needs_64_bit_def)

lemma narrow_NA: "\<not> needs_64_bit v \<Longrightarrow> ucast v = NA_INTEGER \<longleftrightarrow> sint v = - 2147483648"
proof
  assume n: "\<not> needs_64_bit v" and "ucast v = NA_INTEGER"
  then have "sint v = sint NA_INTEGER" using narrow_exact [OF n] by simp
  then show "sint v = - 2147483648" by (simp add: NA_INTEGER_def)
next
  assume "sint v = - 2147483648"
  then show "ucast v = NA_INTEGER" by (simp only: narrow_eq NA_INTEGER_def) simp
qed

subsection \<open>Properties\<close>

text \<open>
  C39: an integer value is given the type integer exactly when it fits in 32 bits, and is then
  read without loss; the only integer of that type that R cannot tell from a missing value is
  \<open>- 2^31\<close>, which is read as \<open>NA_INTEGER\<close>.
\<close>

theorem int_value_typing:
  assumes "columnMem row j = SqlInt i"
  shows "let s = sqlite_column_source T D False j row in
    get_data_type s = (if sint i < - (2 ^ 31) \<or> sint i \<ge> 2 ^ 31 then DT_INT64 else DT_INT)
    \<and> fetch_int64 s = i
    \<and> (get_data_type s = DT_INT \<longrightarrow> sint (fetch_int s) = sint i
         \<and> (fetch_int s = NA_INTEGER \<longleftrightarrow> sint i = - (2 ^ 31)))"
  using assms narrow_exact [of i] narrow_NA [of i]
  by (auto simp: Let_def sqlite_column_source_def sqlite_get_data_type_def sqlite3_column_defs needs_64_bit_def)

theorem int_value_typing_witness:
  "fetch_int (sqlite_column_source undefined undefined False 0
     \<lparr>row_values = [SqlInt 0xFFFFFFFF80000000], row_decltypes = []\<rparr>) = NA_INTEGER"
  using int_value_typing [of "\<lparr>row_values = [SqlInt 0xFFFFFFFF80000000], row_decltypes = []\<rparr>" 0
      "0xFFFFFFFF80000000" undefined undefined]
  by (simp add: columnMem_def Let_def)

end
