(* ===== verification/ColumnStorage.thy ===== *)
theory ColumnStorage
  imports ColumnSource
begin

text \<open>
  \<open>src/src/DbColumnStorage.cpp\<close>: one chunk of a column, an R vector of a fixed type and
  capacity with a fill count.  Appending a value that does not fit, in number or in type,
  opens another chunk; a missing value is counted even when it does not fit.  The chunks of a
  column are copied into one vector at the end (\<open>copy_to\<close>).

  The last section reads a vector as a list of typed cells and shows that every operation
  is the corresponding operation on cells, without a type error, an index out of bounds or a
  read of an uninitialised cell.
\<close>

subsection \<open>Types, classes and attributes\<close>

fun sexptype_from_datatype :: "data_type \<Rightarrow> sexptype" where
  "sexptype_from_datatype DT_UNKNOWN = NILSXP"
| "sexptype_from_datatype DT_BOOL = LGLSXP"
| "sexptype_from_datatype DT_INT = INTSXP"
| "sexptype_from_datatype DT_INT64 = INT64SXP"
| "sexptype_from_datatype DT_REAL = REALSXP"
| "sexptype_from_datatype DT_DATE = REALSXP"
| "sexptype_from_datatype DT_DATETIME = REALSXP"
| "sexptype_from_datatype DT_DATETIMETZ = REALSXP"
| "sexptype_from_datatype DT_TIME = REALSXP"
| "sexptype_from_datatype DT_STRING = STRSXP"
| "sexptype_from_datatype DT_BLOB = VECSXP"

text \<open>\<open>None\<close> is \<open>R_NilValue\<close>: no class attribute is set.\<close>

fun class_from_datatype :: "data_type \<Rightarrow> string list option" where
  "class_from_datatype DT_INT64 = Some [''integer64'']"
| "class_from_datatype DT_DATE = Some [''Date'']"
| "class_from_datatype DT_DATETIME = Some [''POSIXct'', ''POSIXt'']"
| "class_from_datatype DT_DATETIMETZ = Some [''POSIXct'', ''POSIXt'']"
| "class_from_datatype _ = None"

definition new_blob :: "r_packages \<Rightarrow> robj \<Rightarrow> robj" where
  [simp]: "new_blob P = package_function P ''blob'' ''new_blob''"

definition new_hms :: "r_packages \<Rightarrow> robj \<Rightarrow> robj" where
  [simp]: "new_hms P = package_function P ''hms'' ''new_hms''"

fun set_attribs_from_datatype :: "r_packages \<Rightarrow> robj \<Rightarrow> data_type \<Rightarrow> robj" where
  "set_attribs_from_datatype P x DT_BLOB = new_blob P x"
| "set_attribs_from_datatype P x DT_TIME = new_hms P x"
| "set_attribs_from_datatype P x DT_DATETIME = x\<lparr>rtzone := Some ''UTC''\<rparr>"
| "set_attribs_from_datatype P x _ = x"

definition allocate :: "r_packages \<Rightarrow> nat \<Rightarrow> data_type \<Rightarrow> robj" where
  "allocate P n dt =
     (let ret = plain (Rf_allocVector (sexptype_from_datatype dt) n);
          ret = (case class_from_datatype dt of None \<Rightarrow> ret | Some cls \<Rightarrow> ret\<lparr>rclass := cls\<rparr>)
      in set_attribs_from_datatype P ret dt)"

subsection \<open>A chunk\<close>

record storage =
  sdata :: robj
  si :: nat
  sdt :: data_type
  s_n_max :: int

definition get_capacity :: "storage \<Rightarrow> nat" where
  "get_capacity st = Rf_xlength (rdata (sdata st))"

definition get_new_capacity :: "int \<Rightarrow> int \<Rightarrow> nat" where
  "get_new_capacity n_max desired_capacity =
     nat (if n_max < 0 then max desired_capacity 100 else max desired_capacity 1)"

definition storage_new :: "r_packages \<Rightarrow> data_type \<Rightarrow> int \<Rightarrow> int \<Rightarrow> storage" where
  "storage_new P dt capacity n_max =
     \<lparr>sdata = allocate P (get_new_capacity n_max capacity) dt, si = 0, sdt = dt, s_n_max = n_max\<rparr>"

definition get_item_data_type :: "storage \<Rightarrow> column_source \<Rightarrow> data_type" where
  [simp]: "get_item_data_type st src = get_data_type src"

definition storage_data_type :: "storage \<Rightarrow> column_source \<Rightarrow> data_type" where
  "storage_data_type st src = (if sdt st = DT_UNKNOWN then get_decl_data_type src else sdt st)"

fun fill_default_value :: "sexp \<Rightarrow> data_type \<Rightarrow> nat \<Rightarrow> sexp res" where
  "fill_default_value x DT_BOOL k = set_logical x k NA_LOGICAL"
| "fill_default_value x DT_INT k = set_integer x k NA_INTEGER"
| "fill_default_value x DT_INT64 k = set_integer64 x k NA_INTEGER64"
| "fill_default_value x DT_REAL k = set_real x k NA_REAL"
| "fill_default_value x DT_DATE k = set_real x k NA_REAL"
| "fill_default_value x DT_DATETIME k = set_real x k NA_REAL"
| "fill_default_value x DT_DATETIMETZ k = set_real x k NA_REAL"
| "fill_default_value x DT_TIME k = set_real x k NA_REAL"
| "fill_default_value x DT_STRING k = SET_STRING_ELT x k NA_STRING"
| "fill_default_value x DT_BLOB k = SET_VECTOR_ELT x k NilSXP"
| "fill_default_value x DT_UNKNOWN k = Inl (Stop ''Not setting value for unknown data type'')"

definition set_data :: "storage \<Rightarrow> sexp \<Rightarrow> storage" where
  "set_data st x = st\<lparr>sdata := (sdata st)\<lparr>rdata := x\<rparr>\<rparr>"

definition append_null :: "storage \<Rightarrow> storage res" where
  "append_null st =
     rbind (if si st < get_capacity st
            then rbind (fill_default_value (rdata (sdata st)) (sdt st) (si st))
                   (\<lambda>x. Inr (set_data st x))
            else Inr st)
       (\<lambda>st'. Inr (st'\<lparr>si := Suc (si st')\<rparr>))"

fun fetch_value :: "storage \<Rightarrow> column_source \<Rightarrow> storage eff" where
  "fetch_value st src =
     (let x = rdata (sdata st); i = si st; put = (\<lambda>r. lift_res (rbind r (\<lambda>y. Inr (set_data st y)))) in
      case sdt st of
        DT_BOOL \<Rightarrow> put (set_logical x i (fetch_bool src))
      | DT_INT \<Rightarrow> put (set_integer x i (fetch_int src))
      | DT_INT64 \<Rightarrow> put (set_integer64 x i (fetch_int64 src))
      | DT_REAL \<Rightarrow> put (set_real x i (fetch_real src))
      | DT_STRING \<Rightarrow> put (rbind (fetch_string src) (SET_STRING_ELT x i))
      | DT_BLOB \<Rightarrow> put (SET_VECTOR_ELT x i (fetch_blob src))
      | DT_DATE \<Rightarrow> ebind (fetch_date src) (\<lambda>v. put (set_real x i v))
      | DT_DATETIME \<Rightarrow> ebind (fetch_datetime_local src) (\<lambda>v. put (set_real x i v))
      | DT_DATETIMETZ \<Rightarrow> put (set_real x i (fetch_datetime src))
      | DT_TIME \<Rightarrow> ebind (fetch_time src) (\<lambda>v. put (set_real x i v))
      | DT_UNKNOWN \<Rightarrow> Inl (Stop ''NYI''))"

text \<open>The chunk \<open>append_data_to_new\<close> opens before it appends to it.\<close>

definition spillover :: "r_packages \<Rightarrow> storage \<Rightarrow> data_type \<Rightarrow> column_source \<Rightarrow> storage" where
  "spillover P st new_dt src =
     (let new_dt = (if new_dt = DT_UNKNOWN then get_data_type src else new_dt);
          desired_capacity = (if s_n_max st < 0 then int (get_capacity st) * 2
                              else s_n_max st - int (si st))
      in storage_new P new_dt desired_capacity (s_n_max st))"

text \<open>
  \<open>append_data\<close> and \<open>append_data_to_new\<close> call each other; \<open>None\<close> is a recursion that does not
  end.  The code returns the chunk that took the value, which the caller compares with
  \<open>this\<close>; here \<open>fresh\<close> says that it is another one.
\<close>

partial_function (option) append_data ::
  "r_packages \<Rightarrow> bool \<Rightarrow> storage \<Rightarrow> column_source \<Rightarrow> (bool \<times> storage) eff option" where
  "append_data P fresh st src =
     (if sdt st = DT_UNKNOWN then append_data P True (spillover P st (sdt st) src) src
      else if si st \<ge> get_capacity st then append_data P True (spillover P st (sdt st) src) src
      else if sdt st = DT_INT \<and> get_data_type src = DT_INT64
      then append_data P True (spillover P st DT_INT64 src) src
      else if sdt st = DT_INT \<and> get_data_type src = DT_REAL
      then append_data P True (spillover P st DT_REAL src) src
      else Some (ebind (fetch_value st src) (\<lambda>st'. ret (fresh, st'\<lparr>si := Suc (si st')\<rparr>))))"

definition append_col :: "r_packages \<Rightarrow> storage \<Rightarrow> column_source \<Rightarrow> (bool \<times> storage) eff" where
  "append_col P st src =
     (if is_null src then lift_res (rbind (append_null st) (\<lambda>st'. Inr (False, st')))
      else case append_data P False st src of
          None \<Rightarrow> Inl (UB ''unbounded recursion'')
        | Some r \<Rightarrow> r)"

subsection \<open>Copying chunks into the result\<close>

fun copy_value :: "sexp \<Rightarrow> sexp \<Rightarrow> data_type \<Rightarrow> nat \<Rightarrow> nat \<Rightarrow> sexp res" where
  "copy_value data x dt tgt src =
     (if data = NilSXP then fill_default_value x dt tgt
      else case dt of
        DT_BOOL \<Rightarrow> rbind (LOGICAL data src) (set_logical x tgt)
      | DT_INT \<Rightarrow> rbind (INTEGER data src) (set_integer x tgt)
      | DT_INT64 \<Rightarrow>
          (case TYPEOF data of
             INTSXP \<Rightarrow> rbind (INTEGER data src) (\<lambda>v.
               if v = NA_INTEGER then set_integer64 x tgt NA_INTEGER64
               else set_integer64 x tgt (scast v))
           | REALSXP \<Rightarrow> rbind (INTEGER64 data src) (\<lambda>v.
               if R_IsNA (f64_of_int (sint v)) then set_integer64 x tgt NA_INTEGER64
               else set_integer64 x tgt v)
           | _ \<Rightarrow> Inr x)
      | DT_REAL \<Rightarrow>
          (case TYPEOF data of
             INTSXP \<Rightarrow> rbind (INTEGER data src) (\<lambda>v.
               if v = NA_INTEGER then set_real x tgt NA_REAL
               else set_real x tgt (f64_of_int (sint v)))
           | REALSXP \<Rightarrow> rbind (REAL data src) (set_real x tgt)
           | _ \<Rightarrow> Inr x)
      | DT_STRING \<Rightarrow> rbind (STRING_ELT data src) (SET_STRING_ELT x tgt)
      | DT_BLOB \<Rightarrow> rbind (VECTOR_ELT data src) (SET_VECTOR_ELT x tgt)
      | DT_DATE \<Rightarrow> rbind (REAL data src) (set_real x tgt)
      | DT_DATETIME \<Rightarrow> rbind (REAL data src) (set_real x tgt)
      | DT_DATETIMETZ \<Rightarrow> rbind (REAL data src) (set_real x tgt)
      | DT_TIME \<Rightarrow> rbind (REAL data src) (set_real x tgt)
      | DT_UNKNOWN \<Rightarrow> Inl (Stop ''NYI: default''))"

text \<open>The two loops of \<open>copy_to\<close>; each ends when \<open>src\<close> reaches the fill count.\<close>

function copy_values :: "storage \<Rightarrow> data_type \<Rightarrow> sexp \<Rightarrow> nat \<Rightarrow> nat \<Rightarrow> (sexp \<times> nat \<times> nat) res" where
  "copy_values st dt x src tgt =
     (if src < get_capacity st \<and> src < si st \<and> tgt < Rf_xlength x
      then rbind (copy_value (rdata (sdata st)) x dt tgt src)
             (\<lambda>x'. copy_values st dt x' (Suc src) (Suc tgt))
      else Inr (x, src, tgt))"
  by pat_completeness auto
termination
  by (relation "measure (\<lambda>(st, dt, x, src, tgt). si st - src)") auto

function fill_values :: "storage \<Rightarrow> data_type \<Rightarrow> sexp \<Rightarrow> nat \<Rightarrow> nat \<Rightarrow> (sexp \<times> nat) res" where
  "fill_values st dt x src tgt =
     (if src < si st \<and> tgt < Rf_xlength x
      then rbind (fill_default_value x dt tgt) (\<lambda>x'. fill_values st dt x' (Suc src) (Suc tgt))
      else Inr (x, src))"
  by pat_completeness auto
termination
  by (relation "measure (\<lambda>(st, dt, x, src, tgt). si st - src)") auto

declare copy_values.simps [simp del] fill_values.simps [simp del]

definition copy_to :: "storage \<Rightarrow> sexp \<Rightarrow> data_type \<Rightarrow> nat \<Rightarrow> (sexp \<times> nat) res" where
  "copy_to st x dt pos =
     rbind (copy_values st dt x 0 pos) (\<lambda>(x', src, tgt). fill_values st dt x' src tgt)"

subsection \<open>Vectors as lists of typed cells\<close>

text \<open>A real vector holds doubles or 64-bit integers, so its cells are patterns.\<close>

datatype cell = CLgl i32 | CInt i32 | CReal f64 | CStr rstring | CVec sexp

fun cell_type :: "cell \<Rightarrow> sexptype" where
  "cell_type (CLgl _) = LGLSXP"
| "cell_type (CInt _) = INTSXP"
| "cell_type (CReal _) = REALSXP"
| "cell_type (CStr _) = STRSXP"
| "cell_type (CVec _) = VECSXP"

fun cells_of :: "sexp \<Rightarrow> cell option list" where
  "cells_of (LglSXP xs) = map (map_option CLgl) xs"
| "cells_of (IntSXP xs) = map (map_option CInt) xs"
| "cells_of (RealSXP xs) = map (map_option CReal) xs"
| "cells_of (StrSXP xs) = map (\<lambda>s. Some (CStr s)) xs"
| "cells_of (VecSXP xs) = map (\<lambda>v. Some (CVec v)) xs"
| "cells_of NilSXP = []"
| "cells_of (RawSXP xs) = []"

lemma length_cells_of [simp]: "TYPEOF x \<noteq> RAWSXP \<Longrightarrow> length (cells_of x) = Rf_xlength x"
  by (cases x) simp_all

text \<open>\<open>stores x k c r\<close>: the call that returned \<open>r\<close> wrote \<open>c\<close> into cell \<open>k\<close> of \<open>x\<close> and did nothing else.\<close>

definition stores :: "sexp \<Rightarrow> nat \<Rightarrow> cell \<Rightarrow> sexp res \<Rightarrow> bool" where
  "stores x k c r \<longleftrightarrow>
     (\<exists>y. r = Inr y \<and> TYPEOF y = TYPEOF x \<and> Rf_xlength y = Rf_xlength x
        \<and> cells_of y = (cells_of x)[k := Some c])"

lemma stores_intros:
  "TYPEOF x = LGLSXP \<Longrightarrow> k < Rf_xlength x \<Longrightarrow> stores x k (CLgl i) (set_logical x k i)"
  "TYPEOF x = INTSXP \<Longrightarrow> k < Rf_xlength x \<Longrightarrow> stores x k (CInt i) (set_integer x k i)"
  "TYPEOF x = REALSXP \<Longrightarrow> k < Rf_xlength x \<Longrightarrow> stores x k (CReal d) (set_real x k d)"
  "TYPEOF x = STRSXP \<Longrightarrow> k < Rf_xlength x \<Longrightarrow> stores x k (CStr s) (SET_STRING_ELT x k s)"
  "TYPEOF x = VECSXP \<Longrightarrow> k < Rf_xlength x \<Longrightarrow> stores x k (CVec v) (SET_VECTOR_ELT x k v)"
  by (cases x; simp add: stores_def map_update)+

lemma stores_integer64:
  "TYPEOF x = REALSXP \<Longrightarrow> k < Rf_xlength x \<Longrightarrow> stores x k (CReal d) (set_integer64 x k d)"
  by (simp add: set_integer64_def stores_intros)

lemma loads:
  "TYPEOF x = LGLSXP \<Longrightarrow> k < Rf_xlength x \<Longrightarrow> cells_of x ! k = Some (CLgl i) \<Longrightarrow> LOGICAL x k = Inr i"
  "TYPEOF x = INTSXP \<Longrightarrow> k < Rf_xlength x \<Longrightarrow> cells_of x ! k = Some (CInt i) \<Longrightarrow> INTEGER x k = Inr i"
  "TYPEOF x = REALSXP \<Longrightarrow> k < Rf_xlength x \<Longrightarrow> cells_of x ! k = Some (CReal d) \<Longrightarrow> REAL x k = Inr d"
  "TYPEOF x = REALSXP \<Longrightarrow> k < Rf_xlength x \<Longrightarrow> cells_of x ! k = Some (CReal d) \<Longrightarrow> INTEGER64 x k = Inr d"
  "TYPEOF x = STRSXP \<Longrightarrow> k < Rf_xlength x \<Longrightarrow> cells_of x ! k = Some (CStr s) \<Longrightarrow> STRING_ELT x k = Inr s"
  "TYPEOF x = VECSXP \<Longrightarrow> k < Rf_xlength x \<Longrightarrow> cells_of x ! k = Some (CVec v) \<Longrightarrow> VECTOR_ELT x k = Inr v"
  by (cases x; simp add: INTEGER64_def get_init_def split: option.splits)+

text \<open>The missing value of each type.\<close>

fun na_cell :: "data_type \<Rightarrow> cell" where
  "na_cell DT_BOOL = CLgl NA_LOGICAL"
| "na_cell DT_INT = CInt NA_INTEGER"
| "na_cell DT_INT64 = CReal NA_INTEGER64"
| "na_cell DT_STRING = CStr NA_STRING"
| "na_cell DT_BLOB = CVec NilSXP"
| "na_cell _ = CReal NA_REAL"

lemma fill_default_value_stores:
  assumes "dt \<noteq> DT_UNKNOWN" "TYPEOF x = sexptype_from_datatype dt" "k < Rf_xlength x"
  shows "stores x k (na_cell dt) (fill_default_value x dt k)"
  using assms by (cases dt) (simp_all add: stores_intros stores_integer64 INT64SXP_def)

text \<open>How a cell changes when a chunk is copied into a vector of type \<open>dt\<close>.\<close>

fun conv :: "data_type \<Rightarrow> cell \<Rightarrow> cell" where
  "conv DT_INT64 (CInt v) = CReal (if v = NA_INTEGER then NA_INTEGER64 else scast v)"
| "conv DT_REAL (CInt v) = CReal (if v = NA_INTEGER then NA_REAL else f64_of_int (sint v))"
| "conv _ c = c"

text \<open>The chunk types that can occur below a final type.\<close>

definition widens :: "data_type \<Rightarrow> data_type \<Rightarrow> bool" where
  "widens s t \<longleftrightarrow> s = t \<or> s = DT_INT \<and> (t = DT_INT64 \<or> t = DT_REAL)"

lemma conv_na [simp]: "widens s t \<Longrightarrow> conv t (na_cell s) = na_cell t"
  by (cases s; cases t) (simp_all add: widens_def)

lemma cell_of_type:
  "cell_type c = LGLSXP \<Longrightarrow> \<exists>i. c = CLgl i"
  "cell_type c = INTSXP \<Longrightarrow> \<exists>i. c = CInt i"
  "cell_type c = REALSXP \<Longrightarrow> \<exists>d. c = CReal d"
  "cell_type c = STRSXP \<Longrightarrow> \<exists>s. c = CStr s"
  "cell_type c = VECSXP \<Longrightarrow> \<exists>v. c = CVec v"
  by (cases c; simp)+

lemma copy_value_stores:
  assumes w: "widens s t" "s \<noteq> DT_UNKNOWN"
    and x: "TYPEOF x = sexptype_from_datatype t" "tgt < Rf_xlength x"
    and data: "TYPEOF data = sexptype_from_datatype s" "src < Rf_xlength data"
      "cells_of data ! src = Some c" "cell_type c = sexptype_from_datatype s"
  shows "stores x tgt (conv t c) (copy_value data x t tgt src)"
proof -
  have "data \<noteq> NilSXP" using data(2) by auto
  note intros = stores_intros stores_integer64 loads INT64SXP_def
  from w consider "s = t" | "s = DT_INT" "t = DT_INT64" | "s = DT_INT" "t = DT_REAL"
    by (auto simp: widens_def)
  then show ?thesis
  proof cases
    case 1
    then show ?thesis
      using w x data \<open>data \<noteq> NilSXP\<close>
      by (cases t) (auto dest!: cell_of_type simp: intros)
  next
    case 2
    then show ?thesis
      using x data \<open>data \<noteq> NilSXP\<close> by (auto dest!: cell_of_type simp: intros)
  next
    case 3
    then show ?thesis
      using x data \<open>data \<noteq> NilSXP\<close> by (auto dest!: cell_of_type simp: intros)
  qed
qed

lemma copy_value_null:
  assumes "t \<noteq> DT_UNKNOWN" "TYPEOF x = sexptype_from_datatype t" "tgt < Rf_xlength x"
  shows "stores x tgt (na_cell t) (copy_value NilSXP x t tgt src)"
  using fill_default_value_stores [OF assms] by simp

subsection \<open>What a chunk holds\<close>

text \<open>
  A chunk represents a list of items, \<open>None\<close> for a missing value.  Items beyond the capacity
  are not stored; they are all missing.
\<close>

type_synonym item = "cell option"

definition stored :: "data_type \<Rightarrow> item \<Rightarrow> cell" where
  "stored dt it = (case it of None \<Rightarrow> na_cell dt | Some c \<Rightarrow> c)"

definition final :: "data_type \<Rightarrow> item \<Rightarrow> cell" where
  "final dt it = (case it of None \<Rightarrow> na_cell dt | Some c \<Rightarrow> conv dt c)"

lemma final_simps [simp]:
  "final dt None = na_cell dt" "final dt (Some c) = conv dt c"
  "stored dt None = na_cell dt" "stored dt (Some c) = c"
  by (simp_all add: final_def stored_def)

lemma conv_stored: "widens s t \<Longrightarrow> conv t (stored s it) = final t it"
  by (cases it) simp_all

definition storage_rep :: "storage \<Rightarrow> item list \<Rightarrow> bool" where
  "storage_rep st its \<longleftrightarrow>
     si st = length its \<and>
     TYPEOF (rdata (sdata st)) = sexptype_from_datatype (sdt st) \<and>
     (\<forall>k<length its. k < get_capacity st \<longrightarrow>
        cells_of (rdata (sdata st)) ! k = Some (stored (sdt st) (its ! k))) \<and>
     (\<forall>k<length its. get_capacity st \<le> k \<longrightarrow> its ! k = None) \<and>
     (\<forall>c. Some c \<in> set its \<longrightarrow> cell_type c = sexptype_from_datatype (sdt st))"

lemma storage_repD:
  assumes "storage_rep st its"
  shows "si st = length its"
    and "TYPEOF (rdata (sdata st)) = sexptype_from_datatype (sdt st)"
    and "k < length its \<Longrightarrow> k < get_capacity st \<Longrightarrow>
      cells_of (rdata (sdata st)) ! k = Some (stored (sdt st) (its ! k))"
    and "k < length its \<Longrightarrow> get_capacity st \<le> k \<Longrightarrow> its ! k = None"
    and "Some c \<in> set its \<Longrightarrow> cell_type c = sexptype_from_datatype (sdt st)"
  using assms by (simp_all add: storage_rep_def)

lemma TYPEOF_NilSXP [simp]: "TYPEOF x = NILSXP \<longleftrightarrow> x = NilSXP"
  by (cases x) simp_all

lemma sexptype_NILSXP [simp]: "sexptype_from_datatype dt = NILSXP \<longleftrightarrow> dt = DT_UNKNOWN"
  by (cases dt) (simp_all add: INT64SXP_def)

lemma sexptype_not_RAWSXP [simp]: "sexptype_from_datatype dt \<noteq> RAWSXP"
  by (cases dt) (simp_all add: INT64SXP_def)

lemma na_cell_type: "dt \<noteq> DT_UNKNOWN \<Longrightarrow> cell_type (na_cell dt) = sexptype_from_datatype dt"
  by (cases dt) (simp_all add: INT64SXP_def)

lemma capacity_unknown:
  "storage_rep st its \<Longrightarrow> sdt st = DT_UNKNOWN \<Longrightarrow> get_capacity st = 0"
  by (auto dest!: storage_repD(2) simp: get_capacity_def)

subsection \<open>copy_to writes the items of the chunk\<close>

lemma copy_values_step:
  assumes rep: "storage_rep st its" and w: "widens (sdt st) t"
    and x: "t \<noteq> DT_UNKNOWN" "TYPEOF x = sexptype_from_datatype t"
    and k: "src < get_capacity st" "src < length its" "tgt < Rf_xlength x"
  shows "stores x tgt (final t (its ! src)) (copy_value (rdata (sdata st)) x t tgt src)"
proof -
  have dt: "sdt st \<noteq> DT_UNKNOWN" using capacity_unknown [OF rep] k(1) by auto
  have ct: "cell_type (stored (sdt st) (its ! src)) = sexptype_from_datatype (sdt st)"
    using storage_repD(5) [OF rep] k(2) na_cell_type [OF dt]
    by (cases "its ! src") (auto dest!: nth_mem)
  have "stores x tgt (conv t (stored (sdt st) (its ! src)))
      (copy_value (rdata (sdata st)) x t tgt src)"
    by (rule copy_value_stores [OF w dt x(2) k(3) storage_repD(2) [OF rep] _ _ ct])
      (use k storage_repD(3) [OF rep] in \<open>simp_all add: get_capacity_def\<close>)
  then show ?thesis by (simp add: conv_stored [OF w])
qed

declare copy_value.simps [simp del]

text \<open>Writing one more cell of a segment that already runs up to it.\<close>

lemma segment_snoc:
  assumes "tgt < length cs"
  shows "take (Suc tgt) (cs[tgt := v]) @ ys @ drop (Suc tgt + length ys) (cs[tgt := v]) =
     take tgt cs @ (v # ys) @ drop (tgt + length (v # ys)) cs"
  using assms by (simp add: take_Suc_conv_app_nth)

lemma copy_values_ok:
  assumes "storage_rep st its" "widens (sdt st) t" "t \<noteq> DT_UNKNOWN"
    and "TYPEOF x = sexptype_from_datatype t" "src + d = min (get_capacity st) (length its)"
    and "tgt + d \<le> Rf_xlength x"
  shows "\<exists>y. copy_values st t x src tgt = Inr (y, src + d, tgt + d)
     \<and> TYPEOF y = TYPEOF x \<and> Rf_xlength y = Rf_xlength x
     \<and> cells_of y = take tgt (cells_of x) @ map (\<lambda>k. Some (final t (its ! k))) [src..<src + d]
          @ drop (tgt + d) (cells_of x)"
  using assms
proof (induction d arbitrary: x src tgt)
  case 0
  then have "\<not> (src < get_capacity st \<and> src < si st)"
    by (auto dest: storage_repD(1))
  with 0 show ?case by (subst copy_values.simps) auto
next
  case (Suc d)
  then have k: "src < get_capacity st" "src < length its" "tgt < Rf_xlength x" by auto
  have loop: "src < get_capacity st \<and> src < si st \<and> tgt < Rf_xlength x"
    using k storage_repD(1) [OF Suc.prems(1)] by simp
  obtain x' where x': "copy_value (rdata (sdata st)) x t tgt src = Inr x'"
      "TYPEOF x' = TYPEOF x" "Rf_xlength x' = Rf_xlength x"
      "cells_of x' = (cells_of x)[tgt := Some (final t (its ! src))]"
    using copy_values_step [OF Suc.prems(1-4) k] by (auto simp: stores_def)
  obtain y where y: "copy_values st t x' (Suc src) (Suc tgt) = Inr (y, Suc src + d, Suc tgt + d)"
      "TYPEOF y = TYPEOF x'" "Rf_xlength y = Rf_xlength x'"
      "cells_of y = take (Suc tgt) (cells_of x') @
         map (\<lambda>k. Some (final t (its ! k))) [Suc src..<Suc src + d] @ drop (Suc tgt + d) (cells_of x')"
    using Suc.IH [OF Suc.prems(1-3), of x' "Suc src" "Suc tgt"] Suc.prems(4-6) x'(2,3) by auto
  have len: "tgt < length (cells_of x)" using k(3) Suc.prems(4) by simp
  have "cells_of y = take tgt (cells_of x) @
      map (\<lambda>k. Some (final t (its ! k))) [src..<src + Suc d] @ drop (tgt + Suc d) (cells_of x)"
    using y(4) segment_snoc [OF len, of "Some (final t (its ! src))"
        "map (\<lambda>k. Some (final t (its ! k))) [Suc src..<Suc src + d]"]
    by (simp add: x'(4) upt_conv_Cons del: upt_Suc)
  then show ?case
    using x' y loop by (subst copy_values.simps) simp
qed

lemma fill_values_ok:
  assumes "t \<noteq> DT_UNKNOWN" "TYPEOF x = sexptype_from_datatype t"
    and "src + d = si st" "tgt + d \<le> Rf_xlength x"
  shows "\<exists>y. fill_values st t x src tgt = Inr (y, si st)
     \<and> TYPEOF y = TYPEOF x \<and> Rf_xlength y = Rf_xlength x
     \<and> cells_of y = take tgt (cells_of x) @ replicate d (Some (na_cell t))
          @ drop (tgt + d) (cells_of x)"
  using assms
proof (induction d arbitrary: x src tgt)
  case 0
  then show ?case by (subst fill_values.simps) auto
next
  case (Suc d)
  then have loop: "src < si st \<and> tgt < Rf_xlength x" by auto
  obtain x' where x': "fill_default_value x t tgt = Inr x'"
      "TYPEOF x' = TYPEOF x" "Rf_xlength x' = Rf_xlength x"
      "cells_of x' = (cells_of x)[tgt := Some (na_cell t)]"
    using fill_default_value_stores [OF Suc.prems(1,2)] loop by (auto simp: stores_def)
  obtain y where y: "fill_values st t x' (Suc src) (Suc tgt) = Inr (y, si st)"
      "TYPEOF y = TYPEOF x'" "Rf_xlength y = Rf_xlength x'"
      "cells_of y = take (Suc tgt) (cells_of x') @ replicate d (Some (na_cell t))
         @ drop (Suc tgt + d) (cells_of x')"
    using Suc.IH [OF Suc.prems(1), of x' "Suc src" "Suc tgt"] Suc.prems(2-4) x'(2,3) by auto
  have len: "tgt < length (cells_of x)" using loop Suc.prems(2) by simp
  have "cells_of y = take tgt (cells_of x) @ replicate (Suc d) (Some (na_cell t))
       @ drop (tgt + Suc d) (cells_of x)"
    using y(4) segment_snoc [OF len, of "Some (na_cell t)" "replicate d (Some (na_cell t))"]
    by (simp add: x'(4))
  then show ?case using x' y loop by (subst fill_values.simps) simp
qed

text \<open>Together: all items, the stored ones and the missing ones beyond the capacity.\<close>

lemma copy_to_ok:
  assumes rep: "storage_rep st its" and w: "widens (sdt st) t \<or> sdt st = DT_UNKNOWN"
    and t: "t \<noteq> DT_UNKNOWN" "TYPEOF x = sexptype_from_datatype t"
    and room: "pos + length its \<le> Rf_xlength x"
  shows "\<exists>y. copy_to st x t pos = Inr (y, length its)
     \<and> TYPEOF y = TYPEOF x \<and> Rf_xlength y = Rf_xlength x
     \<and> cells_of y = take pos (cells_of x) @ map (\<lambda>it. Some (final t it)) its
          @ drop (pos + length its) (cells_of x)"
proof -
  define m where "m = min (get_capacity st) (length its)"
  have i: "si st = length its" using rep by (rule storage_repD)
  have missing: "its = take m its @ replicate (length its - m) None"
    by (rule nth_equalityI)
      (auto simp: m_def nth_append min_def intro: storage_repD(4) [OF rep])
  obtain y where y: "copy_values st t x 0 pos = Inr (y, m, pos + m)"
      "TYPEOF y = TYPEOF x" "Rf_xlength y = Rf_xlength x"
      "cells_of y = take pos (cells_of x) @ map (\<lambda>k. Some (final t (its ! k))) [0..<m]
         @ drop (pos + m) (cells_of x)"
  proof (cases "sdt st = DT_UNKNOWN")
    case True
    then have "m = 0" using capacity_unknown [OF rep] by (simp add: m_def)
    moreover have "copy_values st t x 0 pos = Inr (x, 0, pos)"
      using capacity_unknown [OF rep True] by (subst copy_values.simps) simp
    ultimately show ?thesis using that [of x] by simp
  next
    case False
    then have "widens (sdt st) t" "0 + m = min (get_capacity st) (length its)"
      "pos + m \<le> Rf_xlength x"
      using w room by (simp_all add: m_def)
    from copy_values_ok [OF rep this(1) t this(2,3)] show ?thesis using that by auto
  qed
  have "map (\<lambda>k. Some (final t (its ! k))) [0..<m] = map (\<lambda>it. Some (final t it)) (take m its)"
    by (rule nth_equalityI) (auto simp: m_def)
  moreover have "TYPEOF y = sexptype_from_datatype t" "m + (length its - m) = si st"
    "pos + m + (length its - m) \<le> Rf_xlength y"
    using y(2,3) t room i by (simp_all add: m_def)
  note fill = fill_values_ok [OF t(1) this]
  moreover have "length (take pos (cells_of x)) = pos"
    using room t(2) by simp
  ultimately obtain z where z: "fill_values st t y m (pos + m) = Inr (z, length its)"
      "TYPEOF z = TYPEOF x" "Rf_xlength z = Rf_xlength x"
      "cells_of z = take pos (cells_of x) @ map (\<lambda>it. Some (final t it)) (take m its)
         @ replicate (length its - m) (Some (na_cell t)) @ drop (pos + length its) (cells_of x)"
    using y(2-4) i by (auto simp: m_def add.commute)
  have "map (\<lambda>it. Some (final t it)) its =
      map (\<lambda>it. Some (final t it)) (take m its) @ replicate (length its - m) (Some (na_cell t))"
    by (subst missing) (simp add: m_def)
  then show ?thesis using y z by (simp add: copy_to_def)
qed

subsection \<open>Appending to a chunk\<close>

text \<open>The value a source gives when it is read as type \<open>dt\<close>.\<close>

fun fetch_cell :: "data_type \<Rightarrow> column_source \<Rightarrow> cell eff" where
  "fetch_cell DT_BOOL src = ret (CLgl (fetch_bool src))"
| "fetch_cell DT_INT src = ret (CInt (fetch_int src))"
| "fetch_cell DT_INT64 src = ret (CReal (fetch_int64 src))"
| "fetch_cell DT_REAL src = ret (CReal (fetch_real src))"
| "fetch_cell DT_STRING src = lift_res (rbind (fetch_string src) (\<lambda>s. Inr (CStr s)))"
| "fetch_cell DT_BLOB src = ret (CVec (fetch_blob src))"
| "fetch_cell DT_DATE src = ebind (fetch_date src) (\<lambda>v. ret (CReal v))"
| "fetch_cell DT_DATETIME src = ebind (fetch_datetime_local src) (\<lambda>v. ret (CReal v))"
| "fetch_cell DT_DATETIMETZ src = ret (CReal (fetch_datetime src))"
| "fetch_cell DT_TIME src = ebind (fetch_time src) (\<lambda>v. ret (CReal v))"
| "fetch_cell DT_UNKNOWN src = Inl (Stop ''NYI'')"

text \<open>The type of the chunk that takes the next value.\<close>

definition next_type :: "data_type \<Rightarrow> column_source \<Rightarrow> data_type" where
  "next_type dt src =
     (if dt = DT_UNKNOWN then get_data_type src
      else if dt = DT_INT \<and> (get_data_type src = DT_INT64 \<or> get_data_type src = DT_REAL)
      then get_data_type src else dt)"

lemma next_type_idem [simp]: "next_type (next_type dt src) src = next_type dt src"
  by (auto simp: next_type_def)

lemma next_type_widens: "dt \<noteq> DT_UNKNOWN \<Longrightarrow> widens dt (next_type dt src)"
  by (auto simp: next_type_def widens_def)

lemma next_type_known: "get_data_type src \<noteq> DT_UNKNOWN \<Longrightarrow> next_type dt src \<noteq> DT_UNKNOWN"
  by (auto simp: next_type_def)

lemma widens_trans: "widens a b \<Longrightarrow> widens b c \<Longrightarrow> widens a c"
  by (auto simp: widens_def)

lemma fetch_cell_type:
  "fetch_cell dt src = Inr (c, ws) \<Longrightarrow> cell_type c = sexptype_from_datatype dt"
  by (cases dt) (auto simp: ret_def ebind_eq_Inr lift_res_def INT64SXP_def split: sum.splits)

lemma set_data_simps [simp]:
  "si (set_data st x) = si st" "sdt (set_data st x) = sdt st"
  "s_n_max (set_data st x) = s_n_max st" "rdata (sdata (set_data st x)) = x"
  by (simp_all add: set_data_def)

text \<open>Writing the next cell of a chunk and counting it.\<close>

lemma storage_rep_put:
  assumes rep: "storage_rep st its" and room: "si st < get_capacity st"
    and put: "stores (rdata (sdata st)) (si st) (stored (sdt st) it) (Inr y)"
    and ty: "\<forall>c. it = Some c \<longrightarrow> cell_type c = sexptype_from_datatype (sdt st)"
  shows "storage_rep ((set_data st y)\<lparr>si := Suc (si st)\<rparr>) (its @ [it])"
proof -
  from put have y: "TYPEOF y = TYPEOF (rdata (sdata st))" "Rf_xlength y = Rf_xlength (rdata (sdata st))"
    "cells_of y = (cells_of (rdata (sdata st)))[si st := Some (stored (sdt st) it)]"
    by (auto simp: stores_def)
  have cap: "get_capacity ((set_data st y)\<lparr>si := Suc (si st)\<rparr>) = get_capacity st"
    by (simp add: get_capacity_def y(2) set_data_def)
  have len: "length (cells_of (rdata (sdata st))) = get_capacity st"
    using storage_repD(2) [OF rep] by (simp add: get_capacity_def)
  show ?thesis
    unfolding storage_rep_def cap
    using storage_repD [OF rep] room ty y len
    by (auto simp: nth_append nth_list_update set_data_def less_Suc_eq)
qed

lemma storage_rep_overflow:
  assumes rep: "storage_rep st its" and full: "get_capacity st \<le> si st"
  shows "storage_rep (st\<lparr>si := Suc (si st)\<rparr>) (its @ [None])"
proof -
  have "get_capacity (st\<lparr>si := Suc (si st)\<rparr>) = get_capacity st"
    by (simp add: get_capacity_def)
  then show ?thesis
    unfolding storage_rep_def using storage_repD [OF rep] full
    by (auto simp: nth_append less_Suc_eq)
qed

lemma append_null_rep:
  assumes rep: "storage_rep st its"
  shows "\<exists>st'. append_null st = Inr st' \<and> storage_rep st' (its @ [None])
    \<and> sdt st' = sdt st \<and> s_n_max st' = s_n_max st"
proof (cases "si st < get_capacity st")
  case True
  have dt: "sdt st \<noteq> DT_UNKNOWN" using capacity_unknown [OF rep] True by auto
  have "stores (rdata (sdata st)) (si st) (na_cell (sdt st))
      (fill_default_value (rdata (sdata st)) (sdt st) (si st))"
    using True by (intro fill_default_value_stores dt storage_repD(2) [OF rep])
      (simp add: get_capacity_def)
  then obtain y where y: "fill_default_value (rdata (sdata st)) (sdt st) (si st) = Inr y"
    "stores (rdata (sdata st)) (si st) (stored (sdt st) None) (Inr y)"
    by (auto simp: stores_def)
  then show ?thesis
    using storage_rep_put [OF rep True y(2)] True by (simp add: append_null_def)
next
  case False
  then show ?thesis
    using storage_rep_overflow [OF rep] by (simp add: append_null_def)
qed

lemma fetch_value_stores:
  assumes c: "fetch_cell (sdt st) src = Inr (c, ws)"
    and ty: "TYPEOF (rdata (sdata st)) = sexptype_from_datatype (sdt st)"
    and k: "si st < Rf_xlength (rdata (sdata st))"
  shows "\<exists>r. stores (rdata (sdata st)) (si st) c r \<and>
     fetch_value st src = ebind (Inr ((), ws)) (\<lambda>_. lift_res (rbind r (\<lambda>y. Inr (set_data st y))))"
proof (cases "sdt st")
  case DT_UNKNOWN
  then show ?thesis using c by simp
next
  case DT_STRING
  then obtain s where "fetch_string src = Inr s" "c = CStr s" "ws = []"
    using c by (auto simp: lift_res_def ret_def split: sum.splits)
  then show ?thesis using DT_STRING ty stores_intros(4) [OF _ k, of s] by auto
next
  case DT_DATE
  then obtain v where "fetch_date src = Inr (v, ws)" "c = CReal v"
    using c by (auto simp: ebind_eq_Inr ret_def)
  then show ?thesis using DT_DATE ty stores_intros(3) [OF _ k, of v]
    by (auto simp: ebind_def)
next
  case DT_DATETIME
  then obtain v where "fetch_datetime_local src = Inr (v, ws)" "c = CReal v"
    using c by (auto simp: ebind_eq_Inr ret_def)
  then show ?thesis using DT_DATETIME ty stores_intros(3) [OF _ k, of v]
    by (auto simp: ebind_def)
next
  case DT_TIME
  then obtain v where "fetch_time src = Inr (v, ws)" "c = CReal v"
    using c by (auto simp: ebind_eq_Inr ret_def)
  then show ?thesis using DT_TIME ty stores_intros(3) [OF _ k, of v]
    by (auto simp: ebind_def)
qed (use c ty stores_intros(1-3,5) [OF _ k] stores_integer64 [OF _ k] in
      \<open>auto simp: ret_def INT64SXP_def\<close>)

declare fetch_value.simps [simp del]

lemma fetch_value_rep:
  assumes rep: "storage_rep st its" and room: "si st < get_capacity st"
    and c: "fetch_cell (sdt st) src = Inr (c, ws)"
  shows "\<exists>st'. fetch_value st src = Inr (st', ws)
    \<and> storage_rep (st'\<lparr>si := Suc (si st')\<rparr>) (its @ [Some c])
    \<and> sdt st' = sdt st \<and> s_n_max st' = s_n_max st"
proof -
  have k: "si st < Rf_xlength (rdata (sdata st))" using room by (simp add: get_capacity_def)
  obtain r where r: "stores (rdata (sdata st)) (si st) c r"
    "fetch_value st src = ebind (Inr ((), ws)) (\<lambda>_. lift_res (rbind r (\<lambda>y. Inr (set_data st y))))"
    using fetch_value_stores [OF c storage_repD(2) [OF rep] k] by blast
  then obtain y where y: "r = Inr y" "stores (rdata (sdata st)) (si st) (stored (sdt st) (Some c)) (Inr y)"
    by (auto simp: stores_def)
  then have "fetch_value st src = Inr (set_data st y, ws)"
    by (simp add: r(2) ebind_def ret_def)
  then show ?thesis
    using storage_rep_put [OF rep room y(2)] fetch_cell_type [OF c] by auto
qed

lemma allocate_rdata:
  "packages_keep_data P \<Longrightarrow>
     rdata (allocate P n dt) = Rf_allocVector (sexptype_from_datatype dt) n"
  by (cases dt) (simp_all add: allocate_def plain_def packages_keep_data_def INT64SXP_def)

lemma get_new_capacity_pos: "1 \<le> get_new_capacity n_max d"
  by (cases "n_max < 0") (simp_all add: get_new_capacity_def le_nat_iff max_def)

lemma storage_new_rep:
  assumes "packages_keep_data P"
  shows "storage_rep (storage_new P dt d n_max) []"
    and "dt \<noteq> DT_UNKNOWN \<Longrightarrow> si (storage_new P dt d n_max) < get_capacity (storage_new P dt d n_max)"
    and "sdt (storage_new P dt d n_max) = dt"
    and "s_n_max (storage_new P dt d n_max) = n_max"
  using get_new_capacity_pos [of n_max d]
  by (auto simp: storage_rep_def storage_new_def allocate_rdata assms get_capacity_def)

lemma next_type_id:
  "dt \<noteq> DT_UNKNOWN \<Longrightarrow> next_type dt src = dt \<longleftrightarrow>
     \<not> (dt = DT_INT \<and> get_data_type src = DT_INT64) \<and> \<not> (dt = DT_INT \<and> get_data_type src = DT_REAL)"
  by (auto simp: next_type_def)

lemma append_data_here:
  assumes rep: "storage_rep st its" and room: "si st < get_capacity st"
    and dt: "sdt st \<noteq> DT_UNKNOWN" "next_type (sdt st) src = sdt st"
    and c: "fetch_cell (sdt st) src = Inr (c, ws)"
  shows "\<exists>st'. append_data P fresh st src = Some (Inr ((fresh, st'), ws))
    \<and> storage_rep st' (its @ [Some c]) \<and> sdt st' = sdt st \<and> s_n_max st' = s_n_max st"
proof -
  obtain st1 where st1: "fetch_value st src = Inr (st1, ws)"
      "storage_rep (st1\<lparr>si := Suc (si st1)\<rparr>) (its @ [Some c])"
      "sdt st1 = sdt st" "s_n_max st1 = s_n_max st"
    using fetch_value_rep [OF rep room c] by blast
  have "append_data P fresh st src =
      Some (ebind (fetch_value st src) (\<lambda>st'. ret (fresh, st'\<lparr>si := Suc (si st')\<rparr>)))"
    using dt room next_type_id [OF dt(1), of src] by (subst append_data.simps) auto
  then show ?thesis using st1 by (simp add: ebind_def ret_def)
qed

text \<open>One chunk is opened when the value decides its type, another when that type is too narrow.\<close>

definition chunk_type :: "storage \<Rightarrow> column_source \<Rightarrow> data_type" where
  "chunk_type st src =
     (if sdt st = DT_UNKNOWN then get_data_type src
      else if si st \<ge> get_capacity st then sdt st else next_type (sdt st) src)"

lemma append_data_spills:
  assumes "sdt st = DT_UNKNOWN \<or> get_capacity st \<le> si st \<or> next_type (sdt st) src \<noteq> sdt st"
  shows "\<exists>d. append_data P fresh st src =
     append_data P True (storage_new P (chunk_type st src) d (s_n_max st)) src"
proof (cases "sdt st = DT_UNKNOWN \<or> get_capacity st \<le> si st")
  case True
  then have "append_data P fresh st src = append_data P True (spillover P st (sdt st) src) src"
    by (subst append_data.simps) auto
  with True show ?thesis
    by (auto simp: spillover_def chunk_type_def Let_def)
next
  case False
  then have n: "sdt st = DT_INT" "next_type (sdt st) src = get_data_type src"
      "get_data_type src = DT_INT64 \<or> get_data_type src = DT_REAL"
    using assms by (auto simp: next_type_def split: if_splits)
  then have "append_data P fresh st src = append_data P True (spillover P st (get_data_type src) src) src"
    using False by (subst append_data.simps) auto
  with False n show ?thesis
    by (auto simp: spillover_def chunk_type_def Let_def)
qed

lemma append_data_new:
  assumes P: "packages_keep_data P" and dt: "dt \<noteq> DT_UNKNOWN" "next_type dt src = dt"
    and c: "fetch_cell dt src = Inr (c, ws)"
  shows "\<exists>st'. append_data P fresh (storage_new P dt d n_max) src = Some (Inr ((fresh, st'), ws))
    \<and> storage_rep st' [Some c] \<and> sdt st' = dt \<and> s_n_max st' = n_max"
proof -
  note new = storage_new_rep [OF P, of dt d n_max]
  show ?thesis
    using append_data_here [OF new(1) new(2) [OF dt(1)], of src c ws] dt c
    by (simp add: new(3,4))
qed

text \<open>
  The value goes into the chunk or into a new one, in which it is the only item; its type is
  \<open>next_type\<close> either way.  The recursion of the code has at most three levels.
\<close>

lemma append_data_ok:
  assumes P: "packages_keep_data P" and rep: "storage_rep st its"
    and known: "get_data_type src \<noteq> DT_UNKNOWN"
    and c: "fetch_cell (next_type (sdt st) src) src = Inr (c, ws)"
  shows "\<exists>fresh st'. append_data P False st src = Some (Inr ((fresh, st'), ws))
    \<and> storage_rep st' (if fresh then [Some c] else its @ [Some c])
    \<and> sdt st' = next_type (sdt st) src \<and> s_n_max st' = s_n_max st
    \<and> (\<not> fresh \<longrightarrow> sdt st' = sdt st)"
proof (cases "sdt st = DT_UNKNOWN \<or> get_capacity st \<le> si st \<or> next_type (sdt st) src \<noteq> sdt st")
  case False
  then show ?thesis
    using append_data_here [OF rep, of src c ws P False] c by auto
next
  case True
  let ?dt = "chunk_type st src" and ?t = "next_type (sdt st) src"
  obtain d where d: "append_data P False st src =
      append_data P True (storage_new P ?dt d (s_n_max st)) src"
    using append_data_spills [OF True] by blast
  have t: "?t \<noteq> DT_UNKNOWN" "next_type ?t src = ?t"
    using known by (simp_all add: next_type_known)
  have "\<exists>st'. append_data P True (storage_new P ?dt d (s_n_max st)) src = Some (Inr ((True, st'), ws))
      \<and> storage_rep st' [Some c] \<and> sdt st' = ?t \<and> s_n_max st' = s_n_max st"
  proof (cases "?dt = ?t")
    case True
    then show ?thesis
      using append_data_new [OF P t c, of True d "s_n_max st"] by simp
  next
    case False
    let ?st = "storage_new P ?dt d (s_n_max st)"
    have dt: "?dt = sdt st" "sdt st \<noteq> DT_UNKNOWN" "?t \<noteq> sdt st"
      using False by (auto simp: chunk_type_def next_type_def split: if_splits)
    note new = storage_new_rep [OF P, of "sdt st" d "s_n_max st"]
    have ct: "chunk_type ?st src = ?t"
      using new(2) [OF dt(2)] dt by (simp add: chunk_type_def [of "storage_new _ _ _ _"] new(3))
    have "\<exists>d'. append_data P True ?st src =
        append_data P True (storage_new P (chunk_type ?st src) d' (s_n_max ?st)) src"
      using dt by (intro append_data_spills) (simp add: new(3))
    then obtain d' where "append_data P True ?st src =
        append_data P True (storage_new P ?t d' (s_n_max st)) src"
      using ct dt(1) by (auto simp: new(4))
    then show ?thesis
      using append_data_new [OF P t c, of True d' "s_n_max st"] by simp
  qed
  then show ?thesis using d by auto
qed

end
