(* ===== verification/Column.thy ===== *)
theory Column
  imports ColumnStorage
begin

text \<open>
  \<open>src/src/DbColumn.cpp\<close>: a result column as a list of chunks.  The type of a column is found
  while it is read: it starts unknown, the first value that is not missing decides it, and an
  integer column widens once, when a larger integer or a double comes.

  The reference is one pass over the rows that keeps a type and a list of items
  (\<open>read_items\<close>).  The main lemma, \<open>column_out\<close>, is that the chunks, whatever their capacities,
  make exactly the vector of that pass; it is proved against \<open>column_source_contract\<close>, so it
  holds for any data source that keeps the contract.
\<close>

subsection \<open>DbColumn\<close>

record column =
  col_storage :: "storage list"
  col_n :: nat
  col_types_seen :: "data_type set"

definition column_new :: "r_packages \<Rightarrow> data_type \<Rightarrow> int \<Rightarrow> column" where
  "column_new P dt n_max =
     (let dt = (if dt = DT_BOOL then DT_UNKNOWN else dt)
      in \<lparr>col_storage = [storage_new P dt 0 n_max], col_n = 0, col_types_seen = {}\<rparr>)"

definition get_last_storage :: "column \<Rightarrow> storage" where
  "get_last_storage c = last (col_storage c)"

text \<open>
  \<open>append_col\<close> changes the last chunk in place or returns a new one, which is pushed behind it.
\<close>

definition set_col_value :: "r_packages \<Rightarrow> column \<Rightarrow> column_source \<Rightarrow> column eff" where
  "set_col_value P c src =
     (let c = c\<lparr>col_types_seen := insert (get_item_data_type (get_last_storage c) src) (col_types_seen c)\<rparr> in
      ebind (append_col P (get_last_storage c) src) (\<lambda>(fresh, st).
        ret (c\<lparr>col_storage :=
          (if fresh then col_storage c else butlast (col_storage c)) @ [st]\<rparr>)))"

definition column_finalize :: "nat \<Rightarrow> column \<Rightarrow> column" where
  "column_finalize n c = c\<lparr>col_n := n\<rparr>"

definition column_get_type :: "column \<Rightarrow> column_source \<Rightarrow> data_type" where
  "column_get_type c src = storage_data_type (get_last_storage c) src"

fun format_data_type :: "data_type \<Rightarrow> string" where
  "format_data_type DT_UNKNOWN = ''unknown''"
| "format_data_type DT_BOOL = ''boolean''"
| "format_data_type DT_INT = ''integer''"
| "format_data_type DT_INT64 = ''integer64''"
| "format_data_type DT_REAL = ''real''"
| "format_data_type DT_STRING = ''string''"
| "format_data_type DT_BLOB = ''blob''"
| "format_data_type _ = ''<unknown type>''"

fun comma_separated :: "string list \<Rightarrow> string" where
  "comma_separated [] = ''''"
| "comma_separated [s] = s"
| "comma_separated (s # ss) = s @ '', '' @ comma_separated ss"

definition conflict_text :: "string \<Rightarrow> data_type \<Rightarrow> data_type list \<Rightarrow> string" where
  "conflict_text name dt others =
     ''Column `'' @ name @ ''`: '' @
     ''mixed type, first seen values of type '' @ format_data_type dt @ '', '' @
     ''coercing other values of type '' @ comma_separated (map format_data_type others)"

definition warn_type_conflicts :: "column \<Rightarrow> column_source \<Rightarrow> string \<Rightarrow> unit eff" where
  "warn_type_conflicts c src name =
     (let dt = storage_data_type (get_last_storage c) src;
          seen = (if dt = DT_REAL \<or> dt = DT_INT64 then col_types_seen c - {DT_INT}
                  else col_types_seen c);
          seen = seen - {DT_UNKNOWN, DT_BOOL, dt}
      in if seen = {} then ret ()
         else warning (conflict_text name dt (sorted_list_of_set seen)))"

text \<open>\<open>DbColumn::operator SEXP\<close>.\<close>

fun copy_chunks :: "data_type \<Rightarrow> storage list \<Rightarrow> sexp \<Rightarrow> nat \<Rightarrow> (sexp \<times> nat) res" where
  "copy_chunks dt [] x pos = Inr (x, pos)"
| "copy_chunks dt (st # sts) x pos =
     rbind (copy_to st x dt pos) (\<lambda>(x', k). copy_chunks dt sts x' (pos + k))"

definition column_sexp :: "r_packages \<Rightarrow> column \<Rightarrow> column_source \<Rightarrow> robj res" where
  "column_sexp P c src =
     (let dt = storage_data_type (get_last_storage c) src; r = allocate P (col_n c) dt in
      rbind (copy_chunks dt (col_storage c) (rdata r) 0) (\<lambda>(x, pos). Inr (r\<lparr>rdata := x\<rparr>)))"

subsection \<open>The reference: one pass with a type and a list of items\<close>

definition type_after :: "data_type \<Rightarrow> column_source \<Rightarrow> data_type" where
  "type_after t src = (if is_null src then t else next_type t src)"

definition read_item :: "data_type \<Rightarrow> column_source \<Rightarrow> item eff" where
  "read_item t src =
     (if is_null src then ret None
      else ebind (fetch_cell (next_type t src) src) (\<lambda>c. ret (Some c)))"

fun read_items :: "data_type \<Rightarrow> column_source list \<Rightarrow> item list eff" where
  "read_items t [] = ret []"
| "read_items t (s # ss) =
     ebind (read_item t s) (\<lambda>it. ebind (read_items (type_after t s) ss) (\<lambda>its. ret (it # its)))"

text \<open>A column that never saw a value takes its type from the declaration.\<close>

definition out_type :: "data_type \<Rightarrow> column_source \<Rightarrow> data_type" where
  "out_type t src = (if t = DT_UNKNOWN then get_decl_data_type src else t)"

lemma read_items_snoc:
  "read_items t (ss @ [s]) =
     ebind (read_items t ss) (\<lambda>its. ebind (read_item (foldl type_after t ss) s) (\<lambda>it. ret (its @ [it])))"
  by (induction ss arbitrary: t) (simp_all add: ebind_assoc)

lemma read_items_length: "read_items t ss = Inr (its, ws) \<Longrightarrow> length its = length ss"
  by (induction ss arbitrary: t its ws) (auto simp: ebind_eq_Inr ret_def)

text \<open>The type rule in closed form: the first value decides, integers widen once.\<close>

definition present :: "column_source list \<Rightarrow> data_type list" where
  "present ss = map get_data_type (filter (\<lambda>s. \<not> is_null s) ss)"

fun decide :: "data_type list \<Rightarrow> data_type" where
  "decide [] = DT_UNKNOWN"
| "decide (t # ts) =
     (if t = DT_INT
      then (case filter (\<lambda>u. u = DT_INT64 \<or> u = DT_REAL) ts of [] \<Rightarrow> DT_INT | u # _ \<Rightarrow> u)
      else t)"

lemma type_after_simps [simp]:
  "is_null s \<Longrightarrow> type_after t s = t"
  "\<not> is_null s \<Longrightarrow> type_after t s = next_type t s"
  by (simp_all add: type_after_def)

lemma present_Cons:
  "present (s # ss) = (if is_null s then present ss else get_data_type s # present ss)"
  by (simp add: present_def)

lemma decide_step:
  "t \<noteq> DT_UNKNOWN \<Longrightarrow> decide (t # get_data_type s # ts) = decide (next_type t s # ts)"
  by (auto simp: next_type_def)

lemma type_after_known:
  assumes "t \<noteq> DT_UNKNOWN" "DT_UNKNOWN \<notin> set (present ss)"
  shows "foldl type_after t ss = decide (t # present ss)"
  using assms
proof (induction ss arbitrary: t)
  case (Cons s ss)
  then show ?case
    using decide_step [OF Cons.prems(1), of s "present ss"] next_type_known [of s t]
    by (cases "is_null s") (auto simp: present_Cons simp del: decide.simps)
qed (simp add: present_def)

lemma type_after_decide:
  assumes "DT_UNKNOWN \<notin> set (present ss)"
  shows "foldl type_after DT_UNKNOWN ss = decide (present ss)"
  using assms
proof (induction ss)
  case (Cons s ss)
  then show ?case
    using type_after_known [of "get_data_type s" ss]
    by (cases "is_null s") (auto simp: present_Cons next_type_def simp del: decide.simps)
qed (simp add: present_def)

subsection \<open>What a column holds\<close>

text \<open>
  Every chunk represents its part of the items, the last chunk has the current type, and the
  types of the earlier chunks widen to it.
\<close>

definition column_rep :: "column \<Rightarrow> data_type \<Rightarrow> item list \<Rightarrow> bool" where
  "column_rep c t its \<longleftrightarrow>
     col_storage c \<noteq> [] \<and> sdt (get_last_storage c) = t \<and>
     (\<forall>st \<in> set (col_storage c). sdt st = DT_UNKNOWN \<or> widens (sdt st) t) \<and>
     (\<exists>parts. list_all2 storage_rep (col_storage c) parts \<and> concat parts = its)"

lemma list_all2_last:
  assumes "list_all2 P xs ys" "xs \<noteq> []"
  shows "P (last xs) (last ys) \<and> list_all2 P (butlast xs) (butlast ys) \<and> ys \<noteq> []"
  using assms by (cases "ys = []") (auto simp: list_all2_conv_all_nth last_conv_nth nth_butlast)

text \<open>What adding to the last chunk, or pushing a chunk, does to a column.\<close>

lemma column_rep_last:
  assumes rep: "column_rep c t its"
    and upd: "\<And>part. storage_rep (get_last_storage c) part \<Longrightarrow> storage_rep st (part @ [it])"
    and "sdt st = t"
  shows "column_rep (c\<lparr>col_types_seen := S, col_storage := butlast (col_storage c) @ [st]\<rparr>) t (its @ [it])"
proof -
  obtain parts where p: "list_all2 storage_rep (col_storage c) parts" "concat parts = its"
    "col_storage c \<noteq> []"
    using rep by (auto simp: column_rep_def)
  note l = list_all2_last [OF p(1,3)]
  have "list_all2 storage_rep (butlast (col_storage c) @ [st]) (butlast parts @ [last parts @ [it]])"
    using l upd by (auto simp: get_last_storage_def intro!: list_all2_appendI)
  moreover have "concat (butlast parts @ [last parts @ [it]]) = its @ [it]"
    using l p(2) append_butlast_last_id [of parts] by (metis append_assoc concat_append concat.simps append_Nil2)
  moreover have "\<forall>st \<in> set (butlast (col_storage c)). sdt st = DT_UNKNOWN \<or> widens (sdt st) t"
    using rep by (auto simp: column_rep_def dest: in_set_butlastD)
  ultimately show ?thesis
    using \<open>sdt st = t\<close> unfolding column_rep_def get_last_storage_def
    by (auto simp: widens_def intro!: exI [of _ "butlast parts @ [last parts @ [it]]"])
qed

lemma column_rep_push:
  assumes rep: "column_rep c t its" and st: "storage_rep st [it]"
    and w: "t = DT_UNKNOWN \<or> widens t (sdt st)"
  shows "column_rep (c\<lparr>col_types_seen := S, col_storage := col_storage c @ [st]\<rparr>) (sdt st) (its @ [it])"
proof -
  obtain parts where p: "list_all2 storage_rep (col_storage c) parts" "concat parts = its"
    using rep by (auto simp: column_rep_def)
  have "list_all2 storage_rep (col_storage c @ [st]) (parts @ [[it]])"
    using p st by (auto intro!: list_all2_appendI)
  moreover have "\<forall>st' \<in> set (col_storage c). sdt st' = DT_UNKNOWN \<or> widens (sdt st') (sdt st)"
    using rep w by (auto simp: column_rep_def widens_def)
  ultimately show ?thesis
    using p(2) unfolding column_rep_def get_last_storage_def
    by (auto simp: widens_def intro!: exI [of _ "parts @ [[it]]"])
qed

text \<open>The type a column starts with: a boolean column is one whose type is not known yet.\<close>

definition start_type :: "data_type \<Rightarrow> data_type" where
  "start_type dt = (if dt = DT_BOOL then DT_UNKNOWN else dt)"

lemma column_new_rep:
  assumes "packages_keep_data P"
  shows "column_rep (column_new P dt n_max) (start_type dt) []"
  using storage_new_rep [OF assms, of "start_type dt" 0 n_max]
  by (auto simp: column_rep_def column_new_def get_last_storage_def start_type_def widens_def Let_def
      intro!: exI [of _ "[[]]"])

lemma column_new_seen [simp]: "col_types_seen (column_new P dt n_max) = {}"
  by (simp add: column_new_def)

context column_source_contract
begin

lemma fetch_cell_total:
  assumes "\<not> is_null (src r)" "t \<noteq> DT_UNKNOWN"
  shows "\<exists>c ws. fetch_cell t (src r) = Inr (c, ws)"
  using assms string_total [of r] date_total [of r] datetime_total [of r] time_total [of r]
  by (cases t) (auto simp: ret_def ebind_def lift_res_def)

lemma read_item_total: "\<exists>it ws. read_item t (src r) = Inr (it, ws)"
proof (cases "is_null (src r)")
  case False
  then have "next_type t (src r) \<noteq> DT_UNKNOWN"
    by (intro next_type_known type_known)
  with fetch_cell_total [OF False] obtain c ws
    where "fetch_cell (next_type t (src r)) (src r) = Inr (c, ws)" by blast
  then show ?thesis
    using False by (simp add: read_item_def ebind_def ret_def)
qed (simp add: read_item_def ret_def)

lemma read_items_total: "\<exists>its ws. read_items t (map src rs) = Inr (its, ws)"
proof (induction rs arbitrary: t)
  case (Cons r rs)
  obtain it ws where "read_item t (src r) = Inr (it, ws)" using read_item_total by blast
  moreover obtain its ws' where "read_items (type_after t (src r)) (map src rs) = Inr (its, ws')"
    using Cons by blast
  ultimately show ?case by (simp add: ebind_def ret_def)
qed (simp add: ret_def)

text \<open>One row: the column takes the item of the reference, with its warnings.\<close>

lemma set_col_value_ok:
  assumes P: "packages_keep_data P" and rep: "column_rep c t its"
    and it: "read_item t (src r) = Inr (it, ws)"
  shows "\<exists>c'. set_col_value P c (src r) = Inr (c', ws)
     \<and> column_rep c' (type_after t (src r)) (its @ [it])
     \<and> col_types_seen c' = insert (get_data_type (src r)) (col_types_seen c)"
proof -
  let ?st = "get_last_storage c" and ?S = "insert (get_data_type (src r)) (col_types_seen c)"
  have t: "sdt ?st = t" using rep by (simp add: column_rep_def)
  obtain part where part: "storage_rep ?st part"
    using rep unfolding column_rep_def get_last_storage_def by (meson list_all2_last)
  show ?thesis
  proof (cases "is_null (src r)")
    case True
    obtain st' where st': "append_null ?st = Inr st'" "sdt st' = t"
      using append_null_rep [OF part] t by auto
    moreover have "storage_rep ?st p \<Longrightarrow> storage_rep st' (p @ [None])" for p
      using append_null_rep [of ?st p] st'(1) by auto
    moreover have "it = None" "ws = []" using it True by (auto simp: read_item_def ret_def)
    ultimately show ?thesis
      using True column_rep_last [OF rep, of st' None ?S]
      by (simp add: set_col_value_def append_col_def ret_def get_last_storage_def)
  next
    case False
    then obtain x where x: "fetch_cell (next_type (sdt ?st) (src r)) (src r) = Inr (x, ws)" "it = Some x"
      using it t by (auto simp: read_item_def ebind_eq_Inr ret_def)
    note known = type_known [OF False]
    obtain fresh st' where a: "append_data P False ?st (src r) = Some (Inr ((fresh, st'), ws))"
      "storage_rep st' (if fresh then [Some x] else part @ [Some x])"
      "sdt st' = next_type t (src r)" "\<not> fresh \<longrightarrow> sdt st' = t"
      using append_data_ok [OF P part known x(1)] t by auto
    have set: "set_col_value P c (src r) = Inr (c\<lparr>col_types_seen := ?S, col_storage :=
        (if fresh then col_storage c else butlast (col_storage c)) @ [st']\<rparr>, ws)"
      using False a(1) by (simp add: set_col_value_def append_col_def get_last_storage_def ebind_def ret_def)
    show ?thesis
    proof (cases fresh)
      case True
      then show ?thesis
        using set a False column_rep_push [OF rep, of st' it ?S] next_type_widens [of t "src r"] x(2)
        by (cases "t = DT_UNKNOWN") auto
    next
      case nf: False
      have "storage_rep ?st p \<Longrightarrow> storage_rep st' (p @ [it])" for p
        using append_data_ok [OF P _ known x(1), of p] a(1) nf x(2) by auto
      then show ?thesis
        using set a False nf column_rep_last [OF rep, of st' it ?S] by simp
    qed
  qed
qed

lemma set_col_values_ok:
  assumes P: "packages_keep_data P" and rep: "column_rep c t its"
    and its: "read_items t (map src rs) = Inr (its', ws)"
  shows "\<exists>c'. foldE (set_col_value P) c (map src rs) = Inr (c', ws)
     \<and> column_rep c' (foldl type_after t (map src rs)) (its @ its')
     \<and> col_types_seen c' = col_types_seen c \<union> get_data_type ` src ` set rs"
  using rep its
proof (induction rs arbitrary: c t its its' ws)
  case Nil
  then show ?case by (auto simp: ret_def)
next
  case (Cons r rs)
  then obtain it ws1 its2 ws2 where i: "read_item t (src r) = Inr (it, ws1)"
    "read_items (type_after t (src r)) (map src rs) = Inr (its2, ws2)"
    "its' = it # its2" "ws = ws1 @ ws2"
    by (auto simp: ebind_eq_Inr ret_def)
  from set_col_value_ok [OF P Cons.prems(1) i(1)] obtain c1 where c1:
    "set_col_value P c (src r) = Inr (c1, ws1)" "column_rep c1 (type_after t (src r)) (its @ [it])"
    "col_types_seen c1 = insert (get_data_type (src r)) (col_types_seen c)" by blast
  from Cons.IH [OF c1(2) i(2)] c1 i show ?case
    by (auto simp: ebind_def)
qed

end

subsection \<open>The vector of a column\<close>

lemma copy_chunks_ok:
  assumes "list_all2 storage_rep sts parts" "\<forall>st \<in> set sts. widens (sdt st) t \<or> sdt st = DT_UNKNOWN"
    and "t \<noteq> DT_UNKNOWN" "TYPEOF x = sexptype_from_datatype t"
    and "pos + length (concat parts) \<le> Rf_xlength x"
  shows "\<exists>y. copy_chunks t sts x pos = Inr (y, pos + length (concat parts))
     \<and> TYPEOF y = TYPEOF x \<and> Rf_xlength y = Rf_xlength x
     \<and> cells_of y = take pos (cells_of x) @ map (\<lambda>it. Some (final t it)) (concat parts)
          @ drop (pos + length (concat parts)) (cells_of x)"
  using assms
proof (induction sts parts arbitrary: x pos rule: list_all2_induct)
  case Nil
  then show ?case by simp
next
  case (Cons st sts part parts)
  then have w: "widens (sdt st) t \<or> sdt st = DT_UNKNOWN" and room: "pos + length part \<le> Rf_xlength x"
    by auto
  obtain x' where x': "copy_to st x t pos = Inr (x', length part)"
    "TYPEOF x' = TYPEOF x" "Rf_xlength x' = Rf_xlength x"
    "cells_of x' = take pos (cells_of x) @ map (\<lambda>it. Some (final t it)) part
       @ drop (pos + length part) (cells_of x)"
    using copy_to_ok [OF Cons.hyps(1) w Cons.prems(2,3) room] by blast
  obtain y where y: "copy_chunks t sts x' (pos + length part)
        = Inr (y, pos + length part + length (concat parts))"
    "TYPEOF y = TYPEOF x'" "Rf_xlength y = Rf_xlength x'"
    "cells_of y = take (pos + length part) (cells_of x') @ map (\<lambda>it. Some (final t it)) (concat parts)
       @ drop (pos + length part + length (concat parts)) (cells_of x')"
    using Cons.IH [of x' "pos + length part"] Cons.prems x'(2,3) by auto
  have "length (cells_of x) = Rf_xlength x" using Cons.prems(3) by simp
  then show ?case using x' y room by (simp add: ac_simps)
qed

lemma copy_chunks_empty: "Rf_xlength x = 0 \<Longrightarrow> copy_chunks t sts x pos = Inr (x, pos)"
  by (induction sts arbitrary: pos)
    (simp_all add: copy_to_def copy_values.simps fill_values.simps)

lemma out_type_known:
  "t \<noteq> DT_UNKNOWN \<or> get_decl_data_type e \<noteq> DT_UNKNOWN \<Longrightarrow> out_type t e \<noteq> DT_UNKNOWN"
  by (simp add: out_type_def)

text \<open>A vector is determined by its type and its cells.\<close>

fun vector_of :: "sexptype \<Rightarrow> cell list \<Rightarrow> sexp" where
  "vector_of LGLSXP cs = LglSXP (map (\<lambda>c. case c of CLgl i \<Rightarrow> Some i | _ \<Rightarrow> None) cs)"
| "vector_of INTSXP cs = IntSXP (map (\<lambda>c. case c of CInt i \<Rightarrow> Some i | _ \<Rightarrow> None) cs)"
| "vector_of REALSXP cs = RealSXP (map (\<lambda>c. case c of CReal d \<Rightarrow> Some d | _ \<Rightarrow> None) cs)"
| "vector_of STRSXP cs = StrSXP (map (\<lambda>c. case c of CStr s \<Rightarrow> s | _ \<Rightarrow> NA_STRING) cs)"
| "vector_of VECSXP cs = VecSXP (map (\<lambda>c. case c of CVec v \<Rightarrow> v | _ \<Rightarrow> NilSXP) cs)"
| "vector_of RAWSXP cs = RawSXP []"
| "vector_of NILSXP cs = NilSXP"

definition column_ref :: "r_packages \<Rightarrow> data_type \<Rightarrow> item list \<Rightarrow> robj" where
  "column_ref P t its =
     (allocate P (length its) t)\<lparr>rdata := vector_of (sexptype_from_datatype t) (map (final t) its)\<rparr>"

lemma TYPEOF_vector_of: "TYPEOF (vector_of ty cs) = ty"
  by (cases ty) simp_all

lemma vector_of_cells:
  "\<forall>c \<in> set cs. cell_type c = ty \<Longrightarrow> ty \<noteq> NILSXP \<Longrightarrow> ty \<noteq> RAWSXP \<Longrightarrow>
     cells_of (vector_of ty cs) = map Some cs"
  by (cases ty) (auto dest!: bspec cell_of_type)

lemma map_option_inj: "inj f \<Longrightarrow> map (map_option f) xs = map (map_option f) ys \<longleftrightarrow> xs = ys"
  by (simp add: inj_map_eq_map option.inj_map)

lemma cells_of_inject:
  assumes "TYPEOF x = TYPEOF y" "TYPEOF x \<noteq> RAWSXP" "cells_of x = cells_of y"
  shows "x = y"
proof -
  have "inj CLgl" "inj CInt" "inj CReal" "inj (\<lambda>s. Some (CStr s))" "inj (\<lambda>v. Some (CVec v))"
    by (auto simp: inj_def)
  then show ?thesis
    using assms by (cases x; cases y) (simp_all add: map_option_inj inj_map_eq_map)
qed

lemma conv_type:
  "widens s t \<Longrightarrow> cell_type c = sexptype_from_datatype s \<Longrightarrow>
     cell_type (conv t c) = sexptype_from_datatype t"
  by (cases t; cases c) (auto simp: widens_def INT64SXP_def)

lemma column_rep_final_type:
  assumes "column_rep c t its" "it \<in> set its" "t' \<noteq> DT_UNKNOWN" "t \<noteq> DT_UNKNOWN \<longrightarrow> t' = t"
  shows "cell_type (final t' it) = sexptype_from_datatype t'"
proof (cases it)
  case None
  then show ?thesis using na_cell_type [OF assms(3)] by simp
next
  case (Some x)
  obtain parts where p: "list_all2 storage_rep (col_storage c) parts" "its = concat parts"
    using assms(1) by (auto simp: column_rep_def)
  obtain part where part: "part \<in> set parts" "it \<in> set part"
    using assms(2) p(2) by auto
  obtain st where st: "st \<in> set (col_storage c)" "storage_rep st part" "it \<in> set part"
    using p(1) part by (fastforce simp: list_all2_conv_all_nth in_set_conv_nth)
  have x: "cell_type x = sexptype_from_datatype (sdt st)"
    using storage_repD(5) [OF st(2)] st(3) Some by blast
  then have "sdt st \<noteq> DT_UNKNOWN" by (cases x) (auto)
  then have "widens (sdt st) t" using assms(1) st(1) by (auto simp: column_rep_def)
  then have "widens (sdt st) t'" using assms(4) \<open>sdt st \<noteq> DT_UNKNOWN\<close> by (auto simp: widens_def)
  then show ?thesis using conv_type x Some by simp
qed

lemma column_sexp_ok:
  assumes P: "packages_keep_data P" and rep: "column_rep c t its" and n: "col_n c = length its"
    and e: "get_decl_data_type e \<noteq> DT_UNKNOWN"
  shows "column_sexp P c e = Inr (column_ref P (out_type t e) its)"
proof -
  let ?t = "out_type t e"
  have dt: "storage_data_type (get_last_storage c) e = ?t"
    using rep by (simp add: column_rep_def storage_data_type_def out_type_def)
  obtain parts where p: "list_all2 storage_rep (col_storage c) parts" "concat parts = its"
    using rep by (auto simp: column_rep_def)
  have w: "\<forall>st \<in> set (col_storage c). widens (sdt st) ?t \<or> sdt st = DT_UNKNOWN"
    using rep by (auto simp: column_rep_def out_type_def widens_def)
  have t: "?t \<noteq> DT_UNKNOWN" using e by (intro out_type_known) simp
  let ?x = "Rf_allocVector (sexptype_from_datatype ?t) (length its)"
  have x: "TYPEOF ?x = sexptype_from_datatype ?t" "Rf_xlength ?x = length its"
    using t by (cases ?t; simp add: INT64SXP_def)+
  obtain y where y: "copy_chunks ?t (col_storage c) ?x 0 = Inr (y, length its)"
    "TYPEOF y = sexptype_from_datatype ?t" "cells_of y = map (\<lambda>it. Some (final ?t it)) its"
    using copy_chunks_ok [OF p(1) w t x(1), of 0] x p(2) by auto
  then have "column_sexp P c e = Inr ((allocate P (length its) ?t)\<lparr>rdata := y\<rparr>)"
    by (simp add: column_sexp_def dt n allocate_rdata [OF P])
  moreover have "y = vector_of (sexptype_from_datatype ?t) (map (final ?t) its)"
  proof (rule cells_of_inject)
    have "\<forall>it \<in> set its. cell_type (final ?t it) = sexptype_from_datatype ?t"
      using column_rep_final_type [OF rep] t by (auto simp: out_type_def split: if_splits)
    then have "\<forall>c \<in> set (map (final ?t) its). cell_type c = sexptype_from_datatype ?t" by simp
    note v = vector_of_cells [OF this] TYPEOF_vector_of
    show "TYPEOF y = TYPEOF (vector_of (sexptype_from_datatype ?t) (map (final ?t) its))"
      by (simp add: y(2) TYPEOF_vector_of)
    show "cells_of y = cells_of (vector_of (sexptype_from_datatype ?t) (map (final ?t) its))"
      using v(1) t by (simp add: y(3))
  qed (simp add: y(2))
  ultimately show ?thesis by (simp add: column_ref_def)
qed

subsection \<open>The warning about mixed types\<close>

definition compatible :: "data_type \<Rightarrow> data_type \<Rightarrow> bool" where
  "compatible t u \<longleftrightarrow> u = DT_UNKNOWN \<or> u = DT_BOOL \<or> widens u t"

lemma warn_type_conflicts_cases:
  assumes "column_rep c t its"
  shows "warn_type_conflicts c e name =
    (let t = out_type t e; bad = {u \<in> col_types_seen c. \<not> compatible t u} in
     if bad = {} then ret () else warning (conflict_text name t (sorted_list_of_set bad)))"
proof -
  let ?t = "out_type t e"
  have dt: "storage_data_type (get_last_storage c) e = ?t"
    using assms by (simp add: column_rep_def storage_data_type_def out_type_def)
  have seen: "(if ?t = DT_REAL \<or> ?t = DT_INT64 then col_types_seen c - {DT_INT} else col_types_seen c)
      - {DT_UNKNOWN, DT_BOOL, ?t} = {u \<in> col_types_seen c. \<not> compatible ?t u}"
    by (auto simp: compatible_def widens_def)
  show ?thesis unfolding warn_type_conflicts_def Let_def dt seen ..
qed

subsection \<open>A column is the one pass over its rows\<close>

context column_source_contract
begin

lemma present_known: "DT_UNKNOWN \<notin> set (present (map src rs))"
  using type_known by (force simp: present_def)

text \<open>
  \<open>column_holds dt rs c\<close>: the column started with type \<open>dt\<close> and took the rows \<open>rs\<close>.
\<close>

definition column_holds :: "data_type \<Rightarrow> 'row list \<Rightarrow> column \<Rightarrow> bool" where
  "column_holds dt rs c \<longleftrightarrow>
     (\<exists>its ws. read_items (start_type dt) (map src rs) = Inr (its, ws)
        \<and> column_rep c (foldl type_after (start_type dt) (map src rs)) its
        \<and> col_types_seen c = get_data_type ` src ` set rs)"

lemma column_holds_new: "packages_keep_data P \<Longrightarrow> column_holds dt [] (column_new P dt n_max)"
  by (simp add: column_holds_def column_new_rep ret_def)

lemma column_holds_step:
  assumes P: "packages_keep_data P" and c: "column_holds dt rs c"
  shows "\<exists>it ws c'. read_item (foldl type_after (start_type dt) (map src rs)) (src r) = Inr (it, ws)
    \<and> set_col_value P c (src r) = Inr (c', ws) \<and> column_holds dt (rs @ [r]) c'"
proof -
  let ?t = "foldl type_after (start_type dt) (map src rs)"
  obtain its ws0 where its: "read_items (start_type dt) (map src rs) = Inr (its, ws0)"
    "column_rep c ?t its" "col_types_seen c = get_data_type ` src ` set rs"
    using c by (auto simp: column_holds_def)
  obtain it ws where it: "read_item ?t (src r) = Inr (it, ws)" using read_item_total by blast
  obtain c' where c': "set_col_value P c (src r) = Inr (c', ws)"
    "column_rep c' (type_after ?t (src r)) (its @ [it])"
    "col_types_seen c' = insert (get_data_type (src r)) (col_types_seen c)"
    using set_col_value_ok [OF P its(2) it] by blast
  have "read_items (start_type dt) (map src (rs @ [r])) = Inr (its @ [it], ws0 @ ws)"
    using its(1) it by (simp add: read_items_snoc ebind_def ret_def)
  then have "column_holds dt (rs @ [r]) c'"
    using c' its(3) unfolding column_holds_def by auto
  then show ?thesis using it c' by blast
qed

lemma column_holds_sexp:
  assumes P: "packages_keep_data P" and c: "column_holds dt rs c"
    and its: "read_items (start_type dt) (map src rs) = Inr (its, ws)"
  shows "column_sexp P (column_finalize (length rs) c) (src e) =
    Inr (column_ref P (out_type (foldl type_after (start_type dt) (map src rs)) (src e)) its)"
proof -
  let ?c = "column_finalize (length rs) c" and ?t = "foldl type_after (start_type dt) (map src rs)"
  have "column_rep ?c ?t its"
    using c its by (auto simp: column_holds_def column_rep_def column_finalize_def get_last_storage_def)
  moreover have "col_n ?c = length its"
    using read_items_length [OF its] by (simp add: column_finalize_def)
  ultimately show ?thesis by (rule column_sexp_ok [OF P _ _ decl_known])
qed

text \<open>\<open>peek_first_row\<close> makes a column of length 0, whatever the column holds.\<close>

lemma column_holds_sexp_0:
  assumes P: "packages_keep_data P" and c: "column_holds dt rs c"
  shows "column_sexp P (column_finalize 0 c) (src e) =
    Inr (column_ref P (out_type (foldl type_after (start_type dt) (map src rs)) (src e)) [])"
proof -
  let ?t = "out_type (foldl type_after (start_type dt) (map src rs)) (src e)"
  have dt: "storage_data_type (get_last_storage (column_finalize 0 c)) (src e) = ?t"
    using c by (auto simp: column_holds_def column_rep_def storage_data_type_def out_type_def
        column_finalize_def get_last_storage_def)
  have "?t \<noteq> DT_UNKNOWN" using decl_known by (simp add: out_type_def)
  then have "Rf_allocVector (sexptype_from_datatype ?t) 0 = vector_of (sexptype_from_datatype ?t) []"
    "Rf_xlength (Rf_allocVector (sexptype_from_datatype ?t) 0) = 0"
    by (cases ?t; simp add: INT64SXP_def)+
  then show ?thesis
    unfolding column_sexp_def dt Let_def column_ref_def
    by (simp add: column_finalize_def allocate_rdata [OF P] copy_chunks_empty)
qed

lemma column_holds_type:
  "column_holds dt rs c \<Longrightarrow> column_get_type c (src e) =
     out_type (foldl type_after (start_type dt) (map src rs)) (src e)"
  by (auto simp: column_holds_def column_rep_def column_get_type_def storage_data_type_def out_type_def)

lemma column_holds_warn:
  "column_holds dt rs c \<Longrightarrow> warn_type_conflicts c (src e) name =
    (let t = out_type (foldl type_after (start_type dt) (map src rs)) (src e);
         bad = {u \<in> get_data_type ` src ` set rs. \<not> compatible t u} in
     if bad = {} then ret () else warning (conflict_text name t (sorted_list_of_set bad)))"
  unfolding column_holds_def by (auto simp: warn_type_conflicts_cases)

end

subsection \<open>At which type an item was read\<close>

text \<open>
  A value is read at a type that accepts it and that widens to the final type of the column.
\<close>

definition read_at :: "data_type \<Rightarrow> column_source \<Rightarrow> item \<Rightarrow> bool" where
  "read_at D s it \<longleftrightarrow>
     (if is_null s then it = None
      else \<exists>u c ws. u \<noteq> DT_UNKNOWN \<and> widens u D \<and> next_type u s = u
             \<and> fetch_cell u s = Inr (c, ws) \<and> it = Some c)"

lemma type_after_widens: "t \<noteq> DT_UNKNOWN \<Longrightarrow> widens t (foldl type_after t ss)"
proof (induction ss arbitrary: t)
  case (Cons s ss)
  have "type_after t s \<noteq> DT_UNKNOWN" "widens t (type_after t s)"
    using Cons.prems next_type_widens [of t s]
    by (auto simp: type_after_def widens_def next_type_def)
  then show ?case using Cons.IH widens_trans by fastforce
qed (simp add: widens_def)

lemma read_items_read_at:
  assumes "\<forall>s \<in> set ss. \<not> is_null s \<longrightarrow> get_data_type s \<noteq> DT_UNKNOWN"
    and "read_items t ss = Inr (its, ws)"
  shows "list_all2 (read_at (foldl type_after t ss)) ss its"
  using assms
proof (induction ss arbitrary: t its ws)
  case (Cons s ss)
  then obtain it ws1 its2 ws2 where i: "read_item t s = Inr (it, ws1)"
    "read_items (type_after t s) ss = Inr (its2, ws2)" "its = it # its2"
    by (auto simp: ebind_eq_Inr ret_def)
  have "read_at (foldl type_after t (s # ss)) s it"
  proof (cases "is_null s")
    case False
    then have "next_type t s \<noteq> DT_UNKNOWN" using Cons.prems(1) by (simp add: next_type_known)
    then show ?thesis
      using i(1) False type_after_widens [of "next_type t s" ss]
      by (auto simp: read_at_def read_item_def ebind_eq_Inr ret_def
          intro!: exI [of _ "next_type t s"])
  qed (use i(1) in \<open>simp add: read_at_def read_item_def ret_def\<close>)
  then show ?case using Cons.IH [OF _ i(2)] Cons.prems(1) i(3) by simp
qed (simp add: ret_def)

subsection \<open>Properties\<close>

text \<open>A column over a whole list of rows, from its construction to its vector.\<close>

definition column_of_rows ::
  "r_packages \<Rightarrow> data_type \<Rightarrow> int \<Rightarrow> column_source list \<Rightarrow> column_source \<Rightarrow> robj eff" where
  "column_of_rows P dt n_max ss e =
     ebind (foldE (set_col_value P) (column_new P dt n_max) ss)
       (\<lambda>c. lift_res (column_sexp P (column_finalize (length ss) c) e))"

definition one_pass ::
  "r_packages \<Rightarrow> data_type \<Rightarrow> column_source list \<Rightarrow> column_source \<Rightarrow> robj eff" where
  "one_pass P dt ss e =
     ebind (read_items (start_type dt) ss) (\<lambda>its.
       ret (column_ref P (out_type (foldl type_after (start_type dt) ss) e) its))"

context column_source_contract
begin

lemma column_is_one_pass:
  assumes P: "packages_keep_data P"
  shows "column_of_rows P dt n_max (map src rs) (src e) = one_pass P dt (map src rs) (src e)"
proof -
  obtain its ws where its: "read_items (start_type dt) (map src rs) = Inr (its, ws)"
    using read_items_total by blast
  with set_col_values_ok [OF P column_new_rep [OF P] its, of n_max]
  obtain c where c: "foldE (set_col_value P) (column_new P dt n_max) (map src rs) = Inr (c, ws)"
    "column_rep c (foldl type_after (start_type dt) (map src rs)) its"
    "col_types_seen c = get_data_type ` src ` set rs" by auto
  then have "column_holds dt rs c" using its by (auto simp: column_holds_def)
  from column_holds_sexp [OF P this its, of e] show ?thesis
    using its c(1) by (simp add: column_of_rows_def one_pass_def ebind_def ret_def)
qed

lemma one_pass_total:
  "\<exists>r ws. one_pass P dt (map src rs) (src e) = Inr (r, ws)"
  using read_items_total [of "start_type dt" rs] by (auto simp: one_pass_def ebind_def ret_def)

end

text \<open>
  C3: whatever the sizes of the chunks, a column over SQLite rows is the one pass over the
  rows: same vector, class and attributes, same warnings in the same order.
\<close>

theorem column_equals_one_pass:
  assumes "packages_keep_data P"
  shows "column_of_rows P dt n_max (map (sqlite_column_source T D alt j) rows)
           (sqlite_column_source T D alt j end_row) =
         one_pass P dt (map (sqlite_column_source T D alt j) rows)
           (sqlite_column_source T D alt j end_row)"
  using assms by (rule sqlite_source.column_is_one_pass)

theorem column_equals_one_pass_witness:
  "column_of_rows std_packages DT_UNKNOWN 1
      (map (sqlite_column_source undefined undefined False 0)
        [\<lparr>row_values = [SqlInt 7], row_decltypes = []\<rparr>, \<lparr>row_values = [SqlNull], row_decltypes = []\<rparr>,
         \<lparr>row_values = [SqlInt 5000000000], row_decltypes = []\<rparr>])
      (sqlite_column_source undefined undefined False 0 \<lparr>row_values = [], row_decltypes = []\<rparr>)
    = Inr (\<lparr>rdata = RealSXP [Some 7, Some NA_INTEGER64, Some 5000000000],
            rclass = [''integer64''], rtzone = None\<rparr>, [])"
  by (rule trans [OF column_equals_one_pass], simp)
    (simp add: one_pass_def read_item_def ebind_def ret_def start_type_def
      sqlite_column_source_def sqlite_is_null_def sqlite_get_data_type_def sqlite3_column_defs
      columnMem_def needs_64_bit_def next_type_def type_after_def out_type_def column_ref_def
      allocate_def plain_def INT64SXP_def NA_INTEGER_def Let_def)

subsubsection \<open>Numbers\<close>

text \<open>What a cell of an integer column means in R.\<close>

fun cell_int :: "data_type \<Rightarrow> cell \<Rightarrow> int option" where
  "cell_int DT_INT (CInt i) = (if i = NA_INTEGER then None else Some (sint i))"
| "cell_int DT_INT64 (CReal w) = (if w = NA_INTEGER64 then None else Some (sint w))"
| "cell_int _ _ = None"

fun sql_int :: "sqlite_value \<Rightarrow> int option" where
  "sql_int (SqlInt i) = Some (sint i)"
| "sql_int _ = None"

text \<open>The integers that R cannot tell from a missing value.\<close>

fun plain_int :: "sqlite_value \<Rightarrow> bool" where
  "plain_int (SqlInt i) \<longleftrightarrow> sint i \<noteq> - 2147483648 \<and> sint i \<noteq> - 9223372036854775808"
| "plain_int SqlNull \<longleftrightarrow> True"
| "plain_int _ \<longleftrightarrow> False"

lemma sqlite_type_int:
  "columnMem row j = SqlInt i \<Longrightarrow>
     sqlite_get_data_type T False row j = (if needs_64_bit i then DT_INT64 else DT_INT)"
  by (simp add: sqlite_get_data_type_def sqlite3_column_defs Let_def)

lemma not_NA_INTEGER64: "sint i \<noteq> - 9223372036854775808 \<Longrightarrow> i \<noteq> NA_INTEGER64"
  by (auto simp: NA_INTEGER64_def)

lemma read_at_int:
  assumes r: "read_at D (sqlite_column_source T dp False j row) it"
    and v: "plain_int (columnMem row j)" and D: "D = DT_INT \<or> D = DT_INT64"
  shows "cell_int D (final D it) = sql_int (columnMem row j)"
proof (cases "columnMem row j")
  case SqlNull
  then have "it = None"
    using r by (simp add: read_at_def sqlite_column_source_def sqlite_is_null_def sqlite3_column_defs)
  then show ?thesis using D SqlNull by auto
next
  case (SqlInt i)
  let ?s = "sqlite_column_source T dp False j row"
  have s: "\<not> is_null ?s" "get_data_type ?s = (if needs_64_bit i then DT_INT64 else DT_INT)"
    "fetch_int ?s = ucast i" "fetch_int64 ?s = i"
    using SqlInt by (simp_all add: sqlite_column_source_def sqlite_is_null_def sqlite3_column_defs
        sqlite_type_int)
  obtain u c ws where u: "widens u D" "next_type u ?s = u" "fetch_cell u ?s = Inr (c, ws)" "it = Some c"
    using r s(1) by (auto simp: read_at_def)
  have n: "sint i \<noteq> - 2147483648" "sint i \<noteq> - 9223372036854775808" using v SqlInt by simp_all
  consider "u = DT_INT" "\<not> needs_64_bit i" | "u = DT_INT64" "D = DT_INT64"
    using u(1,2) D s(2) by (auto simp: widens_def next_type_def split: if_splits)
  then show ?thesis
  proof cases
    case 1
    then have c: "c = CInt (ucast i)" using u(3) s(3) by (simp add: ret_def)
    have e: "sint (ucast i :: i32) = sint i" "(ucast i :: i32) \<noteq> NA_INTEGER"
      using narrow_exact [OF 1(2)] narrow_NA [OF 1(2)] n by simp_all
    have "(scast (ucast i :: i32) :: i64) = word_of_int (sint (ucast i :: i32))"
      by (rule scast_eq)
    then have "scast (ucast i :: i32) = i" by (simp only: e(1)) simp
    then show ?thesis using D u(4) c e SqlInt not_NA_INTEGER64 [OF n(2)] by auto
  next
    case 2
    then have "c = CReal i" using u(3) s(4) by (simp add: ret_def)
    then show ?thesis using 2 u(4) SqlInt not_NA_INTEGER64 [OF n(2)] by simp
  qed
qed (use v in auto)

lemma decide_int:
  "set ts \<subseteq> {DT_INT, DT_INT64} \<Longrightarrow> ts \<noteq> [] \<Longrightarrow> decide ts = DT_INT \<or> decide ts = DT_INT64"
  by (cases ts) (auto split: list.splits dest!: filter_eq_ConsD)

text \<open>What a run of the column gives, cell by cell.\<close>

lemma sqlite_items:
  fixes T dp alt j rows
  defines "ss \<equiv> map (sqlite_column_source T dp alt j) rows"
  assumes "one_pass P DT_UNKNOWN ss e = Inr (r, ws)" "decide (present ss) \<noteq> DT_UNKNOWN"
  shows "\<exists>its. r = column_ref P (decide (present ss)) its
    \<and> list_all2 (\<lambda>row. read_at (decide (present ss)) (sqlite_column_source T dp alt j row)) rows its"
proof -
  have known: "\<forall>s \<in> set ss. \<not> is_null s \<longrightarrow> get_data_type s \<noteq> DT_UNKNOWN"
    using sqlite_source.type_known by (auto simp: ss_def)
  have t: "foldl type_after DT_UNKNOWN ss = decide (present ss)"
    using type_after_decide [of ss] sqlite_source.present_known by (simp add: ss_def)
  obtain its where its: "read_items DT_UNKNOWN ss = Inr (its, ws)"
    "r = column_ref P (decide (present ss)) its"
    using assms(2,3) by (auto simp: one_pass_def ebind_eq_Inr ret_def start_type_def t out_type_def)
  have "list_all2 (read_at (decide (present ss))) ss its"
    using read_items_read_at [OF known its(1)] by (simp only: t)
  then show ?thesis using its(2) by (auto simp: ss_def list_all2_map1)
qed

lemma present_sqlite:
  assumes "\<forall>row \<in> set rows. columnMem row j \<in> V"
    and "\<And>row. columnMem row j \<in> V \<Longrightarrow> columnMem row j \<noteq> SqlNull \<Longrightarrow> sqlite_get_data_type T alt row j \<in> U"
  shows "set (present (map (sqlite_column_source T dp alt j) rows)) \<subseteq> U"
  using assms by (auto simp: present_def sqlite_column_source_def sqlite_is_null_def sqlite3_column_defs)

lemma present_sqlite_nonempty:
  "\<exists>row \<in> set rows. columnMem row j \<noteq> SqlNull \<Longrightarrow>
     present (map (sqlite_column_source T dp alt j) rows) \<noteq> []"
  by (auto simp: present_def filter_empty_conv sqlite_column_source_def sqlite_is_null_def
      sqlite3_column_defs)

text \<open>
  C4: a column of integers and NULLs, one of them at least an integer, becomes an R integer
  or integer64 vector that gives back every integer and every NULL, in order, except the two
  integers whose patterns are R's missing values.
\<close>

theorem integer_column_exact:
  assumes P: "packages_keep_data P"
    and ints: "\<forall>row \<in> set rows. plain_int (columnMem row j)"
    and some: "\<exists>row \<in> set rows. columnMem row j \<noteq> SqlNull"
  shows "\<exists>D its ws.
    column_of_rows P DT_UNKNOWN n_max (map (sqlite_column_source T dp False j) rows)
      (sqlite_column_source T dp False j end_row) = Inr (column_ref P D its, ws)
    \<and> (D = DT_INT \<or> D = DT_INT64)
    \<and> map (\<lambda>it. cell_int D (final D it)) its = map (\<lambda>row. sql_int (columnMem row j)) rows"
proof -
  let ?src = "sqlite_column_source T dp False j" and ?D = "decide (present (map (sqlite_column_source T dp False j) rows))"
  have D: "?D = DT_INT \<or> ?D = DT_INT64"
  proof (rule decide_int)
    show "set (present (map ?src rows)) \<subseteq> {DT_INT, DT_INT64}"
      by (rule present_sqlite [where V = "{v. plain_int v}"])
        (use ints in \<open>auto elim!: plain_int.elims simp: sqlite_type_int\<close>)
  qed (use some present_sqlite_nonempty in blast)
  obtain r ws where r: "one_pass P DT_UNKNOWN (map ?src rows) (?src end_row) = Inr (r, ws)"
    using sqlite_source.one_pass_total by blast
  have "?D \<noteq> DT_UNKNOWN" using D by auto
  from sqlite_items [OF r this] obtain its where its: "r = column_ref P ?D its"
    "list_all2 (\<lambda>row. read_at ?D (?src row)) rows its" by blast
  have "map (\<lambda>it. cell_int ?D (final ?D it)) its = map (\<lambda>row. sql_int (columnMem row j)) rows"
    using its(2) ints D
    by (auto simp: list_all2_conv_all_nth intro!: nth_equalityI read_at_int)
  then show ?thesis
    using r its(1) D sqlite_source.column_is_one_pass [OF P, of DT_UNKNOWN n_max] by metis
qed

theorem integer_column_exact_witness:
  "\<exists>D its ws.
    column_of_rows std_packages DT_UNKNOWN (-1)
      (map (sqlite_column_source undefined undefined False 0)
        [\<lparr>row_values = [SqlInt 7], row_decltypes = []\<rparr>, \<lparr>row_values = [SqlNull], row_decltypes = []\<rparr>,
         \<lparr>row_values = [SqlInt 5000000000], row_decltypes = []\<rparr>])
      (sqlite_column_source undefined undefined False 0 \<lparr>row_values = [], row_decltypes = []\<rparr>)
      = Inr (column_ref std_packages D its, ws)
    \<and> (D = DT_INT \<or> D = DT_INT64)
    \<and> map (\<lambda>it. cell_int D (final D it)) its = [Some 7, None, Some 5000000000]"
  using integer_column_exact [of std_packages
      "[\<lparr>row_values = [SqlInt 7], row_decltypes = []\<rparr>, \<lparr>row_values = [SqlNull], row_decltypes = []\<rparr>,
        \<lparr>row_values = [SqlInt 5000000000], row_decltypes = []\<rparr>]" 0 "-1" undefined undefined
      "\<lparr>row_values = [], row_decltypes = []\<rparr>"]
  by (simp add: columnMem_def)

text \<open>Every number of a real column, an integer read before the widening included.\<close>

fun plain_number :: "sqlite_value \<Rightarrow> bool" where
  "plain_number (SqlInt i) \<longleftrightarrow> sint i \<noteq> - 2147483648"
| "plain_number SqlNull \<longleftrightarrow> True"
| "plain_number (SqlFloat r) \<longleftrightarrow> True"
| "plain_number _ \<longleftrightarrow> False"

definition real_cell :: "sqlite_value \<Rightarrow> cell" where
  "real_cell v = CReal (case v of SqlInt i \<Rightarrow> f64_of_int (sint i) | SqlFloat r \<Rightarrow> r | _ \<Rightarrow> NA_REAL)"

lemma read_at_real:
  assumes r: "read_at DT_REAL (sqlite_column_source T dp False j row) it"
    and v: "plain_number (columnMem row j)"
  shows "final DT_REAL it = real_cell (columnMem row j)"
proof -
  let ?s = "sqlite_column_source T dp False j row"
  consider "columnMem row j = SqlNull" | i where "columnMem row j = SqlInt i"
    | x where "columnMem row j = SqlFloat x"
    using v by (cases "columnMem row j") auto
  then show ?thesis
  proof cases
    case 1
    then show ?thesis
      using r by (simp add: read_at_def sqlite_column_source_def sqlite_is_null_def
          sqlite3_column_defs real_cell_def)
  next
    case 2
    then have s: "\<not> is_null ?s" "get_data_type ?s = (if needs_64_bit i then DT_INT64 else DT_INT)"
      "fetch_int ?s = ucast i" "fetch_real ?s = f64_of_int (sint i)" "sint i \<noteq> - 2147483648"
      using v by (simp_all add: sqlite_column_source_def sqlite_is_null_def sqlite3_column_defs
          sqlite_type_int)
    obtain u c ws where u: "widens u DT_REAL" "next_type u ?s = u" "fetch_cell u ?s = Inr (c, ws)" "it = Some c"
      using r s(1) by (auto simp: read_at_def)
    consider "u = DT_INT" "\<not> needs_64_bit i" | "u = DT_REAL"
      using u(1,2) s(2) by (auto simp: widens_def next_type_def split: if_splits)
    then show ?thesis
    proof cases
      case u_int: 1
      then have "c = CInt (ucast i)" using u(3) s(3) by (simp add: ret_def)
      then show ?thesis
        using narrow_exact [OF u_int(2)] narrow_NA [OF u_int(2)] s(5) u(4) 2
        by (simp add: real_cell_def)
    qed (use u(3,4) s(4) 2 in \<open>auto simp: ret_def real_cell_def\<close>)
  next
    case 3
    then have s: "\<not> is_null ?s" "get_data_type ?s = DT_REAL" "fetch_real ?s = x"
      by (simp_all add: sqlite_column_source_def sqlite_is_null_def sqlite3_column_defs
          sqlite_get_data_type_def Let_def)
    obtain u c ws where u: "widens u DT_REAL" "next_type u ?s = u" "fetch_cell u ?s = Inr (c, ws)" "it = Some c"
      using r s(1) by (auto simp: read_at_def)
    then have "u = DT_REAL" using s(2) by (auto simp: widens_def next_type_def split: if_splits)
    then show ?thesis using u(3,4) s(3) 3 by (auto simp: ret_def real_cell_def)
  qed
qed

text \<open>
  C5: a column of numbers whose type is decided to be real gives every double as it is, every
  integer converted to double, also those that were stored as 32-bit integers before the first
  double came, and a missing value for every NULL.
\<close>

theorem real_column_exact:
  assumes P: "packages_keep_data P"
    and nums: "\<forall>row \<in> set rows. plain_number (columnMem row j)"
    and real: "decide (present (map (sqlite_column_source T dp False j) rows)) = DT_REAL"
  shows "\<exists>its ws.
    column_of_rows P DT_UNKNOWN n_max (map (sqlite_column_source T dp False j) rows)
      (sqlite_column_source T dp False j end_row) = Inr (column_ref P DT_REAL its, ws)
    \<and> map (final DT_REAL) its = map (\<lambda>row. real_cell (columnMem row j)) rows"
proof -
  let ?src = "sqlite_column_source T dp False j"
  obtain r ws where r: "one_pass P DT_UNKNOWN (map ?src rows) (?src end_row) = Inr (r, ws)"
    using sqlite_source.one_pass_total by blast
  from sqlite_items [OF r] obtain its where its: "r = column_ref P DT_REAL its"
    "list_all2 (\<lambda>row. read_at DT_REAL (?src row)) rows its" by (auto simp: real)
  have "map (final DT_REAL) its = map (\<lambda>row. real_cell (columnMem row j)) rows"
    using its(2) nums
    by (auto simp: list_all2_conv_all_nth intro!: nth_equalityI read_at_real)
  then show ?thesis
    using r its(1) sqlite_source.column_is_one_pass [OF P, of DT_UNKNOWN n_max] by metis
qed

theorem real_column_exact_witness:
  "\<exists>its ws.
    column_of_rows std_packages DT_UNKNOWN 2
      (map (sqlite_column_source undefined undefined False 0)
        [\<lparr>row_values = [SqlInt 7], row_decltypes = []\<rparr>, \<lparr>row_values = [SqlNull], row_decltypes = []\<rparr>,
         \<lparr>row_values = [SqlFloat 0x3FF8000000000000], row_decltypes = []\<rparr>])
      (sqlite_column_source undefined undefined False 0 \<lparr>row_values = [], row_decltypes = []\<rparr>)
      = Inr (column_ref std_packages DT_REAL its, ws)
    \<and> map (final DT_REAL) its = [CReal (f64_of_int 7), CReal NA_REAL, CReal 0x3FF8000000000000]"
  using real_column_exact [of std_packages
      "[\<lparr>row_values = [SqlInt 7], row_decltypes = []\<rparr>, \<lparr>row_values = [SqlNull], row_decltypes = []\<rparr>,
        \<lparr>row_values = [SqlFloat 0x3FF8000000000000], row_decltypes = []\<rparr>]" 0 undefined undefined 2
      "\<lparr>row_values = [], row_decltypes = []\<rparr>"]
  by (simp add: columnMem_def present_def sqlite_column_source_def sqlite_is_null_def
      sqlite_get_data_type_def sqlite3_column_defs needs_64_bit_def real_cell_def Let_def)

subsubsection \<open>Types, warnings, termination\<close>

context column_source_contract
begin

lemma column_run_holds:
  assumes P: "packages_keep_data P"
    and run: "foldE (set_col_value P) (column_new P dt n_max) (map src rs) = Inr (c, ws)"
  shows "column_holds dt rs c"
proof -
  obtain its ws' where its: "read_items (start_type dt) (map src rs) = Inr (its, ws')"
    using read_items_total by blast
  with set_col_values_ok [OF P column_new_rep [OF P] its, of n_max] run show ?thesis
    by (auto simp: column_holds_def)
qed

end

text \<open>
  C18: the type of a column is the type of its first value that is not NULL; an integer column
  takes the type of the first larger integer or double that follows; a column without values
  has its declared type.
\<close>

theorem column_type_rule:
  assumes P: "packages_keep_data P"
    and run: "foldE (set_col_value P) (column_new P DT_UNKNOWN n_max)
      (map (sqlite_column_source T D alt j) rows) = Inr (c, ws)"
  shows "column_get_type c (sqlite_column_source T D alt j end_row) =
    (case present (map (sqlite_column_source T D alt j) rows) of
       [] \<Rightarrow> sqlite_get_decl_data_type alt end_row j
     | DT_INT # ts \<Rightarrow> (case filter (\<lambda>u. u = DT_INT64 \<or> u = DT_REAL) ts of [] \<Rightarrow> DT_INT | u # _ \<Rightarrow> u)
     | t # _ \<Rightarrow> t)"
proof -
  let ?ts = "present (map (sqlite_column_source T D alt j) rows)"
  have known: "DT_UNKNOWN \<notin> set ?ts" by (rule sqlite_source.present_known)
  have "column_get_type c (sqlite_column_source T D alt j end_row) =
      out_type (decide ?ts) (sqlite_column_source T D alt j end_row)"
    using sqlite_source.column_holds_type [OF sqlite_source.column_run_holds [OF P run]]
      type_after_decide [OF known] by (simp add: start_type_def)
  then show ?thesis
    using known by (cases ?ts) (auto simp: out_type_def sqlite_column_source_def
        split: data_type.splits list.splits dest!: filter_eq_ConsD)
qed

theorem column_type_rule_witness:
  "\<exists>c ws. foldE (set_col_value std_packages) (column_new std_packages DT_UNKNOWN (-1))
      (map (sqlite_column_source undefined undefined False 0)
        [\<lparr>row_values = [SqlNull], row_decltypes = []\<rparr>, \<lparr>row_values = [SqlInt 7], row_decltypes = []\<rparr>,
         \<lparr>row_values = [SqlFloat 0], row_decltypes = []\<rparr>]) = Inr (c, ws)
    \<and> column_get_type c (sqlite_column_source undefined undefined False 0 \<lparr>row_values = [], row_decltypes = []\<rparr>) = DT_REAL"
proof -
  let ?rows = "[\<lparr>row_values = [SqlNull], row_decltypes = []\<rparr>, \<lparr>row_values = [SqlInt 7], row_decltypes = []\<rparr>,
         \<lparr>row_values = [SqlFloat 0], row_decltypes = []\<rparr>]"
  let ?src = "sqlite_column_source undefined undefined False 0"
  obtain its ws0 where "read_items (start_type DT_UNKNOWN) (map ?src ?rows) = Inr (its, ws0)"
    using sqlite_source.read_items_total by blast
  from sqlite_source.set_col_values_ok [OF std_packages_keep_data column_new_rep [OF std_packages_keep_data] this, of "-1"]
  obtain c ws where c: "foldE (set_col_value std_packages) (column_new std_packages DT_UNKNOWN (-1)) (map ?src ?rows) = Inr (c, ws)"
    by blast
  from column_type_rule [OF std_packages_keep_data this, of "\<lparr>row_values = [], row_decltypes = []\<rparr>"] c show ?thesis
    by (intro exI [of _ c] exI [of _ ws])
      (simp add: present_def sqlite_column_source_def sqlite_is_null_def sqlite_get_data_type_def
        sqlite3_column_defs columnMem_def needs_64_bit_def Let_def)
qed

text \<open>
  C19: reading a column warns about mixed types exactly when some row had a type that is
  neither the final one nor an integer that widened to it, and then names these types.
\<close>

theorem mixed_type_warning:
  assumes P: "packages_keep_data P"
    and run: "foldE (set_col_value P) (column_new P dt n_max)
      (map (sqlite_column_source T D alt j) rows) = Inr (c, ws)"
    and t: "column_get_type c (sqlite_column_source T D alt j end_row) = t"
    and bad: "bad = {u \<in> (\<lambda>row. sqlite_get_data_type T alt row j) ` set rows. \<not> compatible t u}"
  shows "warn_type_conflicts c (sqlite_column_source T D alt j end_row) name =
    (if bad = {} then ret () else warning (conflict_text name t (sorted_list_of_set bad)))"
proof -
  note holds = sqlite_source.column_run_holds [OF P run]
  have seen: "get_data_type ` sqlite_column_source T D alt j ` set rows
      = (\<lambda>row. sqlite_get_data_type T alt row j) ` set rows"
    by (simp add: image_image sqlite_column_source_def)
  have "out_type (foldl type_after (start_type dt) (map (sqlite_column_source T D alt j) rows))
      (sqlite_column_source T D alt j end_row) = t"
    using sqlite_source.column_holds_type [OF holds] t by simp
  then show ?thesis
    using sqlite_source.column_holds_warn [OF holds, of end_row name] unfolding seen bad Let_def by simp
qed

theorem mixed_type_warning_witness:
  "\<exists>c ws. foldE (set_col_value std_packages) (column_new std_packages DT_UNKNOWN (-1))
      (map (sqlite_column_source undefined undefined False 0)
        [\<lparr>row_values = [SqlInt 7], row_decltypes = []\<rparr>, \<lparr>row_values = [SqlText ''a''], row_decltypes = []\<rparr>]) = Inr (c, ws)
    \<and> warn_type_conflicts c (sqlite_column_source undefined undefined False 0 \<lparr>row_values = [], row_decltypes = []\<rparr>) ''x''
      = warning (''Column `x`: mixed type, first seen values of type integer, coercing other values of type string'')"
proof -
  let ?rows = "[\<lparr>row_values = [SqlInt 7], row_decltypes = []\<rparr>, \<lparr>row_values = [SqlText ''a''], row_decltypes = []\<rparr>]"
  let ?src = "sqlite_column_source undefined undefined False 0" and ?e = "\<lparr>row_values = [], row_decltypes = []\<rparr>"
  obtain its ws0 where "read_items (start_type DT_UNKNOWN) (map ?src ?rows) = Inr (its, ws0)"
    using sqlite_source.read_items_total by blast
  from sqlite_source.set_col_values_ok [OF std_packages_keep_data column_new_rep [OF std_packages_keep_data] this, of "-1"]
  obtain c ws where c: "foldE (set_col_value std_packages) (column_new std_packages DT_UNKNOWN (-1)) (map ?src ?rows) = Inr (c, ws)"
    by blast
  have types: "map get_data_type (map ?src ?rows) = [DT_INT, DT_STRING]" "filter is_null (map ?src ?rows) = []"
    by (simp_all add: sqlite_column_source_def sqlite_is_null_def sqlite_get_data_type_def
        sqlite3_column_defs columnMem_def needs_64_bit_def Let_def)
  have t: "column_get_type c (?src ?e) = DT_INT"
    using sqlite_source.column_holds_type [OF sqlite_source.column_run_holds [OF std_packages_keep_data c], of ?e] types
    by (simp add: start_type_def type_after_def next_type_def out_type_def split: if_splits)
  have "{u \<in> (\<lambda>row. sqlite_get_data_type undefined False row 0) ` set ?rows. \<not> compatible DT_INT u} = {DT_STRING}"
    by (auto simp: compatible_def widens_def sqlite_get_data_type_def sqlite3_column_defs columnMem_def
        needs_64_bit_def Let_def)
  from mixed_type_warning [OF std_packages_keep_data c t this [symmetric], of "''x''"] c show ?thesis
    by (intro exI [of _ c] exI [of _ ws]) (simp add: conflict_text_def)
qed

text \<open>
  C20: appending a value that is not NULL to a chunk always ends, in the chunk or in a new one
  that holds just this value, whatever the chunk's type, fill and capacity.
\<close>

theorem append_data_terminates:
  assumes P: "packages_keep_data P" and rep: "storage_rep st its" and row: "\<not> sqlite_is_null row j"
  shows "\<exists>fresh st' c ws. append_data P False st (sqlite_column_source T D alt j row) = Some (Inr ((fresh, st'), ws))
    \<and> storage_rep st' (if fresh then [Some c] else its @ [Some c])
    \<and> sdt st' = next_type (sdt st) (sqlite_column_source T D alt j row)"
proof -
  let ?s = "sqlite_column_source T D alt j row"
  have n: "\<not> is_null ?s" using row by (simp add: sqlite_column_source_def)
  note known = sqlite_source.type_known [OF n]
  obtain c ws where c: "fetch_cell (next_type (sdt st) ?s) ?s = Inr (c, ws)"
    using sqlite_source.fetch_cell_total [OF n next_type_known [OF known]] by blast
  from append_data_ok [OF P rep known c] show ?thesis by blast
qed

theorem append_data_terminates_witness:
  "\<exists>fresh st' c ws. append_data std_packages False (storage_new std_packages DT_UNKNOWN 0 (-1))
      (sqlite_column_source undefined undefined False 0 \<lparr>row_values = [SqlInt 7], row_decltypes = []\<rparr>)
      = Some (Inr ((fresh, st'), ws)) \<and> storage_rep st' [Some c] \<and> sdt st' = DT_INT"
  using append_data_terminates [OF std_packages_keep_data storage_new_rep(1) [OF std_packages_keep_data],
      of "\<lparr>row_values = [SqlInt 7], row_decltypes = []\<rparr>" 0 DT_UNKNOWN 0 "-1" undefined undefined False]
    storage_new_rep(3) [OF std_packages_keep_data, of DT_UNKNOWN 0 "-1"]
  by (auto simp: sqlite_is_null_def sqlite3_column_defs columnMem_def next_type_def sqlite_column_source_def
      sqlite_get_data_type_def needs_64_bit_def Let_def split: if_splits)

end
