(* ===== verification/DataFrame.thy ===== *)
theory DataFrame
  imports Column
begin

text \<open>
  \<open>src/src/DbDataFrame.cpp\<close> and \<open>SqliteDataFrame.cpp\<close>: the columns of a result, filled row by
  row, and the R data frame made of them.  The factory that creates the column sources is
  \<open>mk\<close>, which gives the source of column \<open>j\<close> at the row the statement is at.

  What the data frame needs of its columns is the locale \<open>column_interface\<close>; \<open>DbColumn\<close> over
  SQLite rows is an interpretation of it.  The lemmas at the end give the data frame of a list
  of rows in closed form (\<open>frame_ref\<close>).
\<close>

subsection \<open>DbDataFrame\<close>

record data_frame =
  df_n_max :: int
  df_i :: nat
  df_data :: "column list"
  df_names :: "string list"

definition data_frame_new :: "r_packages \<Rightarrow> string list \<Rightarrow> int \<Rightarrow> data_type list \<Rightarrow> data_frame" where
  "data_frame_new P names n_max types =
     \<lparr>df_n_max = n_max, df_i = 0, df_data = map (\<lambda>dt. column_new P dt n_max) types, df_names = names\<rparr>"

definition set_col_values ::
  "r_packages \<Rightarrow> (nat \<Rightarrow> column_source) \<Rightarrow> data_frame \<Rightarrow> data_frame eff" where
  "set_col_values P mk df =
     ebind (mapE (\<lambda>(j, c). set_col_value P c (mk j)) (enumerate 0 (df_data df)))
       (\<lambda>cs. ret (df\<lparr>df_data := cs\<rparr>))"

text \<open>\<open>interrupted\<close> says that the user asked for an interrupt before the check.\<close>

definition advance :: "bool \<Rightarrow> data_frame \<Rightarrow> (bool \<times> data_frame) res" where
  "advance interrupted df =
     (let df = df\<lparr>df_i := Suc (df_i df)\<rparr> in
      if df_i df mod 1024 = 0 \<and> interrupted then Inl Interrupt
      else Inr (df_n_max df < 0 \<or> int (df_i df) < df_n_max df, df))"

definition finalize_cols :: "data_frame \<Rightarrow> data_frame" where
  "finalize_cols df = df\<lparr>df_data := map (column_finalize (df_i df)) (df_data df)\<rparr>"

definition get_ncols :: "data_frame \<Rightarrow> nat" where
  "get_ncols df = length (df_data df)"

text \<open>An R list with the attributes of a data frame.\<close>

record r_data_frame =
  rdf_columns :: "robj list"
  rdf_names :: "string list"
  rdf_class :: string
  rdf_row_names :: "i32 list"

definition get_data ::
  "r_packages \<Rightarrow> (nat \<Rightarrow> column_source) \<Rightarrow> data_frame \<Rightarrow> (data_type list \<times> r_data_frame) eff" where
  "get_data P mk df =
     (let df = finalize_cols df; cols = enumerate 0 (df_data df);
          types = map (\<lambda>(j, c). column_get_type c (mk j)) cols in
      ebind (mapE (\<lambda>((j, c), name). warn_type_conflicts c (mk j) name) (zip cols (df_names df))) (\<lambda>_.
      ebind (mapE (\<lambda>(j, c). lift_res (column_sexp P c (mk j))) cols) (\<lambda>out.
      ret (types, \<lparr>rdf_columns = out, rdf_names = df_names df, rdf_class = ''data.frame'',
                   rdf_row_names = [NA_INTEGER, - of_nat (df_i df)]\<rparr>))))"

text \<open>\<open>get_data()\<close> without an argument throws the types away.\<close>

definition get_data_only ::
  "r_packages \<Rightarrow> (nat \<Rightarrow> column_source) \<Rightarrow> data_frame \<Rightarrow> r_data_frame eff" where
  "get_data_only P mk df = ebind (get_data P mk df) (\<lambda>(types, out). ret out)"

subsection \<open>The interface of a column\<close>

text \<open>
  \<open>holds j rs c\<close>: column \<open>j\<close> took the rows \<open>rs\<close> and is now \<open>c\<close>; \<open>warns j rs r\<close> are the warnings
  of the next row.
\<close>

locale column_interface =
  fixes holds :: "nat \<Rightarrow> 'row list \<Rightarrow> 'c \<Rightarrow> bool"
    and put :: "nat \<Rightarrow> 'c \<Rightarrow> 'row \<Rightarrow> 'c eff"
    and warns :: "nat \<Rightarrow> 'row list \<Rightarrow> 'row \<Rightarrow> string list"
  assumes put_holds:
    "holds j rs c \<Longrightarrow> \<exists>c'. put j c r = Inr (c', warns j rs r) \<and> holds j (rs @ [r]) c'"
begin

definition all_hold :: "nat \<Rightarrow> 'row list \<Rightarrow> 'c list \<Rightarrow> bool" where
  "all_hold k rs cs \<longleftrightarrow> (\<forall>i<length cs. holds (k + i) rs (cs ! i))"

lemma all_hold_Cons: "all_hold k rs (c # cs) \<longleftrightarrow> holds k rs c \<and> all_hold (Suc k) rs cs"
  by (auto simp: all_hold_def nth_Cons split: nat.splits)

text \<open>One row of all columns.\<close>

lemma put_row:
  assumes "all_hold k rs cs"
  shows "\<exists>cs'. mapE (\<lambda>(j, c). put j c r) (enumerate k cs)
      = Inr (cs', concat (map (\<lambda>j. warns j rs r) [k..<k + length cs]))
    \<and> length cs' = length cs \<and> all_hold k (rs @ [r]) cs'"
  using assms
proof (induction cs arbitrary: k)
  case Nil
  then show ?case by (simp add: ret_def all_hold_def)
next
  case (Cons c cs)
  then have "holds k rs c" "all_hold (Suc k) rs cs" by (simp_all add: all_hold_Cons)
  then obtain c' cs' where "put k c r = Inr (c', warns k rs r)" "holds k (rs @ [r]) c'"
    "mapE (\<lambda>(j, c). put j c r) (enumerate (Suc k) cs)
       = Inr (cs', concat (map (\<lambda>j. warns j rs r) [Suc k..<Suc k + length cs]))"
    "length cs' = length cs" "all_hold (Suc k) (rs @ [r]) cs'"
    using put_holds [of k rs c r] Cons.IH [of "Suc k"] by auto
  then show ?case
    by (auto simp: ebind_def ret_def all_hold_Cons upt_conv_Cons simp del: upt_Suc
        intro!: exI [of _ "c' # cs'"])
qed

end

subsection \<open>DbColumn over SQLite rows\<close>

text \<open>The parts of one pass, as functions of the rows.\<close>

definition type_at :: "data_type \<Rightarrow> column_source list \<Rightarrow> data_type" where
  "type_at dt ss = foldl type_after (start_type dt) ss"

definition items_of :: "data_type \<Rightarrow> column_source list \<Rightarrow> item list" where
  "items_of dt ss = (case read_items (start_type dt) ss of Inl _ \<Rightarrow> [] | Inr (its, _) \<Rightarrow> its)"

definition warnings_at :: "data_type \<Rightarrow> column_source list \<Rightarrow> column_source \<Rightarrow> string list" where
  "warnings_at dt ss s = (case read_item (type_at dt ss) s of Inl _ \<Rightarrow> [] | Inr (_, ws) \<Rightarrow> ws)"

interpretation sqlite_column: column_interface
  "\<lambda>j rs c. packages_keep_data P \<and> j < length types \<and>
     sqlite_source.column_holds T D alt j (types ! j) rs c"
  "\<lambda>j c r. set_col_value P c (sqlite_column_source T D alt j r)"
  "\<lambda>j rs r. warnings_at (types ! j) (map (sqlite_column_source T D alt j) rs)
     (sqlite_column_source T D alt j r)"
  for P types T D alt
proof
  fix j rs c r
  assume h: "packages_keep_data P \<and> j < length types \<and>
     sqlite_source.column_holds T D alt j (types ! j) rs c"
  then show "\<exists>c'. set_col_value P c (sqlite_column_source T D alt j r)
      = Inr (c', warnings_at (types ! j) (map (sqlite_column_source T D alt j) rs)
                  (sqlite_column_source T D alt j r))
    \<and> packages_keep_data P \<and> j < length types \<and>
      sqlite_source.column_holds T D alt j (types ! j) (rs @ [r]) c'"
    using sqlite_source.column_holds_step [of P T D alt j "types ! j" rs c r]
    by (auto simp: warnings_at_def type_at_def)
qed

subsection \<open>What a data frame holds\<close>

definition df_holds ::
  "r_packages \<Rightarrow> text_conv \<Rightarrow> date_parsers \<Rightarrow> bool \<Rightarrow> data_type list \<Rightarrow> sqlite_row list \<Rightarrow> data_frame \<Rightarrow> bool" where
  "df_holds P T D alt types rs df \<longleftrightarrow> length (df_data df) = length types \<and>
     sqlite_column.all_hold P types T D alt 0 rs (df_data df)"

definition row_warnings ::
  "text_conv \<Rightarrow> date_parsers \<Rightarrow> bool \<Rightarrow> data_type list \<Rightarrow> sqlite_row list \<Rightarrow> sqlite_row \<Rightarrow> string list" where
  "row_warnings T D alt types rs r =
     concat (map (\<lambda>j. warnings_at (types ! j) (map (sqlite_column_source T D alt j) rs)
       (sqlite_column_source T D alt j r)) [0..<length types])"

lemma df_holds_new:
  assumes "packages_keep_data P"
  shows "df_holds P T D alt types [] (data_frame_new P names n_max types)"
  unfolding df_holds_def sqlite_column.all_hold_def
  using assms sqlite_source.column_holds_new [OF assms] by (simp add: data_frame_new_def)

lemma set_col_values_df:
  assumes "df_holds P T D alt types rs df"
  shows "\<exists>df'. set_col_values P (\<lambda>j. sqlite_column_source T D alt j r) df
      = Inr (df', row_warnings T D alt types rs r)
    \<and> df_holds P T D alt types (rs @ [r]) df'
    \<and> df_i df' = df_i df \<and> df_n_max df' = df_n_max df \<and> df_names df' = df_names df"
proof -
  have h: "sqlite_column.all_hold P types T D alt 0 rs (df_data df)" "length (df_data df) = length types"
    using assms by (simp_all add: df_holds_def)
  obtain cs where cs: "mapE (\<lambda>(j, c). set_col_value P c (sqlite_column_source T D alt j r)) (enumerate 0 (df_data df))
      = Inr (cs, row_warnings T D alt types rs r)"
    "length cs = length (df_data df)" "sqlite_column.all_hold P types T D alt 0 (rs @ [r]) cs"
    using sqlite_column.put_row [OF h(1), of r] h(2) by (auto simp: row_warnings_def)
  then show ?thesis
    using h(2) by (auto simp: set_col_values_def ebind_def ret_def df_holds_def)
qed

subsection \<open>The data frame of the rows in closed form\<close>

definition out_types ::
  "text_conv \<Rightarrow> date_parsers \<Rightarrow> bool \<Rightarrow> data_type list \<Rightarrow> sqlite_row list \<Rightarrow> sqlite_row \<Rightarrow> data_type list" where
  "out_types T D alt types rs e =
     map (\<lambda>j. out_type (type_at (types ! j) (map (sqlite_column_source T D alt j) rs))
                (sqlite_column_source T D alt j e)) [0..<length types]"

text \<open>\<open>keep\<close> is false for \<open>peek_first_row\<close>, whose data frame has no rows.\<close>

definition frame_ref ::
  "r_packages \<Rightarrow> text_conv \<Rightarrow> date_parsers \<Rightarrow> bool \<Rightarrow> data_type list \<Rightarrow> string list \<Rightarrow>
     sqlite_row list \<Rightarrow> bool \<Rightarrow> sqlite_row \<Rightarrow> r_data_frame" where
  "frame_ref P T D alt types names rs keep e =
     \<lparr>rdf_columns = map (\<lambda>j. column_ref P (out_types T D alt types rs e ! j)
         (if keep then items_of (types ! j) (map (sqlite_column_source T D alt j) rs) else []))
         [0..<length types],
      rdf_names = names, rdf_class = ''data.frame'',
      rdf_row_names = [NA_INTEGER, - of_nat (if keep then length rs else 0)]\<rparr>"

definition mixed_types ::
  "text_conv \<Rightarrow> date_parsers \<Rightarrow> bool \<Rightarrow> data_type list \<Rightarrow> sqlite_row list \<Rightarrow> sqlite_row \<Rightarrow> nat \<Rightarrow> data_type set" where
  "mixed_types T D alt types rs e j =
     {u \<in> get_data_type ` sqlite_column_source T D alt j ` set rs.
        \<not> compatible (out_types T D alt types rs e ! j) u}"

definition conflict_warnings ::
  "text_conv \<Rightarrow> date_parsers \<Rightarrow> bool \<Rightarrow> data_type list \<Rightarrow> string list \<Rightarrow> sqlite_row list \<Rightarrow> sqlite_row \<Rightarrow> string list" where
  "conflict_warnings T D alt types names rs e =
     concat (map (\<lambda>j. if mixed_types T D alt types rs e j = {} then []
       else [conflict_text (names ! j) (out_types T D alt types rs e ! j)
               (sorted_list_of_set (mixed_types T D alt types rs e j))]) [0..<length types])"

lemma column_finalize_type [simp]:
  "column_get_type (column_finalize n c) e = column_get_type c e"
  "warn_type_conflicts (column_finalize n c) e name = warn_type_conflicts c e name"
  by (simp_all add: column_finalize_def column_get_type_def warn_type_conflicts_def get_last_storage_def Let_def)

lemma get_data_ok:
  assumes df: "df_holds P T D alt types rs df"
    and n: "df_i df = (if keep then length rs else 0)"
    and names: "length (df_names df) = length types"
  shows "get_data P (\<lambda>j. sqlite_column_source T D alt j e) df =
    Inr ((out_types T D alt types rs e, frame_ref P T D alt types (df_names df) rs keep e),
         conflict_warnings T D alt types (df_names df) rs e)"
proof -
  let ?src = "\<lambda>j. sqlite_column_source T D alt j" and ?cs = "df_data (finalize_cols df)"
  let ?t = "\<lambda>j. out_types T D alt types rs e ! j"
  have len: "length ?cs = length types" "length (df_data df) = length types"
    using df by (simp_all add: df_holds_def finalize_cols_def)
  have c: "packages_keep_data P" "sqlite_source.column_holds T D alt j (types ! j) rs (df_data df ! j)"
    "?cs ! j = column_finalize (df_i df) (df_data df ! j)"
    "?t j = out_type (foldl type_after (start_type (types ! j)) (map (?src j) rs)) (?src j e)"
    if "j < length types" for j
    using df that
    by (auto simp: df_holds_def sqlite_column.all_hold_def finalize_cols_def out_types_def type_at_def)
  have sexp: "column_sexp P (?cs ! j) (?src j e) = Inr (rdf_columns (frame_ref P T D alt types (df_names df) rs keep e) ! j)"
    if j: "j < length types" for j
  proof (cases keep)
    case True
    obtain its ws where its: "read_items (start_type (types ! j)) (map (?src j) rs) = Inr (its, ws)"
      using sqlite_source.read_items_total by blast
    from sqlite_source.column_holds_sexp [OF c(1,2) [OF j] this, of e] show ?thesis
      using True n j its by (simp add: c(3,4) frame_ref_def items_of_def)
  next
    case False
    from sqlite_source.column_holds_sexp_0 [OF c(1,2) [OF j], of e] show ?thesis
      using False n j by (simp add: c(3,4) frame_ref_def)
  qed
  have types: "map (\<lambda>(j, c). column_get_type c (?src j e)) (enumerate 0 ?cs) = out_types T D alt types rs e"
    using sqlite_source.column_holds_type [OF c(2)] len
    by (intro nth_equalityI) (auto simp: nth_enumerate_eq c(3,4), simp_all add: out_types_def)
  have out: "mapE (\<lambda>(j, c). lift_res (column_sexp P c (?src j e))) (enumerate 0 ?cs)
      = ret (rdf_columns (frame_ref P T D alt types (df_names df) rs keep e))"
  proof (subst mapE_nth_pure)
    fix k
    assume "k < length (enumerate 0 ?cs)"
    then show "(case enumerate 0 ?cs ! k of (j, c) \<Rightarrow> lift_res (column_sexp P c (?src j e)))
        = ret (rdf_columns (frame_ref P T D alt types (df_names df) rs keep e) ! k)"
      by (simp add: nth_enumerate_eq len sexp)
  next
    have "length (rdf_columns (frame_ref P T D alt types (df_names df) rs keep e)) = length types"
      by (simp add: frame_ref_def)
    from map_nth [of "rdf_columns (frame_ref P T D alt types (df_names df) rs keep e)", unfolded this]
    show "ret (map (\<lambda>k. rdf_columns (frame_ref P T D alt types (df_names df) rs keep e) ! k)
          [0..<length (enumerate 0 ?cs)])
        = ret (rdf_columns (frame_ref P T D alt types (df_names df) rs keep e))"
      by (simp add: len)
  qed
  let ?w = "\<lambda>j. if mixed_types T D alt types rs e j = {} then []
       else [conflict_text (df_names df ! j) (?t j) (sorted_list_of_set (mixed_types T D alt types rs e j))]"
  have warn: "warn_type_conflicts (?cs ! j) (?src j e) name = Inr ((), if mixed_types T D alt types rs e j = {} then []
       else [conflict_text name (?t j) (sorted_list_of_set (mixed_types T D alt types rs e j))])"
    if j: "j < length types" for j name
    using sqlite_source.column_holds_warn [OF c(2) [OF j], of e name] j
    by (simp add: c(3) Let_def mixed_types_def c(4) [OF j, symmetric] ret_def warning_def)
  have warns: "mapE (\<lambda>((j, c), name). warn_type_conflicts c (?src j e) name) (zip (enumerate 0 ?cs) (df_names df))
      = Inr (map (\<lambda>_. ()) [0..<length types], conflict_warnings T D alt types (df_names df) rs e)"
    using mapE_nth [of "zip (enumerate 0 ?cs) (df_names df)"
        "\<lambda>((j, c), name). warn_type_conflicts c (?src j e) name" "\<lambda>_. ()" ?w]
    by (simp add: nth_enumerate_eq len names warn conflict_warnings_def)
  have fin: "df_names (finalize_cols df) = df_names df" "df_i (finalize_cols df) = df_i df"
    by (simp_all add: finalize_cols_def)
  show ?thesis
    unfolding get_data_def Let_def types fin warns out n
    by (simp add: ebind_def ret_def frame_ref_def)
qed

end
