(* ===== verification/ResultImpl.thy ===== *)
theory ResultImpl
  imports DataFrame
begin

text \<open>
  \<open>src/src/SqliteResultImpl.cpp\<close>: a prepared statement being run.  A statement with parameters
  is run once for every group, the \<open>k\<close>-th elements of all parameter vectors; stepping past the
  last row of a group binds the next one, so that \<open>fetch\<close> sees one sequence of rows.

  SQLite's statement interface is the record \<open>stmt_env\<close>: the functions the code calls on a
  statement, over an abstract statement state \<open>'vm\<close> that includes the database it runs on.
  Operations are actions on the object, so its state after an exception is part of the model.
\<close>

subsection \<open>The interface of SQLite and of the other packages\<close>

datatype step_rc = SQLITE_DONE | SQLITE_ROW | SQLITE_FAILED

record 'vm stmt_env =
  sqlite3_step :: "'vm \<Rightarrow> step_rc \<times> 'vm"
  sqlite3_reset :: "'vm \<Rightarrow> 'vm"
  sqlite3_clear_bindings :: "'vm \<Rightarrow> 'vm"
  sqlite3_bind :: "'vm \<Rightarrow> nat \<Rightarrow> sqlite_value \<Rightarrow> 'vm"
  stmt_row :: "'vm \<Rightarrow> sqlite_row"
  sqlite3_column_count :: "'vm \<Rightarrow> nat"
  sqlite3_column_name :: "'vm \<Rightarrow> nat \<Rightarrow> string"
  sqlite3_bind_parameter_count :: "'vm \<Rightarrow> nat"
  sqlite3_bind_parameter_name :: "'vm \<Rightarrow> nat \<Rightarrow> string option"
  sqlite3_total_changes :: "'vm \<Rightarrow> i32"
  sqlite3_errmsg :: "'vm \<Rightarrow> string"
  env_packages :: r_packages
  env_text :: text_conv
  env_dates :: date_parsers

text \<open>What \<open>sqlite3_prepare_v2\<close> leaves: an error message, or a statement and the tail.\<close>

datatype 'vm prepared = PrepareError string | Prepared 'vm "string option"

subsection \<open>SqliteResultImpl\<close>

record 'vm result_impl =
  ri_stmt :: 'vm
  ri_names :: "string list"
  ri_nparams :: nat
  ri_complete :: bool
  ri_ready :: bool
  ri_nrows :: nat
  ri_total_changes_start :: i32
  ri_params :: "robj list"
  ri_group :: nat
  ri_groups :: nat
  ri_types :: "data_type list"
  ri_with_alt_types :: bool

definition isspace :: "char \<Rightarrow> bool" where
  "isspace c \<longleftrightarrow> c \<in> {CHR '' '', CHR 0x09, CHR 0x0A, CHR 0x0B, CHR 0x0C, CHR 0x0D}"

definition prepare :: "'vm prepared \<Rightarrow> 'vm eff" where
  "prepare p =
     (case p of
        PrepareError msg \<Rightarrow> Inl (Stop msg)
      | Prepared stmt None \<Rightarrow> ret stmt
      | Prepared stmt (Some tail) \<Rightarrow>
          (let rest = dropWhile isspace (c_str tail) in
           if rest = [] then ret stmt
           else ebind (warning (''Ignoring remaining part of query: '' @ rest)) (\<lambda>_. ret stmt)))"

definition get_initial_field_types :: "nat \<Rightarrow> data_type list" where
  "get_initial_field_types ncols = replicate ncols DT_UNKNOWN"

definition result_init :: "bool \<Rightarrow> ('vm result_impl, unit) act" where
  "result_init params_have_rows =
     amodify (\<lambda>r. r\<lparr>ri_ready := True, ri_nrows := 0, ri_complete := \<not> params_have_rows\<rparr>)"

definition result_close :: "('vm result_impl, unit) act" where
  "result_close = areturn ()"

definition result_complete :: "'vm result_impl \<Rightarrow> bool" where
  "result_complete r \<longleftrightarrow> ri_complete r"

definition n_rows_fetched :: "'vm result_impl \<Rightarrow> i32" where
  "n_rows_fetched r = of_nat (ri_nrows r)"

definition n_rows_affected :: "'vm stmt_env \<Rightarrow> 'vm result_impl \<Rightarrow> i32" where
  "n_rows_affected env r =
     (if \<not> ri_ready r then NA_INTEGER
      else sqlite3_total_changes env (ri_stmt r) - ri_total_changes_start r)"

text \<open>An error of SQLite reaches R with the message SQLite keeps for the connection.\<close>

definition raise_sqlite_exception :: "'vm stmt_env \<Rightarrow> 'vm \<Rightarrow> r_error" where [simp]:
  "raise_sqlite_exception env stmt = Stop (sqlite3_errmsg env stmt)"

subsubsection \<open>Binding parameters\<close>

definition set_params :: "robj list \<Rightarrow> 'vm result_impl \<Rightarrow> 'vm result_impl" where [simp]:
  "set_params params r = r\<lparr>ri_params := params\<rparr>"

fun read_raw :: "byte option list \<Rightarrow> byte list res" where
  "read_raw [] = Inr []"
| "read_raw (None # bs) = Inl (UB ''uninitialised cell'')"
| "read_raw (Some b # bs) = rbind (read_raw bs) (\<lambda>bs'. Inr (b # bs'))"

text \<open>
  The value that \<open>bind_parameter_pos\<close> hands to \<open>sqlite3_bind_*\<close> for element \<open>g\<close> of a
  parameter.  \<open>sqlite3_bind_double\<close> goes through \<open>sqlite3VdbeMemSetDouble\<close>; text and
  \<open>CHAR(x)\<close> end at the first NUL.
\<close>

definition bind_value :: "robj \<Rightarrow> nat \<Rightarrow> sqlite_value res" where
  "bind_value x g =
     (let data = rdata x in
      if TYPEOF data = LGLSXP then
        rbind (LOGICAL data g) (\<lambda>value. Inr (if value = NA_LOGICAL then SqlNull else SqlInt (scast value)))
      else if TYPEOF data = INT64SXP \<and> ''integer64'' \<in> set (rclass x) then
        rbind (INTEGER64 data g) (\<lambda>value. Inr (if value = NA_INTEGER64 then SqlNull else SqlInt value))
      else if TYPEOF data = INTSXP then
        rbind (INTEGER data g) (\<lambda>value. Inr (if value = NA_INTEGER then SqlNull else SqlInt (scast value)))
      else if TYPEOF data = REALSXP then
        rbind (REAL data g) (\<lambda>value. Inr (if f64_eq value NA_REAL then SqlNull else sqlite3VdbeMemSetDouble value))
      else if TYPEOF data = STRSXP then
        rbind (STRING_ELT data g) (\<lambda>value. Inr (case value of NA_STRING \<Rightarrow> SqlNull | RString s \<Rightarrow> SqlText (c_str s)))
      else if TYPEOF data = VECSXP then
        rbind (VECTOR_ELT data g) (\<lambda>value. case value of
            NilSXP \<Rightarrow> Inr SqlNull
          | RawSXP bs \<Rightarrow> rbind (read_raw bs) (\<lambda>b. Inr (SqlBlob b))
          | _ \<Rightarrow> Inl (Stop ''Can only bind lists of raw vectors (or NULL)''))
      else Inl (Stop (''Don't know how to handle parameter of type '' @ Rf_type2char (TYPEOF data) @ ''.'')))"

definition bind_parameter_pos :: "'vm stmt_env \<Rightarrow> nat \<times> robj \<Rightarrow> ('vm result_impl, unit) act" where
  "bind_parameter_pos env p r =
     (case bind_value (snd p) (ri_group r) of
        Inl e \<Rightarrow> (Inl e, r, [])
      | Inr v \<Rightarrow> (Inr (), r\<lparr>ri_stmt := sqlite3_bind env (ri_stmt r) (fst p) v\<rparr>, []))"

definition bind_row :: "'vm stmt_env \<Rightarrow> ('vm result_impl, bool) act" where
  "bind_row env r =
     (if ri_group r \<ge> ri_groups r then areturn False r
      else let stmt = sqlite3_clear_bindings env (sqlite3_reset env (ri_stmt r)) in
        abind (afor (bind_parameter_pos env) (enumerate 1 (ri_params r)))
          (\<lambda>_. areturn True) (r\<lparr>ri_stmt := stmt\<rparr>))"

subsubsection \<open>Stepping\<close>

definition step_done :: "'vm stmt_env \<Rightarrow> ('vm result_impl, bool) act" where
  "step_done env r =
     abind (bind_row env) (\<lambda>more_params s.
        (Inr more_params, if more_params then s else s\<lparr>ri_complete := True\<rparr>, []))
       (r\<lparr>ri_group := Suc (ri_group r)\<rparr>)"

definition step_run :: "'vm stmt_env \<Rightarrow> ('vm result_impl, bool) act" where
  "step_run env r =
     (case sqlite3_step env (ri_stmt r) of (rc, stmt) \<Rightarrow>
        let r' = r\<lparr>ri_stmt := stmt\<rparr> in
        case rc of
          SQLITE_DONE \<Rightarrow> step_done env r'
        | SQLITE_ROW \<Rightarrow> areturn False r'
        | SQLITE_FAILED \<Rightarrow> athrow (raise_sqlite_exception env stmt) r')"

text \<open>Binding touches the statement only.\<close>

definition stmt_only :: "'vm result_impl \<Rightarrow> 'vm result_impl \<Rightarrow> bool" where
  "stmt_only r s \<longleftrightarrow> s = r\<lparr>ri_stmt := ri_stmt s\<rparr>"

lemma stmt_only_refl: "stmt_only r r"
  by (simp add: stmt_only_def)

lemma stmt_only_trans: "stmt_only r s \<Longrightarrow> stmt_only s t \<Longrightarrow> stmt_only r t"
  unfolding stmt_only_def by (metis result_impl.update_convs(1) result_impl.surjective result_impl.select_convs(1))

lemma bind_row_stmt_only: "stmt_only r (fst (snd (bind_row env r)))"
proof (cases "ri_group r \<ge> ri_groups r")
  case False
  let ?r = "r\<lparr>ri_stmt := sqlite3_clear_bindings env (sqlite3_reset env (ri_stmt r))\<rparr>"
  have "stmt_only ?r (fst (snd (afor (bind_parameter_pos env) (enumerate 1 (ri_params r)) ?r)))"
    by (rule afor_keeps [where Q = stmt_only])
      (auto simp: bind_parameter_pos_def stmt_only_def split: sum.splits
        intro: stmt_only_trans [unfolded stmt_only_def])
  moreover have "stmt_only r ?r" by (simp add: stmt_only_def)
  ultimately show ?thesis
    using False stmt_only_trans
    by (auto simp: bind_row_def abind_def areturn_def Let_def split: prod.splits sum.splits)
qed (simp add: bind_row_def areturn_def stmt_only_refl)

lemma bind_row_True:
  "bind_row env r = (Inr True, s, ws) \<Longrightarrow> ri_group r < ri_groups r"
  by (auto simp: bind_row_def areturn_def split: if_splits)

lemma stmt_only_fields:
  assumes "stmt_only r s"
  shows "ri_names s = ri_names r" "ri_nparams s = ri_nparams r" "ri_complete s = ri_complete r"
    "ri_ready s = ri_ready r" "ri_nrows s = ri_nrows r" "ri_params s = ri_params r"
    "ri_total_changes_start s = ri_total_changes_start r"
    "ri_group s = ri_group r" "ri_groups s = ri_groups r" "ri_types s = ri_types r"
    "ri_with_alt_types s = ri_with_alt_types r"
  using assms by (cases r; cases s; simp add: stmt_only_def)+

lemma step_run_more:
  assumes "step_run env r = (Inr True, s, ws)"
  shows "ri_group s = Suc (ri_group r) \<and> ri_groups s = ri_groups r \<and> ri_group s < ri_groups s"
proof -
  obtain stmt where "sqlite3_step env (ri_stmt r) = (SQLITE_DONE, stmt)"
    "step_done env (r\<lparr>ri_stmt := stmt\<rparr>) = (Inr True, s, ws)"
    using assms by (auto simp: step_run_def Let_def areturn_def athrow_def split: prod.splits step_rc.splits)
  then obtain ws' where b: "bind_row env (r\<lparr>ri_stmt := stmt, ri_group := Suc (ri_group r)\<rparr>) = (Inr True, s, ws')"
    by (auto simp: step_done_def abind_eq_Inr split: if_splits)
  then have "stmt_only (r\<lparr>ri_stmt := stmt, ri_group := Suc (ri_group r)\<rparr>) s"
    using bind_row_stmt_only [of "r\<lparr>ri_stmt := stmt, ri_group := Suc (ri_group r)\<rparr>" env] by simp
  from stmt_only_fields(8,9) [OF this] bind_row_True [OF b] show ?thesis by simp
qed

text \<open>\<open>while (step_run ()) ;\<close> ends, since each further turn binds the next group.\<close>

function step :: "'vm stmt_env \<Rightarrow> ('vm result_impl, unit) act" where
  "step env r =
     (case step_run env r of
        (Inl e, s, ws) \<Rightarrow> (Inl e, s, ws)
      | (Inr again, s, ws) \<Rightarrow>
          if again then (case step env s of (x, t, ws') \<Rightarrow> (x, t, ws @ ws')) else (Inr (), s, ws))"
  by pat_completeness auto
termination
  by (relation "measure (\<lambda>(env, r). ri_groups r - ri_group r)") (auto dest!: step_run_more [OF sym])

declare step.simps [simp del]

definition after_bind :: "'vm stmt_env \<Rightarrow> bool \<Rightarrow> ('vm result_impl, unit) act" where
  "after_bind env params_have_rows =
     abind (result_init params_have_rows)
       (\<lambda>_. if params_have_rows then step env else areturn ())"

text \<open>
  The constructor: the members, then the first step of a statement without parameters.  A
  failure finalizes the statement and there is no object; \<open>conn\<close> is false when the connection
  is closed.
\<close>

definition get_column_names :: "'vm stmt_env \<Rightarrow> 'vm \<Rightarrow> string list" where
  "get_column_names env stmt = map (sqlite3_column_name env stmt) [0..<sqlite3_column_count env stmt]"

text \<open>\<open>_cache\<close>: the names, how many they are, and the number of parameters.\<close>

definition cache_new :: "'vm stmt_env \<Rightarrow> 'vm \<Rightarrow> string list \<times> nat \<times> nat" where
  [simp]: "cache_new env stmt =
     (let names = get_column_names env stmt in (names, length names, sqlite3_bind_parameter_count env stmt))"

definition result_impl_start :: "'vm stmt_env \<Rightarrow> bool \<Rightarrow> 'vm \<Rightarrow> 'vm result_impl" where
  "result_impl_start env with_alt_types stmt =
     (let (names, ncols, nparams) = cache_new env stmt in
      \<lparr>ri_stmt = stmt, ri_names = names,
       ri_nparams = nparams,
       ri_complete = False, ri_ready = False, ri_nrows = 0,
       ri_total_changes_start = sqlite3_total_changes env stmt,
       ri_params = [], ri_group = 0, ri_groups = 0,
       ri_types = get_initial_field_types ncols,
       ri_with_alt_types = with_alt_types\<rparr>)"

definition result_impl_open :: "'vm stmt_env \<Rightarrow> ('vm result_impl, unit) act" where
  "result_impl_open env r = (if ri_nparams r = 0 then after_bind env True r else areturn () r)"

definition result_impl_new ::
  "'vm stmt_env \<Rightarrow> bool \<Rightarrow> bool \<Rightarrow> 'vm prepared \<Rightarrow> 'vm result_impl eff" where
  "result_impl_new env conn with_alt_types p =
     (if \<not> conn then Inl (Stop ''disconnected'')
      else ebind (prepare p) (\<lambda>stmt.
        case result_impl_open env (result_impl_start env with_alt_types stmt) of
          (Inl e, _, _) \<Rightarrow> Inl e
        | (Inr _, r', ws) \<Rightarrow> Inr (r', ws)))"

definition result_bind :: "'vm stmt_env \<Rightarrow> robj list \<Rightarrow> ('vm result_impl, unit) act" where
  "result_bind env params r =
     (if ri_nparams r = 0 then athrow (Stop ''Query does not require parameters.'') r
      else if length params \<noteq> ri_nparams r
      then athrow (Stop (''Query requires '' @ show_nat (ri_nparams r) @ '' params; '' @
             show_nat (length params) @ '' supplied.'')) r
      else abind (bind_row env) (\<lambda>has_params. after_bind env has_params)
        ((set_params params r)\<lparr>ri_groups := Rf_xlength (rdata (hd params)), ri_group := 0,
           ri_total_changes_start := sqlite3_total_changes env (ri_stmt r)\<rparr>))"

subsubsection \<open>Fetching\<close>

text \<open>The factory \<open>SqliteDataFrame\<close>'s constructor makes, and the source it creates for column \<open>j\<close>.\<close>

definition stmt_factory :: "'vm stmt_env \<Rightarrow> 'vm result_impl \<Rightarrow> sqlite_row sqlite_column_data_source_factory" where
  [simp]: "stmt_factory env r = sqlite_factory_new (stmt_row env (ri_stmt r)) (ri_with_alt_types r)"

definition stmt_source :: "'vm stmt_env \<Rightarrow> 'vm result_impl \<Rightarrow> nat \<Rightarrow> column_source" where
  "stmt_source env r j =
     source_methods (env_text env) (env_dates env) (factory_create (stmt_factory env r) j)"

text \<open>
  The loop of \<open>fetch_rows\<close>; it runs for as long as the query gives rows, so \<open>None\<close> is a fetch
  that does not return.  \<open>intr i\<close> says that the user has asked for an interrupt by row \<open>i\<close>.
\<close>

partial_function (option) fetch_loop ::
  "'vm stmt_env \<Rightarrow> (nat \<Rightarrow> bool) \<Rightarrow> data_frame \<Rightarrow> string list \<Rightarrow> 'vm result_impl \<Rightarrow>
     ((r_error + data_frame) \<times> 'vm result_impl \<times> string list) option" where
  "fetch_loop env intr df ws r =
     (if ri_complete r then Some (Inr df, r, ws)
      else case set_col_values (env_packages env) (stmt_source env r) df of
        Inl e \<Rightarrow> Some (Inl e, r, ws)
      | Inr (df1, ws1) \<Rightarrow> (case step env r of
            (Inl e, s, ws2) \<Rightarrow> Some (Inl e, s, ws @ ws1 @ ws2)
          | (Inr _, s, ws2) \<Rightarrow>
              let t = s\<lparr>ri_nrows := Suc (ri_nrows s)\<rparr> in
              (case advance (intr (Suc (df_i df1))) df1 of
                 Inl e \<Rightarrow> Some (Inl e, t, ws @ ws1 @ ws2)
               | Inr (again, df2) \<Rightarrow>
                   if again then fetch_loop env intr df2 (ws @ ws1 @ ws2) t
                   else Some (Inr df2, t, ws @ ws1 @ ws2))))"

definition no_columns_warning :: string where
  "no_columns_warning = ''`dbGetQuery()`, `dbSendQuery()` and `dbFetch()` should only be used with `SELECT` queries. Did you mean `dbExecute()`, `dbSendStatement()` or `dbGetRowsAffected()`?''"

text \<open>\<open>data.get_data(types_)\<close>, which also stores the types the next fetch starts with.\<close>

definition take_data :: "'vm stmt_env \<Rightarrow> data_frame \<Rightarrow> ('vm result_impl, r_data_frame) act" where
  "take_data env df r =
     abind (alift (get_data (env_packages env) (stmt_source env r) df))
       (\<lambda>(types, out) s. (Inr out, s\<lparr>ri_types := types\<rparr>, [])) r"

text \<open>\<open>SqliteDataFrame\<close>'s constructor; the factory it makes is \<open>stmt_source\<close>.\<close>

definition sqlite_data_frame :: "'vm stmt_env \<Rightarrow> 'vm result_impl \<Rightarrow> int \<Rightarrow> data_frame" where
  [simp]: "sqlite_data_frame env r n_max = data_frame_new (env_packages env) (ri_names r) n_max (ri_types r)"

definition fetch_rows ::
  "'vm stmt_env \<Rightarrow> (nat \<Rightarrow> bool) \<Rightarrow> int \<Rightarrow> 'vm result_impl \<Rightarrow>
     ((r_error + r_data_frame) \<times> 'vm result_impl \<times> string list) option" where
  "fetch_rows env intr n_max r =
     (let df = sqlite_data_frame env r n_max;
          ws = (if ri_complete r \<and> get_ncols df = 0 then [no_columns_warning] else []) in
      case fetch_loop env intr df ws r of
        None \<Rightarrow> None
      | Some (Inl e, s, ws') \<Rightarrow> Some (Inl e, s, ws')
      | Some (Inr df', s, ws') \<Rightarrow> (case take_data env df' s of (out, t, ws'') \<Rightarrow> Some (out, t, ws' @ ws'')))"

definition peek_first_row :: "'vm stmt_env \<Rightarrow> ('vm result_impl, r_data_frame) act" where
  "peek_first_row env r =
     (let df = sqlite_data_frame env r 1 in
      abind (alift (if ri_complete r then ret df
                    else set_col_values (env_packages env) (stmt_source env r) df))
        (take_data env) r)"

definition result_fetch ::
  "'vm stmt_env \<Rightarrow> (nat \<Rightarrow> bool) \<Rightarrow> int \<Rightarrow> 'vm result_impl \<Rightarrow>
     ((r_error + r_data_frame) \<times> 'vm result_impl \<times> string list) option" where
  "result_fetch env intr n_max r =
     (if \<not> ri_ready r then Some (athrow (Stop ''Query needs to be bound before fetching'') r)
      else if n_max \<noteq> 0 then fetch_rows env intr n_max r
      else Some (peek_first_row env r))"

fun type_name :: "data_type \<Rightarrow> string" where
  "type_name DT_DATE = ''Date''"
| "type_name DT_DATETIME = ''POSIXct''"
| "type_name DT_TIME = ''hms''"
| "type_name dt = Rf_type2char (sexptype_from_datatype dt)"

definition get_column_info ::
  "'vm stmt_env \<Rightarrow> ('vm result_impl, string list \<times> string list) act" where
  "get_column_info env =
     abind (peek_first_row env) (\<lambda>_ r. areturn (ri_names r, map type_name (ri_types r)) r)"

definition get_placeholder_names :: "'vm stmt_env \<Rightarrow> 'vm result_impl \<Rightarrow> string list" where
  "get_placeholder_names env r =
     map (\<lambda>i. case sqlite3_bind_parameter_name env (ri_stmt r) (i + 1) of
            None \<Rightarrow> '''' | Some z \<Rightarrow> tl (c_str z))
       [0..<sqlite3_bind_parameter_count env (ri_stmt r)]"

subsection \<open>What stepping depends on\<close>

text \<open>
  Stepping neither reads nor writes the row counter and the column types, which \<open>fetch\<close>
  updates, and it never warns.
\<close>

definition set_seen :: "nat \<Rightarrow> data_type list \<Rightarrow> 'vm result_impl \<Rightarrow> 'vm result_impl" where
  "set_seen n ts r = r\<lparr>ri_nrows := n, ri_types := ts\<rparr>"

definition commutes :: "('s \<Rightarrow> 's) \<Rightarrow> ('s, 'a) act \<Rightarrow> bool" where
  "commutes u m \<longleftrightarrow> (\<forall>r. m (u r) = (case m r of (x, s, ws) \<Rightarrow> (x, u s, ws)))"

definition silent :: "('s, 'a) act \<Rightarrow> bool" where
  "silent m \<longleftrightarrow> (\<forall>r. snd (snd (m r)) = [])"

lemma commutes_afor: "(\<And>x. commutes u (f x)) \<Longrightarrow> commutes u (afor f xs)"
proof (induction xs)
  case (Cons x xs)
  then show ?case
    by (auto simp: commutes_def abind_def split: prod.splits sum.splits)
qed (simp add: commutes_def)

lemma silent_afor: "(\<And>x. silent (f x)) \<Longrightarrow> silent (afor f xs)"
proof (induction xs)
  case (Cons x xs)
  show ?case
    unfolding silent_def
  proof
    fix r
    obtain y s ws where f: "f x r = (y, s, ws)" by (cases "f x r") auto
    then have "ws = []" using Cons.prems [of x] by (auto simp: silent_def dest: spec [of _ r])
    moreover have "snd (snd (afor f xs s)) = []" using Cons by (simp add: silent_def)
    ultimately show "snd (snd (afor f (x # xs) r)) = []"
      using f by (auto simp: abind_def split: prod.splits sum.splits)
  qed
qed (simp add: silent_def)

lemma set_seen_simps [simp]:
  "ri_stmt (set_seen n ts r) = ri_stmt r" "ri_names (set_seen n ts r) = ri_names r"
  "ri_complete (set_seen n ts r) = ri_complete r" "ri_ready (set_seen n ts r) = ri_ready r"
  "ri_nrows (set_seen n ts r) = n" "ri_params (set_seen n ts r) = ri_params r"
  "ri_group (set_seen n ts r) = ri_group r" "ri_groups (set_seen n ts r) = ri_groups r"
  "ri_types (set_seen n ts r) = ts" "ri_with_alt_types (set_seen n ts r) = ri_with_alt_types r"
  "(set_seen n ts r)\<lparr>ri_stmt := x\<rparr> = set_seen n ts (r\<lparr>ri_stmt := x\<rparr>)"
  "(set_seen n ts r)\<lparr>ri_group := g\<rparr> = set_seen n ts (r\<lparr>ri_group := g\<rparr>)"
  "(set_seen n ts r)\<lparr>ri_complete := b\<rparr> = set_seen n ts (r\<lparr>ri_complete := b\<rparr>)"
  by (simp_all add: set_seen_def)

lemma bind_row_commutes: "commutes (set_seen n ts) (bind_row env)"
proof -
  have "commutes (set_seen n ts) (bind_parameter_pos env p)" for p
    by (auto simp: commutes_def bind_parameter_pos_def split: sum.splits)
  then have "commutes (set_seen n ts) (afor (bind_parameter_pos env) xs)" for xs
    by (rule commutes_afor)
  then have "afor (bind_parameter_pos env) xs (set_seen n ts r) =
      (case afor (bind_parameter_pos env) xs r of (x, s, ws) \<Rightarrow> (x, set_seen n ts s, ws))" for xs r
    by (simp add: commutes_def)
  then show ?thesis
    by (auto simp: commutes_def bind_row_def areturn_def abind_def Let_def split: prod.splits sum.splits)
qed

lemma bind_row_silent: "silent (bind_row env)"
proof -
  have "silent (bind_parameter_pos env p)" for p
    by (auto simp: silent_def bind_parameter_pos_def split: sum.splits)
  from silent_afor [OF this] have "silent (afor (bind_parameter_pos env) xs)" for xs .
  then have "afor (bind_parameter_pos env) xs r = (x, s, ws) \<Longrightarrow> ws = []" for xs r x s ws
    by (metis silent_def snd_conv)
  then show ?thesis
    by (auto simp: silent_def bind_row_def areturn_def abind_def Let_def split: prod.splits sum.splits)
qed

lemma step_run_commutes: "commutes (set_seen n ts) (step_run env)"
  using bind_row_commutes [of n ts env]
  by (auto simp: commutes_def step_run_def step_done_def areturn_def athrow_def abind_def Let_def
      split: prod.splits sum.splits step_rc.splits)

lemma step_run_silent: "silent (step_run env)"
proof -
  have "bind_row env r = (x, s, ws) \<Longrightarrow> ws = []" for r x s ws
    using bind_row_silent by (metis silent_def snd_conv)
  then show ?thesis
    by (auto simp: silent_def step_run_def step_done_def areturn_def athrow_def abind_def Let_def
        split: prod.splits sum.splits step_rc.splits)
qed

lemma step_commutes: "step env (set_seen n ts r) = (case step env r of (x, s, ws) \<Rightarrow> (x, set_seen n ts s, ws))"
proof (induction env r rule: step.induct)
  case (1 env r)
  have c: "step_run env (set_seen n ts r) = (case step_run env r of (x, s, ws) \<Rightarrow> (x, set_seen n ts s, ws))"
    by (rule step_run_commutes [unfolded commutes_def, rule_format])
  show ?case
  proof (cases "step_run env r")
    case (fields x s ws)
    show ?thesis
      using 1 c fields
      by (cases x) (auto simp: step.simps [of env r] step.simps [of env "set_seen n ts r"] split: prod.splits)
  qed
qed

lemma step_silent: "snd (snd (step env r)) = []"
proof (induction env r rule: step.induct)
  case (1 env r)
  show ?case
  proof (cases "step_run env r")
    case (fields x s ws)
    moreover have "ws = []" using step_run_silent fields by (metis silent_def snd_conv)
    ultimately show ?thesis
      using 1 by (cases x) (auto simp: step.simps [of env r] split: prod.splits)
  qed
qed

text \<open>What stepping leaves alone.\<close>

definition same_query :: "'vm result_impl \<Rightarrow> 'vm result_impl \<Rightarrow> bool" where
  "same_query r s \<longleftrightarrow> ri_names s = ri_names r \<and> ri_nparams s = ri_nparams r \<and> ri_ready s = ri_ready r
     \<and> ri_params s = ri_params r \<and> ri_groups s = ri_groups r \<and> ri_with_alt_types s = ri_with_alt_types r
     \<and> ri_total_changes_start s = ri_total_changes_start r"

lemma same_query_trans: "same_query r s \<Longrightarrow> same_query s t \<Longrightarrow> same_query r t"
  by (simp add: same_query_def)

lemma step_run_same_query:
  assumes "step_run env r = (x, s, ws)"
  shows "same_query r s \<and> ri_nrows s = ri_nrows r \<and> ri_types s = ri_types r"
proof -
  have b: "bind_row env r' = (y, t, ws') \<Longrightarrow> same_query r' t \<and> ri_nrows t = ri_nrows r' \<and> ri_types t = ri_types r'"
    for r' y t ws'
    using bind_row_stmt_only [of r' env] by (simp add: same_query_def stmt_only_fields)
  show ?thesis
    using assms
    by (auto simp: step_run_def step_done_def areturn_def athrow_def abind_def Let_def
        split: prod.splits sum.splits step_rc.splits if_splits dest!: b, auto simp: same_query_def)
qed

lemma step_same_query:
  "step env r = (x, s, ws) \<Longrightarrow> same_query r s \<and> ri_nrows s = ri_nrows r \<and> ri_types s = ri_types r"
proof (induction env r arbitrary: x s ws rule: step.induct)
  case (1 env r)
  obtain y t ws1 where t: "step_run env r = (y, t, ws1)" by (cases "step_run env r") auto
  note k = step_run_same_query [OF t]
  show ?case
  proof (cases "y = Inr True")
    case True
    obtain x' s' ws' where s': "step env t = (x', s', ws')" by (cases "step env t") auto
    then have "s' = s" using "1.prems" t True by (simp add: step.simps [of env r])
    then show ?thesis
      using 1(1) [OF t [symmetric]] True s' k same_query_trans by fastforce
  next
    case False
    then have "s = t" using "1.prems" t by (auto simp: step.simps [of env r] split: sum.splits if_splits)
    then show ?thesis using k by simp
  qed
qed

subsection \<open>The rows a result delivers\<close>

text \<open>
  \<open>delivers env r rows\<close>: \<open>rows\<close> are exactly the rows that stepping shows from \<open>r\<close> on, up to
  completion and without an error.
\<close>

fun delivers :: "'vm stmt_env \<Rightarrow> 'vm result_impl \<Rightarrow> sqlite_row list \<Rightarrow> bool" where
  "delivers env r [] \<longleftrightarrow> ri_complete r"
| "delivers env r (row # rows) \<longleftrightarrow> \<not> ri_complete r \<and> stmt_row env (ri_stmt r) = row \<and>
     (case step env r of (Inl _, _, _) \<Rightarrow> False | (Inr _, s, _) \<Rightarrow> delivers env s rows)"

text \<open>The result after \<open>k\<close> steps.\<close>

fun stepped :: "'vm stmt_env \<Rightarrow> nat \<Rightarrow> 'vm result_impl \<Rightarrow> 'vm result_impl" where
  "stepped env 0 r = r"
| "stepped env (Suc k) r = stepped env k (fst (snd (step env r)))"

lemma delivers_set_seen: "delivers env (set_seen n ts r) rows = delivers env r rows"
proof (induction rows arbitrary: r)
  case (Cons row rows)
  show ?case
  proof (cases "step env r")
    case (fields x s ws)
    then show ?thesis using Cons by (cases x) (simp_all add: step_commutes)
  qed
qed simp

lemma stepped_set_seen: "stepped env k (set_seen n ts r) = set_seen n ts (stepped env k r)"
  by (induction k arbitrary: r) (simp_all add: step_commutes split: prod.splits)

lemma stepped_same_query:
  "same_query r (stepped env k r) \<and> ri_nrows (stepped env k r) = ri_nrows r \<and> ri_types (stepped env k r) = ri_types r"
proof (induction k arbitrary: r)
  case (Suc k)
  obtain x s ws where s: "step env r = (x, s, ws)" by (cases "step env r") auto
  from step_same_query [OF s] Suc.IH [of s] s show ?case
    using same_query_trans by fastforce
qed (simp add: same_query_def)

lemma delivers_stepped: "delivers env r (rows1 @ rows2) \<Longrightarrow> delivers env (stepped env (length rows1) r) rows2"
proof (induction rows1 arbitrary: r)
  case (Cons row rows)
  then show ?case by (auto split: prod.splits sum.splits)
qed simp

text \<open>The warnings of a run of rows, each against the rows before it.\<close>

fun run_warnings ::
  "text_conv \<Rightarrow> date_parsers \<Rightarrow> bool \<Rightarrow> data_type list \<Rightarrow> sqlite_row list \<Rightarrow> sqlite_row list \<Rightarrow> string list" where
  "run_warnings T D alt types rs [] = []"
| "run_warnings T D alt types rs (r # rows) =
     row_warnings T D alt types rs r @ run_warnings T D alt types (rs @ [r]) rows"

definition add_rows :: "nat \<Rightarrow> 'vm result_impl \<Rightarrow> 'vm result_impl" where
  "add_rows k r = r\<lparr>ri_nrows := ri_nrows r + k\<rparr>"

lemma add_rows_seen: "add_rows k r = set_seen (ri_nrows r + k) (ri_types r) r"
  by (simp add: add_rows_def set_seen_def)

lemma fetch_loop_ok:
  assumes P: "packages_keep_data (env_packages env)"
    and quiet: "\<And>i. \<not> intr i"
  shows "df_holds (env_packages env) (env_text env) (env_dates env) (ri_with_alt_types r) types rs df \<Longrightarrow>
    df_i df = length rs \<Longrightarrow> delivers env r (rows1 @ rows2) \<Longrightarrow>
    (df_n_max df < 0 \<or> int (length rs) < df_n_max df) \<Longrightarrow>
    (rows2 \<noteq> [] \<longrightarrow> int (length rs + length rows1) = df_n_max df) \<Longrightarrow>
    (df_n_max df < 0 \<or> int (length rs + length rows1) \<le> df_n_max df) \<Longrightarrow>
    \<exists>df'. fetch_loop env intr df ws r =
        Some (Inr df', add_rows (length rows1) (stepped env (length rows1) r),
              ws @ run_warnings (env_text env) (env_dates env) (ri_with_alt_types r) types rs rows1)
      \<and> df_holds (env_packages env) (env_text env) (env_dates env) (ri_with_alt_types r) types (rs @ rows1) df'
      \<and> df_i df' = length rs + length rows1 \<and> df_names df' = df_names df"
proof (induction rows1 arbitrary: rs df ws r)
  case Nil
  then have "ri_complete r" by (cases rows2) auto
  then show ?case
    using Nil by (subst fetch_loop.simps) (simp add: add_rows_def)
next
  case (Cons row rows1)
  let ?P = "env_packages env" and ?T = "env_text env" and ?D = "env_dates env" and ?alt = "ri_with_alt_types r"
  obtain s where s: "\<not> ri_complete r" "stmt_row env (ri_stmt r) = row" "step env r = (Inr (), s, [])"
    "delivers env s (rows1 @ rows2)"
    using Cons.prems(3) step_silent [of env r] by (auto split: prod.splits sum.splits)
  have src: "stmt_source env r = (\<lambda>j. sqlite_column_source ?T ?D ?alt j row)"
    by (simp add: stmt_source_def s(2) fun_eq_iff)
  obtain df1 where df1: "set_col_values ?P (stmt_source env r) df = Inr (df1, row_warnings ?T ?D ?alt types rs row)"
    "df_holds ?P ?T ?D ?alt types (rs @ [row]) df1"
    "df_i df1 = df_i df" "df_n_max df1 = df_n_max df" "df_names df1 = df_names df"
    using set_col_values_df [OF Cons.prems(1), of row] src by auto
  let ?df2 = "df1\<lparr>df_i := Suc (df_i df1)\<rparr>" and ?t = "add_rows 1 s"
  let ?ws = "ws @ row_warnings ?T ?D ?alt types rs row"
  have adv: "advance (intr (Suc (df_i df1))) df1 =
      Inr (df_n_max df < 0 \<or> int (Suc (length rs)) < df_n_max df, ?df2)"
    using quiet df1(3,4) Cons.prems(2) by (simp add: advance_def Let_def)
  have loop: "fetch_loop env intr df ws r =
      (if df_n_max df < 0 \<or> int (Suc (length rs)) < df_n_max df
       then fetch_loop env intr ?df2 ?ws ?t else Some (Inr ?df2, ?t, ?ws))"
    by (subst fetch_loop.simps) (simp add: s(1,3) df1(1) adv add_rows_def Let_def)
  have holds2: "df_holds ?P ?T ?D ?alt types (rs @ [row]) ?df2"
    using df1(2) by (simp add: df_holds_def)
  have alt: "ri_with_alt_types ?t = ?alt"
    using step_same_query [OF s(3)] by (simp add: add_rows_def same_query_def)
  have stepped: "add_rows k (stepped env k ?t) = add_rows (Suc k) (stepped env (Suc k) r)" for k
    using s(3) stepped_same_query [of s env k]
    by (simp add: add_rows_seen stepped_set_seen) (simp add: set_seen_def)
  show ?case
  proof (cases "df_n_max df < 0 \<or> int (Suc (length rs)) < df_n_max df")
    case True
    have "delivers env ?t (rows1 @ rows2)"
      using s(4) by (simp add: add_rows_seen delivers_set_seen)
    then show ?thesis
      using Cons.IH [of ?t "rs @ [row]" ?df2 ?ws] holds2 alt True Cons.prems(2,5,6) df1(3-5) loop stepped [of "length rows1"]
      by auto
  next
    case False
    then have "rows1 = []" using Cons.prems(6) by (cases rows1) auto
    then show ?thesis
      using loop False holds2 df1(3-5) Cons.prems(2) s(3) by simp
  qed
qed

definition end_row :: "'vm stmt_env \<Rightarrow> nat \<Rightarrow> 'vm result_impl \<Rightarrow> sqlite_row" where
  "end_row env k r = stmt_row env (ri_stmt (stepped env k r))"

definition frame_of :: "'vm stmt_env \<Rightarrow> 'vm result_impl \<Rightarrow> sqlite_row list \<Rightarrow> bool \<Rightarrow> sqlite_row \<Rightarrow> r_data_frame" where
  "frame_of env r rows keep e = frame_ref (env_packages env) (env_text env) (env_dates env)
     (ri_with_alt_types r) (ri_types r) (ri_names r) rows keep e"

definition types_after :: "'vm stmt_env \<Rightarrow> 'vm result_impl \<Rightarrow> sqlite_row list \<Rightarrow> sqlite_row \<Rightarrow> data_type list" where
  "types_after env r rows e =
     out_types (env_text env) (env_dates env) (ri_with_alt_types r) (ri_types r) rows e"

definition fetch_warnings :: "'vm stmt_env \<Rightarrow> 'vm result_impl \<Rightarrow> sqlite_row list \<Rightarrow> sqlite_row \<Rightarrow> string list" where
  "fetch_warnings env r rows e =
     run_warnings (env_text env) (env_dates env) (ri_with_alt_types r) (ri_types r) [] rows @
     conflict_warnings (env_text env) (env_dates env) (ri_with_alt_types r) (ri_types r) (ri_names r) rows e"

lemma take_data_ok:
  assumes "df_holds (env_packages env) (env_text env) (env_dates env) (ri_with_alt_types r) types rs df"
    and "df_i df = (if keep then length rs else 0)" "length (df_names df) = length types"
  shows "take_data env df r =
    (Inr (frame_ref (env_packages env) (env_text env) (env_dates env) (ri_with_alt_types r) types
        (df_names df) rs keep (stmt_row env (ri_stmt r))),
     r\<lparr>ri_types := out_types (env_text env) (env_dates env) (ri_with_alt_types r) types rs (stmt_row env (ri_stmt r))\<rparr>,
     conflict_warnings (env_text env) (env_dates env) (ri_with_alt_types r) types (df_names df) rs (stmt_row env (ri_stmt r)))"
  using get_data_ok [OF assms, of "stmt_row env (ri_stmt r)"]
  by (simp add: take_data_def abind_def alift_def stmt_source_def [abs_def])

lemma df_new_simps [simp]:
  "df_i (data_frame_new P names n types) = 0" "df_n_max (data_frame_new P names n types) = n"
  "df_names (data_frame_new P names n types) = names"
  "get_ncols (data_frame_new P names n types) = length types"
  by (simp_all add: data_frame_new_def get_ncols_def)

lemma fetch_rows_ok:
  assumes P: "packages_keep_data (env_packages env)" and quiet: "\<And>i. \<not> intr i"
    and rows: "delivers env r (rows1 @ rows2)" and names: "length (ri_names r) = length (ri_types r)"
    and n: "n_max \<noteq> 0" "rows2 \<noteq> [] \<longrightarrow> int (length rows1) = n_max" "n_max < 0 \<or> int (length rows1) \<le> n_max"
  shows "fetch_rows env intr n_max r =
    (let e = end_row env (length rows1) r in
     Some (Inr (frame_of env r rows1 True e),
           (add_rows (length rows1) (stepped env (length rows1) r))\<lparr>ri_types := types_after env r rows1 e\<rparr>,
           (if ri_complete r \<and> ri_types r = [] then [no_columns_warning] else []) @ fetch_warnings env r rows1 e))"
proof -
  let ?df = "data_frame_new (env_packages env) (ri_names r) n_max (ri_types r)"
  let ?ws = "if ri_complete r \<and> ri_types r = [] then [no_columns_warning] else []"
  let ?s = "add_rows (length rows1) (stepped env (length rows1) r)"
  have new: "df_holds (env_packages env) (env_text env) (env_dates env) (ri_with_alt_types r) (ri_types r) [] ?df"
    by (rule df_holds_new [OF P])
  obtain df' where df': "fetch_loop env intr ?df ?ws r = Some (Inr df', ?s,
        ?ws @ run_warnings (env_text env) (env_dates env) (ri_with_alt_types r) (ri_types r) [] rows1)"
    "df_holds (env_packages env) (env_text env) (env_dates env) (ri_with_alt_types r) (ri_types r) rows1 df'"
    "df_i df' = length rows1" "df_names df' = ri_names r"
    using fetch_loop_ok [where intr = intr, OF P quiet new, where ws = ?ws and ?rows1.0 = rows1 and ?rows2.0 = rows2]
      rows n by auto
  have "ri_with_alt_types ?s = ri_with_alt_types r" "stmt_row env (ri_stmt ?s) = end_row env (length rows1) r"
    using stepped_same_query [of r env "length rows1"] by (simp_all add: add_rows_def same_query_def end_row_def)
  with take_data_ok [of env ?s "ri_types r" rows1 df' True] df' names show ?thesis
    by (simp add: fetch_rows_def Let_def frame_of_def types_after_def fetch_warnings_def)
qed

lemma peek_first_row_ok:
  assumes P: "packages_keep_data (env_packages env)"
    and rows: "delivers env r rows" and names: "length (ri_names r) = length (ri_types r)"
  shows "peek_first_row env r =
    (let e = stmt_row env (ri_stmt r) in
     (Inr (frame_of env r (take 1 rows) False e), r\<lparr>ri_types := types_after env r (take 1 rows) e\<rparr>,
      fetch_warnings env r (take 1 rows) e))"
proof (cases rows)
  case Nil
  let ?df = "data_frame_new (env_packages env) (ri_names r) 1 (ri_types r)"
  have new: "df_holds (env_packages env) (env_text env) (env_dates env) (ri_with_alt_types r) (ri_types r) [] ?df"
    by (rule df_holds_new [OF P])
  from take_data_ok [OF new, of False] show ?thesis
    using Nil rows names
    by (simp add: peek_first_row_def abind_def alift_def ret_def frame_of_def types_after_def
        fetch_warnings_def Let_def)
next
  case (Cons row rest)
  let ?df = "data_frame_new (env_packages env) (ri_names r) 1 (ri_types r)"
  have c: "\<not> ri_complete r" "stmt_row env (ri_stmt r) = row" using rows Cons by auto
  have src: "stmt_source env r = (\<lambda>j. sqlite_column_source (env_text env) (env_dates env) (ri_with_alt_types r) j row)"
    by (simp add: stmt_source_def c(2) fun_eq_iff)
  have new: "df_holds (env_packages env) (env_text env) (env_dates env) (ri_with_alt_types r) (ri_types r) [] ?df"
    by (rule df_holds_new [OF P])
  obtain df' where df': "set_col_values (env_packages env) (stmt_source env r) ?df =
      Inr (df', row_warnings (env_text env) (env_dates env) (ri_with_alt_types r) (ri_types r) [] row)"
    "df_holds (env_packages env) (env_text env) (env_dates env) (ri_with_alt_types r) (ri_types r) [row] df'"
    "df_i df' = 0" "df_names df' = ri_names r"
    using set_col_values_df [OF new, of row] src by auto
  from take_data_ok [OF df'(2), of False] df' names c Cons show ?thesis
    by (simp add: peek_first_row_def abind_def alift_def frame_of_def types_after_def
        fetch_warnings_def Let_def)
qed

subsection \<open>Running a statement for every group of parameters\<close>

text \<open>The statement started at \<open>vm\<close> gives \<open>rows\<close> and finishes in \<open>vm'\<close>.\<close>

fun yields :: "'vm stmt_env \<Rightarrow> 'vm \<Rightarrow> sqlite_row list \<Rightarrow> 'vm \<Rightarrow> bool" where
  "yields env vm [] vm' \<longleftrightarrow> sqlite3_step env vm = (SQLITE_DONE, vm')"
| "yields env vm (row # rows) vm' \<longleftrightarrow>
     (case sqlite3_step env vm of (rc, vm1) \<Rightarrow>
        rc = SQLITE_ROW \<and> stmt_row env vm1 = row \<and> yields env vm1 rows vm')"

fun bind_from :: "'vm stmt_env \<Rightarrow> nat \<Rightarrow> sqlite_value list \<Rightarrow> 'vm \<Rightarrow> 'vm" where
  "bind_from env j [] vm = vm"
| "bind_from env j (v # vs) vm = bind_from env (Suc j) vs (sqlite3_bind env vm j v)"

definition bound :: "'vm stmt_env \<Rightarrow> sqlite_value list \<Rightarrow> 'vm \<Rightarrow> 'vm" where
  "bound env vs vm = bind_from env 1 vs (sqlite3_clear_bindings env (sqlite3_reset env vm))"

text \<open>
  \<open>group_runs env params vm g rowss\<close>: run after run from group \<open>g\<close> on, the statement is reset,
  cleared and bound to the elements of the group, and gives the next list of \<open>rowss\<close>.
\<close>

fun group_runs :: "'vm stmt_env \<Rightarrow> robj list \<Rightarrow> 'vm \<Rightarrow> nat \<Rightarrow> sqlite_row list list \<Rightarrow> bool" where
  "group_runs env params vm g [] \<longleftrightarrow> True"
| "group_runs env params vm g (rows # rowss) \<longleftrightarrow>
     (\<exists>vs vm'. map (\<lambda>p. bind_value p g) params = map Inr vs \<and> yields env (bound env vs vm) rows vm'
        \<and> group_runs env params vm' (Suc g) rowss)"

lemma bind_params_ok:
  "map (\<lambda>p. bind_value p (ri_group r)) params = map Inr vs \<Longrightarrow>
     afor (bind_parameter_pos env) (enumerate j params) r =
       (Inr (), r\<lparr>ri_stmt := bind_from env j vs (ri_stmt r)\<rparr>, [])"
proof (induction params arbitrary: j vs r)
  case (Cons p params)
  then obtain v vs' where v: "vs = v # vs'" "bind_value p (ri_group r) = Inr v"
    "map (\<lambda>p. bind_value p (ri_group r)) params = map Inr vs'" by auto
  let ?r = "r\<lparr>ri_stmt := sqlite3_bind env (ri_stmt r) j v\<rparr>"
  have "afor (bind_parameter_pos env) (enumerate (Suc j) params) ?r =
      (Inr (), ?r\<lparr>ri_stmt := bind_from env (Suc j) vs' (ri_stmt ?r)\<rparr>, [])"
    using Cons.IH [of ?r vs' "Suc j"] v(3) by simp
  moreover have "bind_parameter_pos env (j, p) r = (Inr (), ?r, [])"
    using v(2) by (simp add: bind_parameter_pos_def)
  ultimately show ?case using v(1) by (simp add: abind_def)
qed simp

lemma bind_row_ok:
  assumes "ri_group r < ri_groups r" "map (\<lambda>p. bind_value p (ri_group r)) (ri_params r) = map Inr vs"
  shows "bind_row env r = (Inr True, r\<lparr>ri_stmt := bound env vs (ri_stmt r)\<rparr>, [])"
  using assms bind_params_ok [of "r\<lparr>ri_stmt := sqlite3_clear_bindings env (sqlite3_reset env (ri_stmt r))\<rparr>"
      "ri_params r" vs env 1]
  by (simp add: bind_row_def abind_def areturn_def bound_def Let_def)

text \<open>\<open>rest\<close> are the rows of the groups after the current one.\<close>

definition groups_left :: "'vm stmt_env \<Rightarrow> 'vm result_impl \<Rightarrow> 'vm \<Rightarrow> sqlite_row list list \<Rightarrow> bool" where
  "groups_left env r vm rest \<longleftrightarrow>
     (if rest = [] then ri_groups r \<le> Suc (ri_group r)
      else ri_groups r = Suc (ri_group r) + length rest) \<and>
     group_runs env (ri_params r) vm (Suc (ri_group r)) rest"

lemma step_delivers:
  "\<not> ri_complete r \<Longrightarrow> yields env (ri_stmt r) rows vm \<Longrightarrow> groups_left env r vm rest \<Longrightarrow>
     \<exists>s. step env r = (Inr (), s, []) \<and> delivers env s (rows @ concat rest)"
proof (induction rest arbitrary: r rows vm)
  case Nil
  then show ?case
  proof (induction rows arbitrary: r)
    case Nil
    then have "step_run env r = (Inr False, r\<lparr>ri_stmt := vm, ri_group := Suc (ri_group r), ri_complete := True\<rparr>, [])"
      by (simp add: step_run_def step_done_def bind_row_def areturn_def abind_def groups_left_def)
    then show ?case by (subst step.simps) simp
  next
    case (Cons row rows)
    then obtain vm1 where 1: "sqlite3_step env (ri_stmt r) = (SQLITE_ROW, vm1)" "stmt_row env vm1 = row"
      "yields env vm1 rows vm" by (auto split: prod.splits)
    then have "step env r = (Inr (), r\<lparr>ri_stmt := vm1\<rparr>, [])"
      by (subst step.simps) (simp add: step_run_def areturn_def)
    moreover obtain s where "step env (r\<lparr>ri_stmt := vm1\<rparr>) = (Inr (), s, [])" "delivers env s (rows @ concat [])"
      using Cons.IH [of "r\<lparr>ri_stmt := vm1\<rparr>"] Cons.prems 1(3) by (auto simp: groups_left_def)
    ultimately show ?case using Cons.prems(1) 1(2) by simp
  qed
next
  case (Cons rows' rest)
  from Cons.prems show ?case
  proof (induction rows arbitrary: r)
    case Nil
    let ?r = "r\<lparr>ri_stmt := vm, ri_group := Suc (ri_group r)\<rparr>"
    obtain vs vm' where g: "map (\<lambda>p. bind_value p (Suc (ri_group r))) (ri_params r) = map Inr vs"
      "yields env (bound env vs vm) rows' vm'" "group_runs env (ri_params r) vm' (Suc (Suc (ri_group r))) rest"
      "Suc (ri_group r) < ri_groups r" "ri_groups r = Suc (Suc (ri_group r)) + length rest"
      using Nil.prems(3) by (auto simp: groups_left_def)
    let ?s = "r\<lparr>ri_stmt := bound env vs vm, ri_group := Suc (ri_group r)\<rparr>"
    have "step_run env r = (Inr True, ?s, [])"
      using Nil.prems(2) bind_row_ok [of ?r vs env] g(1,4)
      by (simp add: step_run_def step_done_def abind_def)
    then have "step env r = step env ?s"
      by (subst step.simps) (simp split: prod.splits)
    moreover have "groups_left env ?s vm' rest"
      using g(3,5) by (simp add: groups_left_def)
    moreover have "yields env (ri_stmt ?s) rows' vm'" "\<not> ri_complete ?s"
      using g(2) Nil.prems(1) by simp_all
    ultimately show ?case using Cons.IH [of ?s rows' vm'] by simp
  next
    case (Cons row rows)
    then obtain vm1 where 1: "sqlite3_step env (ri_stmt r) = (SQLITE_ROW, vm1)" "stmt_row env vm1 = row"
      "yields env vm1 rows vm" by (auto split: prod.splits)
    then have "step env r = (Inr (), r\<lparr>ri_stmt := vm1\<rparr>, [])"
      by (subst step.simps) (simp add: step_run_def areturn_def)
    moreover obtain s where "step env (r\<lparr>ri_stmt := vm1\<rparr>) = (Inr (), s, [])"
      "delivers env s (rows @ concat (rows' # rest))"
      using Cons.IH [of "r\<lparr>ri_stmt := vm1\<rparr>"] Cons.prems 1(3) by (auto simp: groups_left_def)
    ultimately show ?case using Cons.prems(1) 1(2) by simp
  qed
qed

lemma after_bind_delivers:
  assumes "yields env (ri_stmt r) rows vm" "groups_left env r vm rest"
  shows "\<exists>s. after_bind env True r = (Inr (), s, []) \<and> delivers env s (rows @ concat rest)
    \<and> ri_ready s \<and> ri_nrows s = 0 \<and> ri_types s = ri_types r \<and> ri_names s = ri_names r
    \<and> ri_with_alt_types s = ri_with_alt_types r"
proof -
  let ?r = "r\<lparr>ri_ready := True, ri_nrows := 0, ri_complete := False\<rparr>"
  have left: "groups_left env ?r vm rest" using assms(2) by (simp add: groups_left_def)
  obtain s where s: "step env ?r = (Inr (), s, [])" "delivers env s (rows @ concat rest)"
    using step_delivers [of ?r env rows vm rest] assms left by auto
  from step_same_query [OF s(1)] s show ?thesis
    by (auto simp: after_bind_def result_init_def amodify_def abind_def same_query_def)
qed

text \<open>A query without parameters.\<close>

lemma result_impl_new_delivers:
  assumes "sqlite3_bind_parameter_count env vm = 0" "yields env vm rows vm'"
    and "prepare p = Inr (vm, ws)"
  shows "\<exists>r. result_impl_new env True alt p = Inr (r, ws) \<and> delivers env r rows \<and> ri_ready r
    \<and> ri_nrows r = 0 \<and> ri_types r = replicate (length (get_column_names env vm)) DT_UNKNOWN
    \<and> ri_names r = get_column_names env vm \<and> ri_with_alt_types r = alt"
proof -
  let ?names = "get_column_names env vm"
  let ?r = "\<lparr>ri_stmt = vm, ri_names = ?names, ri_nparams = 0, ri_complete = False, ri_ready = False,
     ri_nrows = 0, ri_total_changes_start = sqlite3_total_changes env vm, ri_params = [], ri_group = 0,
     ri_groups = 0, ri_types = get_initial_field_types (length ?names), ri_with_alt_types = alt\<rparr>"
  obtain s where "after_bind env True ?r = (Inr (), s, [])" "delivers env s rows" "ri_ready s"
    "ri_nrows s = 0" "ri_types s = ri_types ?r" "ri_names s = ri_names ?r" "ri_with_alt_types s = ri_with_alt_types ?r"
    using after_bind_delivers [of env ?r rows vm' "[]"] assms(2) by (auto simp: groups_left_def)
  then show ?thesis
    using assms(1,3) by (simp add: result_impl_new_def result_impl_open_def result_impl_start_def ebind_def
        get_initial_field_types_def Let_def)
qed

text \<open>A query with parameters.\<close>

lemma result_bind_delivers:
  assumes "ri_nparams r = length params" "params \<noteq> []"
    and "length rowss = Rf_xlength (rdata (hd params))"
    and "group_runs env params (ri_stmt r) 0 rowss"
  shows "\<exists>s. result_bind env params r = (Inr (), s, []) \<and> delivers env s (concat rowss)
    \<and> ri_ready s \<and> ri_nrows s = 0 \<and> ri_types s = ri_types r \<and> ri_names s = ri_names r
    \<and> ri_with_alt_types s = ri_with_alt_types r"
proof -
  let ?r = "r\<lparr>ri_params := params, ri_groups := Rf_xlength (rdata (hd params)), ri_group := 0,
     ri_total_changes_start := sqlite3_total_changes env (ri_stmt r)\<rparr>"
  have bind: "result_bind env params r = abind (bind_row env) (after_bind env) ?r"
    using assms(1,2) by (simp add: result_bind_def)
  show ?thesis
  proof (cases rowss)
    case Nil
    then show ?thesis
      using assms(3) bind
      by (simp add: bind_row_def areturn_def abind_def after_bind_def result_init_def amodify_def)
  next
    case (Cons rows rest)
    then obtain vs vm' where g: "map (\<lambda>p. bind_value p 0) params = map Inr vs"
      "yields env (bound env vs (ri_stmt r)) rows vm'" "group_runs env params vm' 1 rest"
      using assms(4) by auto
    let ?s = "?r\<lparr>ri_stmt := bound env vs (ri_stmt r)\<rparr>"
    have "bind_row env ?r = (Inr True, ?s, [])"
      using bind_row_ok [of ?r vs env] g(1) assms(3) Cons by simp
    moreover have left: "groups_left env ?s vm' rest"
      using g(3) assms(3) Cons by (auto simp: groups_left_def)
    moreover obtain s where "after_bind env True ?s = (Inr (), s, [])" "delivers env s (rows @ concat rest)"
      "ri_ready s" "ri_nrows s = 0" "ri_types s = ri_types ?s" "ri_names s = ri_names ?s"
      "ri_with_alt_types s = ri_with_alt_types ?s"
      using after_bind_delivers [OF _ left, of rows] g(2) by auto
    ultimately show ?thesis using bind Cons by (simp add: abind_def)
  qed
qed

end
