(* ===== verification/ResultProps.thy ===== *)
theory ResultProps
  imports ResultImpl
begin

text \<open>
  The properties of a result: what \<open>bind\<close> and \<open>fetch\<close> give for a statement, whatever SQLite does
  inside a step.  The statements of the witnesses are run by \<open>script_env\<close>, a statement whose
  rows are a given function of the values bound to it.
\<close>

subsection \<open>A concrete statement\<close>

text \<open>The bound values, the rows that are left once it runs, and the current row.\<close>

type_synonym script_vm = "sqlite_value list \<times> sqlite_row list option \<times> sqlite_row"

definition no_row :: sqlite_row where
  "no_row = \<lparr>row_values = [], row_decltypes = []\<rparr>"

fun script_step :: "(sqlite_value list \<Rightarrow> sqlite_row list) \<Rightarrow> script_vm \<Rightarrow> step_rc \<times> script_vm" where
  "script_step prog (vs, todo, cur) =
     (case (case todo of None \<Rightarrow> prog vs | Some rows \<Rightarrow> rows) of
        [] \<Rightarrow> (SQLITE_DONE, (vs, Some [], no_row))
      | row # rows \<Rightarrow> (SQLITE_ROW, (vs, Some rows, row)))"

definition script_env ::
  "(sqlite_value list \<Rightarrow> sqlite_row list) \<Rightarrow> nat \<Rightarrow> string list \<Rightarrow> script_vm stmt_env" where
  "script_env prog nparams names =
     \<lparr>sqlite3_step = script_step prog,
      sqlite3_reset = (\<lambda>(vs, todo, cur). (vs, None, no_row)),
      sqlite3_clear_bindings = (\<lambda>(vs, todo, cur). ([], todo, cur)),
      sqlite3_bind = (\<lambda>(vs, todo, cur) j v. (vs @ [v], todo, cur)),
      stmt_row = (\<lambda>(vs, todo, cur). cur),
      sqlite3_column_count = (\<lambda>_. length names),
      sqlite3_column_name = (\<lambda>_ j. names ! j),
      sqlite3_bind_parameter_count = (\<lambda>_. nparams),
      sqlite3_bind_parameter_name = (\<lambda>_ _. None),
      sqlite3_total_changes = (\<lambda>_. 0),
      sqlite3_errmsg = (\<lambda>_. ''not an error''),
      env_packages = std_packages,
      env_text = undefined,
      env_dates = undefined\<rparr>"

definition script_result :: "nat \<Rightarrow> string list \<Rightarrow> script_vm result_impl" where
  "script_result nparams names =
     \<lparr>ri_stmt = ([], None, no_row), ri_names = names, ri_nparams = nparams, ri_complete = False,
      ri_ready = False, ri_nrows = 0, ri_total_changes_start = 0, ri_params = [], ri_group = 0,
      ri_groups = 0, ri_types = replicate (length names) DT_UNKNOWN, ri_with_alt_types = False\<rparr>"

definition int_row :: "i64 \<Rightarrow> sqlite_row" where
  "int_row v = \<lparr>row_values = [SqlInt v], row_decltypes = []\<rparr>"

text \<open>The data frame of one integer column, computed.\<close>

lemma script_frame:
  "frame_ref std_packages T D False [DT_UNKNOWN] [''x''] [int_row 1, int_row 2] True e =
     \<lparr>rdf_columns = [plain (IntSXP [Some 1, Some 2])], rdf_names = [''x''],
      rdf_class = ''data.frame'', rdf_row_names = [NA_INTEGER, - 2]\<rparr>"
  by (simp add: frame_ref_def out_types_def type_at_def items_of_def start_type_def read_item_def ebind_def
      ret_def sqlite_column_source_def sqlite_is_null_def sqlite_get_data_type_def sqlite3_column_defs
      columnMem_def int_row_def needs_64_bit_def next_type_def type_after_def out_type_def column_ref_def
      allocate_def plain_def Let_def)

lemma script_env_simps [simp]:
  "env_packages (script_env prog n names) = std_packages"
  "env_text (script_env prog n names) = undefined" "env_dates (script_env prog n names) = undefined"
  "get_column_names (script_env prog n names) vm = names"
  by (simp_all add: script_env_def get_column_names_def map_nth)

subsection \<open>Properties\<close>

text \<open>
  A query without parameters: creating the result and fetching everything gives the data
  frame of exactly the rows the statement yields, in their order, and completes the result
  with that many rows counted.
\<close>

theorem query_fetch_all:
  assumes P: "packages_keep_data (env_packages env)" and quiet: "\<And>i. \<not> intr i"
    and prep: "prepare p = Inr (vm, ws0)" "sqlite3_bind_parameter_count env vm = 0"
    and rows: "yields env vm rows vm'" and n: "n_max < 0"
  shows "\<exists>r e s ws. result_impl_new env True alt p = Inr (r, ws0)
    \<and> result_fetch env intr n_max r = Some (Inr (frame_of env r rows True e), s, ws)
    \<and> ri_types r = replicate (length (get_column_names env vm)) DT_UNKNOWN
    \<and> ri_names r = get_column_names env vm \<and> ri_with_alt_types r = alt
    \<and> ri_complete s \<and> ri_nrows s = length rows"
proof -
  obtain r where r: "result_impl_new env True alt p = Inr (r, ws0)" "delivers env r rows" "ri_ready r"
    "ri_nrows r = 0" "ri_types r = replicate (length (get_column_names env vm)) DT_UNKNOWN"
    "ri_names r = get_column_names env vm" "ri_with_alt_types r = alt"
    using result_impl_new_delivers [OF prep(2) rows prep(1)] by blast
  have "ri_complete (stepped env (length rows) r)"
    using delivers_stepped [of env r rows "[]"] r(2) by simp
  moreover have "ri_nrows (stepped env (length rows) r) = 0"
    using stepped_same_query [of r env "length rows"] r(4) by simp
  ultimately show ?thesis
    using fetch_rows_ok [where intr = intr and ?rows1.0 = rows and ?rows2.0 = "[]", OF P quiet, of r n_max] r n
    by (auto simp: result_fetch_def Let_def add_rows_def)
qed

theorem query_fetch_all_witness:
  "\<exists>r s ws. result_impl_new (script_env (\<lambda>_. [int_row 1, int_row 2]) 0 [''x'']) True False
      (Prepared ([], None, no_row) None) = Inr (r, [])
    \<and> result_fetch (script_env (\<lambda>_. [int_row 1, int_row 2]) 0 [''x'']) (\<lambda>_. False) (- 1) r
        = Some (Inr \<lparr>rdf_columns = [plain (IntSXP [Some 1, Some 2])], rdf_names = [''x''],
                 rdf_class = ''data.frame'', rdf_row_names = [NA_INTEGER, - 2]\<rparr>, s, ws)
    \<and> ri_complete s \<and> ri_nrows s = 2"
proof -
  let ?env = "script_env (\<lambda>_. [int_row 1, int_row 2]) 0 [''x'']"
  have "\<exists>r e s ws. result_impl_new ?env True False (Prepared ([], None, no_row) None) = Inr (r, [])
    \<and> result_fetch ?env (\<lambda>_. False) (- 1) r = Some (Inr (frame_of ?env r [int_row 1, int_row 2] True e), s, ws)
    \<and> ri_types r = replicate (length (get_column_names ?env ([], None, no_row))) DT_UNKNOWN
    \<and> ri_names r = get_column_names ?env ([], None, no_row) \<and> ri_with_alt_types r = False
    \<and> ri_complete s \<and> ri_nrows s = length [int_row 1, int_row 2]"
    by (rule query_fetch_all [where vm' = "([], Some [], no_row)"])
      (simp_all add: script_env_def prepare_def ret_def)
  then show ?thesis
    by (auto simp: frame_of_def script_frame)
qed

text \<open>
  C1: binding vectors of parameters and fetching everything gives the rows of every group,
  one run of the statement per element of the vectors, in the order of the elements.
\<close>

theorem bind_fetch_all:
  assumes P: "packages_keep_data (env_packages env)" and quiet: "\<And>i. \<not> intr i"
    and params: "ri_nparams r = length params" "params \<noteq> []"
    and groups: "length rowss = Rf_xlength (rdata (hd params))" "group_runs env params (ri_stmt r) 0 rowss"
    and names: "length (ri_names r) = length (ri_types r)" and n: "n_max < 0"
  shows "\<exists>s e t ws. result_bind env params r = (Inr (), s, [])
    \<and> result_fetch env intr n_max s = Some (Inr (frame_of env s (concat rowss) True e), t, ws)
    \<and> ri_types s = ri_types r \<and> ri_names s = ri_names r \<and> ri_with_alt_types s = ri_with_alt_types r
    \<and> ri_complete t \<and> ri_nrows t = length (concat rowss)"
proof -
  obtain s where s: "result_bind env params r = (Inr (), s, [])" "delivers env s (concat rowss)" "ri_ready s"
    "ri_nrows s = 0" "ri_types s = ri_types r" "ri_names s = ri_names r"
    "ri_with_alt_types s = ri_with_alt_types r"
    using result_bind_delivers [OF params groups] by blast
  let ?n = "length (concat rowss)"
  have "ri_complete (stepped env ?n s)"
    using delivers_stepped [of env s "concat rowss" "[]"] s(2) by simp
  moreover have "ri_nrows (stepped env ?n s) = 0"
    using stepped_same_query [of s env ?n] s(4) by simp
  ultimately show ?thesis
    using fetch_rows_ok [where intr = intr and ?rows1.0 = "concat rowss" and ?rows2.0 = "[]", OF P quiet, of s n_max]
      s n names
    by (auto simp: result_fetch_def Let_def add_rows_def)
qed

theorem bind_fetch_all_witness:
  "\<exists>s t ws. result_bind (script_env (map (\<lambda>v. \<lparr>row_values = [v], row_decltypes = []\<rparr>)) 1 [''x''])
      [plain (IntSXP [Some 1, Some 2])] (script_result 1 [''x'']) = (Inr (), s, [])
    \<and> result_fetch (script_env (map (\<lambda>v. \<lparr>row_values = [v], row_decltypes = []\<rparr>)) 1 [''x''])
        (\<lambda>_. False) (- 1) s
        = Some (Inr \<lparr>rdf_columns = [plain (IntSXP [Some 1, Some 2])], rdf_names = [''x''],
                 rdf_class = ''data.frame'', rdf_row_names = [NA_INTEGER, - 2]\<rparr>, t, ws)
    \<and> ri_complete t \<and> ri_nrows t = 2"
proof -
  let ?env = "script_env (map (\<lambda>v. \<lparr>row_values = [v], row_decltypes = []\<rparr>)) 1 [''x'']"
  let ?r = "script_result 1 [''x'']"
  have "\<exists>s e t ws. result_bind ?env [plain (IntSXP [Some 1, Some 2])] ?r = (Inr (), s, [])
    \<and> result_fetch ?env (\<lambda>_. False) (- 1) s
        = Some (Inr (frame_of ?env s (concat [[int_row 1], [int_row 2]]) True e), t, ws)
    \<and> ri_types s = ri_types ?r \<and> ri_names s = ri_names ?r \<and> ri_with_alt_types s = ri_with_alt_types ?r
    \<and> ri_complete t \<and> ri_nrows t = length (concat [[int_row 1], [int_row 2]])"
  proof (rule bind_fetch_all)
    show "group_runs ?env [plain (IntSXP [Some 1, Some 2])] (ri_stmt ?r) 0 [[int_row 1], [int_row 2]]"
      by (simp add: script_env_def script_result_def bound_def plain_def bind_value_def get_init_def
          get_cell_def INT64SXP_def NA_INTEGER_def int_row_def Cons_eq_map_conv)
  qed (simp_all add: script_result_def plain_def)
  then show ?thesis
    by (auto simp: frame_of_def script_frame script_result_def)
qed

text \<open>
  C2: fetching in chunks loses and repeats nothing: \<open>fetch(n)\<close> returns the next \<open>n\<close> rows, or
  the fewer rows that are left, counts them, and leaves a result that delivers exactly the rest.
\<close>

theorem fetch_chunk:
  assumes P: "packages_keep_data (env_packages env)" and quiet: "\<And>i. \<not> intr i"
    and r: "ri_ready r" "delivers env r rows" "length (ri_names r) = length (ri_types r)"
    and n: "0 < n"
  shows "\<exists>e s ws. result_fetch env intr (int n) r = Some (Inr (frame_of env r (take n rows) True e), s, ws)
    \<and> delivers env s (drop n rows) \<and> ri_nrows s = ri_nrows r + min n (length rows)
    \<and> ri_ready s \<and> length (ri_types s) = length (ri_types r)"
proof -
  let ?k = "length (take n rows)"
  let ?s = "add_rows ?k (stepped env ?k r)" and ?e = "end_row env ?k r"
  have "delivers env (stepped env ?k r) (drop n rows)"
    using delivers_stepped [of env r "take n rows" "drop n rows"] r(2) by simp
  then have "delivers env (?s\<lparr>ri_types := types_after env r (take n rows) ?e\<rparr>) (drop n rows)"
    using delivers_set_seen [of env "ri_nrows ?s" "types_after env r (take n rows) ?e" "stepped env ?k r" "drop n rows"]
    by (simp add: add_rows_def set_seen_def)
  then show ?thesis
    using fetch_rows_ok [where intr = intr and ?rows1.0 = "take n rows" and ?rows2.0 = "drop n rows",
        OF P quiet, of r "int n"] r n stepped_same_query [of r env ?k]
    by (auto simp: result_fetch_def Let_def add_rows_def same_query_def types_after_def out_types_def)
qed

theorem fetch_chunk_witness:
  "\<exists>e s ws. result_fetch (script_env (\<lambda>_. []) 0 [''x'']) (\<lambda>_. False) (int 1)
      ((script_result 0 [''x''])\<lparr>ri_ready := True, ri_stmt := ([], Some [int_row 2], int_row 1)\<rparr>)
    = Some (Inr (frame_of (script_env (\<lambda>_. []) 0 [''x''])
        ((script_result 0 [''x''])\<lparr>ri_ready := True, ri_stmt := ([], Some [int_row 2], int_row 1)\<rparr>)
        [int_row 1] True e), s, ws)
    \<and> delivers (script_env (\<lambda>_. []) 0 [''x'']) s [int_row 2] \<and> ri_nrows s = 1"
proof -
  let ?env = "script_env (\<lambda>_. []) 0 [''x'']"
  let ?r = "(script_result 0 [''x''])\<lparr>ri_ready := True, ri_stmt := ([], Some [int_row 2], int_row 1)\<rparr>"
  have d: "delivers ?env ?r [int_row 1, int_row 2]"
    by (simp add: script_result_def script_env_def step.simps step_run_def step_done_def bind_row_def
        abind_def areturn_def)
  show ?thesis
    using fetch_chunk [where intr = "\<lambda>_. False", of ?env ?r "[int_row 1, int_row 2]" 1] d
    by (auto simp: script_result_def)
qed

text \<open>
  Looking at the column information consumes nothing: the result still delivers the same
  rows, and every column has a known type.
\<close>

lemma column_info_consumes_nothing:
  assumes P: "packages_keep_data (env_packages env)"
    and r: "delivers env r rows" "length (ri_names r) = length (ri_types r)"
  shows "\<exists>types s ws. get_column_info env r = (Inr (ri_names r, types), s, ws)
    \<and> length types = length (ri_names r)
    \<and> delivers env s rows \<and> ri_nrows s = ri_nrows r \<and> ri_stmt s = ri_stmt r
    \<and> DT_UNKNOWN \<notin> set (ri_types s)"
proof -
  let ?e = "stmt_row env (ri_stmt r)"
  let ?ts = "types_after env r (take 1 rows) ?e"
  let ?s = "r\<lparr>ri_types := ?ts\<rparr>"
  have "delivers env ?s rows"
    using delivers_set_seen [of env "ri_nrows r" ?ts r rows] r(1) by (simp add: set_seen_def)
  moreover have "DT_UNKNOWN \<notin> set ?ts"
    using sqlite_source.decl_known by (auto simp: types_after_def out_types_def out_type_def dest: sym)
  ultimately show ?thesis
    using peek_first_row_ok [OF P r] r(2)
    by (simp add: get_column_info_def abind_def areturn_def Let_def types_after_def out_types_def)
qed

lemma column_info_consumes_nothing_witness:
  "\<exists>types s ws. get_column_info (script_env (\<lambda>_. []) 0 [''x''])
      ((script_result 0 [''x''])\<lparr>ri_ready := True, ri_stmt := ([], Some [int_row 2], int_row 1)\<rparr>)
      = (Inr ([''x''], types), s, ws)
    \<and> length types = 1 \<and> delivers (script_env (\<lambda>_. []) 0 [''x'']) s [int_row 1, int_row 2]"
proof -
  let ?env = "script_env (\<lambda>_. []) 0 [''x'']"
  let ?r = "(script_result 0 [''x''])\<lparr>ri_ready := True, ri_stmt := ([], Some [int_row 2], int_row 1)\<rparr>"
  have d: "delivers ?env ?r [int_row 1, int_row 2]"
    by (simp add: script_result_def script_env_def step.simps step_run_def step_done_def bind_row_def
        abind_def areturn_def)
  show ?thesis
    using column_info_consumes_nothing [of ?env ?r "[int_row 1, int_row 2]"] d
    by (auto simp: script_result_def)
qed

text \<open>The loop with a bound, by induction on the rows left to it.\<close>

lemma set_col_values_keeps:
  "set_col_values P mk df = Inr (df', ws) \<Longrightarrow> df_i df' = df_i df \<and> df_n_max df' = df_n_max df"
  by (auto simp: set_col_values_def ebind_eq_Inr ret_def)

lemma fetch_loop_bounded:
  "int (df_i df) + int (Suc d) = df_n_max df \<Longrightarrow> \<exists>x. fetch_loop env intr df ws r = Some x"
proof (induction d arbitrary: df ws r)
  case (0 df ws r)
  then show ?case
    by (subst fetch_loop.simps)
      (auto simp: advance_def Let_def split: sum.splits prod.splits dest!: set_col_values_keeps)
next
  case (Suc d df ws r)
  have "\<exists>x. fetch_loop env intr df2 ws' t = Some x"
    if "set_col_values (env_packages env) (stmt_source env r) df = Inr (df1, ws1)"
      "advance b df1 = Inr (again, df2)" for df1 ws1 b again df2 ws' t
    using that Suc.prems
    by (intro Suc.IH) (auto simp: advance_def Let_def split: if_splits dest!: set_col_values_keeps)
  then show ?case
    by (subst fetch_loop.simps) (auto simp: Let_def split: sum.splits prod.splits)
qed

text \<open>
  C21: a fetch with a bound returns: whatever the statement does, the loop ends after at most
  \<open>n_max\<close> rows.
\<close>

theorem bounded_fetch_returns:
  assumes "0 \<le> n_max"
  shows "\<exists>out s ws. result_fetch env intr n_max r = Some (out, s, ws)"
proof (cases "ri_ready r \<and> n_max \<noteq> 0")
  case True
  let ?df = "data_frame_new (env_packages env) (ri_names r) n_max (ri_types r)"
  have "int (df_i ?df) + int (Suc (nat (n_max - 1))) = df_n_max ?df" using assms True by simp
  from fetch_loop_bounded [OF this] obtain x where
    "fetch_loop env intr ?df (if ri_complete r \<and> get_ncols ?df = 0 then [no_columns_warning] else []) r = Some x"
    by blast
  then show ?thesis
    using True by (cases x) (auto simp: result_fetch_def fetch_rows_def Let_def split: sum.splits prod.splits)
next
  case False
  then show ?thesis
    by (auto simp: result_fetch_def athrow_def split: prod.splits) (metis prod_cases3)
qed

text \<open>A statement that always has another row.\<close>

definition endless_env :: "unit stmt_env" where
  "endless_env =
     \<lparr>sqlite3_step = (\<lambda>_. (SQLITE_ROW, ())), sqlite3_reset = id, sqlite3_clear_bindings = id,
      sqlite3_bind = (\<lambda>s _ _. s), stmt_row = (\<lambda>_. int_row 1), sqlite3_column_count = (\<lambda>_. 1), sqlite3_column_name = (\<lambda>_ _. ''x''),
      sqlite3_bind_parameter_count = (\<lambda>_. 0), sqlite3_bind_parameter_name = (\<lambda>_ _. None),
      sqlite3_total_changes = (\<lambda>_. 0), sqlite3_errmsg = (\<lambda>_. ''''), env_packages = std_packages,
      env_text = undefined, env_dates = undefined\<rparr>"

theorem bounded_fetch_returns_witness:
  "\<exists>out s ws. result_fetch endless_env (\<lambda>_. False) 5
     \<lparr>ri_stmt = (), ri_names = [''x''], ri_nparams = 0, ri_complete = False, ri_ready = True, ri_nrows = 0,
      ri_total_changes_start = 0, ri_params = [], ri_group = 0, ri_groups = 0, ri_types = [DT_UNKNOWN],
      ri_with_alt_types = False\<rparr> = Some (out, s, ws)"
  by (rule bounded_fetch_returns) simp

text \<open>
  A double is bound as it is, and every NaN, \<open>NA_real_\<close> included, as NULL; the comparison
  with \<open>NA_REAL\<close> in the code is never true, NULL comes from SQLite.
\<close>

theorem bind_double:
  assumes "g < length xs" "xs ! g = Some d"
  shows "bind_value (plain (RealSXP xs)) g = Inr (if f64_is_nan d then SqlNull else SqlFloat d)
    \<and> \<not> f64_eq d NA_REAL"
  using assms by (simp add: bind_value_def plain_def INT64SXP_def get_init_def get_cell_def
      sqlite3VdbeMemSetDouble_def Let_def)

theorem bind_double_witness: "bind_value (plain (RealSXP [Some NA_REAL])) 0 = Inr SqlNull"
  using bind_double [of 0 "[Some NA_REAL]" NA_REAL] by simp

end
