(* ===== verification/Result.thy ===== *)
theory Result
  imports ResultProps
begin

text \<open>
  \<open>src/src/DbResult.cpp\<close>, \<open>SqliteResult.cpp\<close> and \<open>result.cpp\<close>: the checks in front of the
  implementation.  \<open>is_current_result\<close> of the connection is constantly true, so a result is
  always active.  The lemmas here are about parameters: what the length check guarantees for
  every later access, and that values survive being bound and fetched.
\<close>

subsection \<open>DbResult\<close>

fun validate_lengths :: "nat \<Rightarrow> nat \<Rightarrow> robj list \<Rightarrow> unit res" where
  "validate_lengths n j [] = Inr ()"
| "validate_lengths n j (col # cols) =
     (if Rf_xlength (rdata col) \<noteq> n
      then Inl (Stop (''Parameter '' @ show_nat (j + 1) @ '' does not have length '' @ show_nat n @ ''.''))
      else validate_lengths n (Suc j) cols)"

definition validate_params :: "robj list \<Rightarrow> unit res" where
  "validate_params params =
     (if length params \<noteq> 0 then validate_lengths (Rf_xlength (rdata (hd params))) 1 (tl params) else Inr ())"

definition is_current_result :: bool where
  "is_current_result = True"

definition db_bind :: "'vm stmt_env \<Rightarrow> robj list \<Rightarrow> ('vm result_impl, unit) act" where
  "db_bind env params =
     abind (alift (lift_res (validate_params params))) (\<lambda>_. result_bind env params)"

definition db_fetch ::
  "'vm stmt_env \<Rightarrow> (nat \<Rightarrow> bool) \<Rightarrow> int \<Rightarrow> 'vm result_impl \<Rightarrow>
     ((r_error + r_data_frame) \<times> 'vm result_impl \<times> string list) option" where
  "db_fetch env intr n_max r =
     (if \<not> is_current_result then Some (athrow (Stop ''Inactive result set'') r)
      else result_fetch env intr n_max r)"

text \<open>The names and types of the columns with the attributes of a data frame.\<close>

definition db_get_column_info ::
  "'vm stmt_env \<Rightarrow> ('vm result_impl, string list \<times> string list \<times> i32 list) act" where
  "db_get_column_info env =
     abind (get_column_info env) (\<lambda>(names, types). areturn (names, types, [NA_INTEGER, - of_nat (length names)]))"

lemma validate_lengths_ok: "validate_lengths n j cols = Inr () \<longleftrightarrow> (\<forall>c \<in> set cols. Rf_xlength (rdata c) = n)"
  by (induction cols arbitrary: j) auto

lemma validate_lengths_error: "validate_lengths n j cols = Inl e \<Longrightarrow> \<not> is_UB e"
  by (induction cols arbitrary: j) (auto split: if_splits)

lemma validate_params_ok:
  "validate_params params = Inr () \<longleftrightarrow> (\<forall>p \<in> set params. Rf_xlength (rdata p) = Rf_xlength (rdata (hd params)))"
  by (cases params) (simp_all add: validate_params_def validate_lengths_ok)

subsection \<open>Parameters are read inside their vectors\<close>

text \<open>R hands over vectors whose cells all have values.\<close>

fun initialised :: "sexp \<Rightarrow> bool" where
  "initialised (LglSXP xs) \<longleftrightarrow> None \<notin> set xs"
| "initialised (IntSXP xs) \<longleftrightarrow> None \<notin> set xs"
| "initialised (RealSXP xs) \<longleftrightarrow> None \<notin> set xs"
| "initialised (RawSXP xs) \<longleftrightarrow> None \<notin> set xs"
| "initialised (VecSXP xs) \<longleftrightarrow> (\<forall>x \<in> set xs. \<forall>bs. x = RawSXP bs \<longrightarrow> None \<notin> set bs)"
| "initialised _ \<longleftrightarrow> True"

lemma get_init_ok: "k < length xs \<Longrightarrow> None \<notin> set xs \<Longrightarrow> \<exists>v. get_init xs k = Inr v \<and> xs ! k = Some v"
  by (cases "xs ! k") (auto simp: get_init_def get_cell_def dest!: nth_mem)

lemma read_raw_ok: "None \<notin> set bs \<Longrightarrow> \<exists>b. read_raw bs = Inr b \<and> map Some b = bs"
proof (induction bs)
  case (Cons x bs)
  then show ?case by (cases x) (auto intro: exI [of _ "_ # _"])
qed simp

lemma bind_value_safe:
  assumes "g < Rf_xlength (rdata p)" "initialised (rdata p)"
  shows "\<not> undefined_behaviour (bind_value p g)"
proof (cases "rdata p")
  case (LglSXP xs)
  with assms get_init_ok [of g xs] show ?thesis by (auto simp: bind_value_def Let_def)
next
  case (IntSXP xs)
  with assms get_init_ok [of g xs] show ?thesis by (auto simp: bind_value_def Let_def INT64SXP_def)
next
  case (RealSXP xs)
  with assms get_init_ok [of g xs] show ?thesis by (auto simp: bind_value_def Let_def INT64SXP_def INTEGER64_def)
next
  case (StrSXP xs)
  with assms show ?thesis by (auto simp: bind_value_def Let_def INT64SXP_def get_cell_def)
next
  case (VecSXP xs)
  then have x: "xs ! g \<in> set xs" "g < length xs" using assms(1) by auto
  show ?thesis
  proof (cases "xs ! g")
    case (RawSXP bs)
    then have "None \<notin> set bs" using assms(2) VecSXP x(1) by auto
    with read_raw_ok VecSXP RawSXP x(2) show ?thesis
      by (fastforce simp: bind_value_def Let_def INT64SXP_def get_cell_def)
  qed (use VecSXP x(2) in \<open>simp_all add: bind_value_def Let_def INT64SXP_def get_cell_def\<close>)
qed (use assms in \<open>simp_all add: bind_value_def Let_def INT64SXP_def\<close>)

definition params_safe :: "'vm result_impl \<Rightarrow> bool" where
  "params_safe r \<longleftrightarrow> (\<forall>p \<in> set (ri_params r). \<forall>g < ri_groups r. \<not> undefined_behaviour (bind_value p g))"

lemma params_safe_same: "same_query r s \<Longrightarrow> params_safe r \<Longrightarrow> params_safe s"
  by (simp add: params_safe_def same_query_def)

lemma afor_bind_safe:
  assumes "\<forall>p \<in> set ps. \<not> undefined_behaviour (bind_value (snd p) (ri_group r))"
  shows "\<not> undefined_behaviour (fst (afor (bind_parameter_pos env) ps r))"
  using assms
proof (induction ps arbitrary: r)
  case (Cons p ps)
  show ?case
  proof (cases "bind_value (snd p) (ri_group r)")
    case (Inl e)
    then show ?thesis using Cons.prems by (simp add: abind_def bind_parameter_pos_def)
  next
    case (Inr v)
    then show ?thesis
      using Cons by (simp add: abind_def bind_parameter_pos_def split: prod.splits)
  qed
qed simp

lemma bind_row_safe:
  assumes "params_safe r"
  shows "\<not> undefined_behaviour (fst (bind_row env r))"
proof (cases "ri_group r < ri_groups r")
  case True
  let ?r = "r\<lparr>ri_stmt := sqlite3_clear_bindings env (sqlite3_reset env (ri_stmt r))\<rparr>"
  have "\<forall>p \<in> set (enumerate 1 (ri_params r)). \<not> undefined_behaviour (bind_value (snd p) (ri_group ?r))"
    using assms True by (auto simp: params_safe_def in_set_enumerate_eq)
  from afor_bind_safe [OF this, of env] True show ?thesis
    by (auto simp: bind_row_def abind_def areturn_def Let_def split: prod.splits sum.splits)
qed (simp add: bind_row_def areturn_def)

lemma step_run_safe:
  assumes "params_safe r"
  shows "\<not> undefined_behaviour (fst (step_run env r))"
proof -
  have "params_safe (r\<lparr>ri_stmt := stmt, ri_group := g\<rparr>)" for stmt g
    using assms by (simp add: params_safe_def)
  then have "bind_row env (r\<lparr>ri_stmt := stmt, ri_group := g\<rparr>) = (Inl e, s, ws) \<Longrightarrow> \<not> is_UB e" for stmt g e s ws
    using bind_row_safe [of "r\<lparr>ri_stmt := stmt, ri_group := g\<rparr>" env] by simp
  then show ?thesis
    by (auto simp: step_run_def step_done_def abind_def areturn_def athrow_def Let_def
        split: prod.splits sum.splits step_rc.splits)
qed

lemma step_safe: "params_safe r \<Longrightarrow> \<not> undefined_behaviour (fst (step env r))"
proof (induction env r rule: step.induct)
  case (1 env r)
  obtain x s ws where s: "step_run env r = (x, s, ws)" by (cases "step_run env r") auto
  have safe: "\<not> undefined_behaviour x" "params_safe s"
    using step_run_safe [OF "1.prems", of env] s params_safe_same [OF _ "1.prems", of s] step_run_same_query [OF s]
    by simp_all
  show ?case
  proof (cases x)
    case (Inl e)
    then show ?thesis using s safe by (cases e) (simp_all add: step.simps [of env r])
  next
    case (Inr again)
    then show ?thesis
      using 1(1) [OF s [symmetric]] safe(2) s
      by (cases again) (auto simp: step.simps [of env r] split: prod.splits)
  qed
qed

lemma result_bind_safe:
  assumes "\<forall>p \<in> set params. \<forall>g < Rf_xlength (rdata (hd params)). \<not> undefined_behaviour (bind_value p g)"
  shows "\<not> undefined_behaviour (fst (result_bind env params r))"
proof -
  let ?r = "r\<lparr>ri_params := params, ri_groups := Rf_xlength (rdata (hd params)), ri_group := 0,
     ri_total_changes_start := sqlite3_total_changes env (ri_stmt r)\<rparr>"
  have safe: "params_safe ?r" using assms by (simp add: params_safe_def)
  obtain x s ws where s: "bind_row env ?r = (x, s, ws)" by (cases "bind_row env ?r") auto
  have "stmt_only ?r s" using bind_row_stmt_only [of ?r env] s by simp
  then have "params_safe (s\<lparr>ri_ready := True, ri_nrows := 0, ri_complete := False\<rparr>)"
    using safe by (simp add: params_safe_def stmt_only_fields)
  note step = step_safe [OF this, of env]
  have "x = Inl e \<Longrightarrow> \<not> is_UB e" for e
    using bind_row_safe [OF safe, of env] s by simp
  moreover have "step env (s\<lparr>ri_ready := True, ri_nrows := 0, ri_complete := False\<rparr>) = (y, t, ws') \<Longrightarrow> \<not> undefined_behaviour y" for y t ws'
    using step by simp
  ultimately show ?thesis
    using s by (auto simp: result_bind_def athrow_def abind_def after_bind_def result_init_def amodify_def
        areturn_def split: prod.splits sum.splits)
qed

subsection \<open>Values survive being bound and fetched\<close>

text \<open>
  The vectors a column can give back: at least one value, the type of the values not changed by
  SQLite, no NaN but \<open>NA_real_\<close>, no NUL in strings.
\<close>

fun storable :: "sexp \<Rightarrow> bool" where
  "storable (IntSXP xs) \<longleftrightarrow> None \<notin> set xs \<and> (\<exists>v. Some v \<in> set xs \<and> v \<noteq> NA_INTEGER)"
| "storable (RealSXP xs) \<longleftrightarrow> None \<notin> set xs \<and> (\<exists>v. Some v \<in> set xs \<and> \<not> f64_is_nan v) \<and>
     (\<forall>v. Some v \<in> set xs \<longrightarrow> f64_is_nan v \<longrightarrow> v = NA_REAL)"
| "storable (StrSXP xs) \<longleftrightarrow> (\<exists>s. RString s \<in> set xs) \<and> (\<forall>s. RString s \<in> set xs \<longrightarrow> CHR 0x00 \<notin> set s)"
| "storable (VecSXP xs) \<longleftrightarrow> (\<exists>bs. RawSXP bs \<in> set xs) \<and>
     (\<forall>x \<in> set xs. x = NilSXP \<or> (\<exists>bs. x = RawSXP bs \<and> None \<notin> set bs))"
| "storable _ \<longleftrightarrow> False"

fun vector_type :: "sexp \<Rightarrow> data_type" where
  "vector_type (IntSXP _) = DT_INT"
| "vector_type (RealSXP _) = DT_REAL"
| "vector_type (StrSXP _) = DT_STRING"
| "vector_type (VecSXP _) = DT_BLOB"
| "vector_type _ = DT_UNKNOWN"

lemma scast_i32: "(scast (i :: i32) :: i64) = word_of_int (sint i)"
  by (rule scast_eq)

lemma sint_scast_i32: "sint (scast (i :: i32) :: i64) = sint i"
  unfolding scast_i32
  by (rule sint_of_int_i64) (use sint_ge [of i] sint_lt [of i] in simp_all)

lemma ucast_scast_i32: "(ucast (scast (i :: i32) :: i64) :: i32) = i"
  unfolding scast_i32 ucast_of_int by simp

text \<open>One value: it comes back as a missing value or at the type of the vector.\<close>

lemma bind_value_back:
  assumes x: "storable x" "g < Rf_xlength x" and v: "bind_value (plain x) g = Inr v"
  shows "cells_of x ! g = Some (final (vector_type x) None) \<and> v = SqlNull \<or>
    (\<exists>c. cells_of x ! g = Some (final (vector_type x) (Some c)) \<and> v \<noteq> SqlNull \<and>
      (\<forall>row. columnMem row j = v \<longrightarrow>
        sqlite_get_data_type T False row j = vector_type x \<and>
        fetch_cell (vector_type x) (sqlite_column_source T D False j row) = ret c))"
proof (cases x)
  case (IntSXP xs)
  then obtain i where i: "xs ! g = Some i" "get_init xs g = Inr i"
    using x get_init_ok [of g xs] by auto
  show ?thesis
  proof (cases "i = NA_INTEGER")
    case False
    then have v: "v = SqlInt (scast i)" using v IntSXP i by (simp add: bind_value_def plain_def INT64SXP_def Let_def)
    have s: "sint (scast i :: i64) = sint i" by (rule sint_scast_i32)
    have "\<not> needs_64_bit (scast i)"
      using sint_ge [of i] sint_lt [of i] by (simp add: needs_64_bit_def s)
    moreover have "(ucast (scast i :: i64) :: i32) = i" by (rule ucast_scast_i32)
    ultimately show ?thesis
      using IntSXP i x(2) v
      by (auto simp: sqlite_type_int sqlite_column_source_def sqlite3_column_defs ret_def)
  qed (use v IntSXP i x(2) in \<open>simp add: bind_value_def plain_def INT64SXP_def Let_def\<close>)
next
  case (RealSXP xs)
  then obtain d where d: "xs ! g = Some d" "get_init xs g = Inr d" "Some d \<in> set xs"
    using x get_init_ok [of g xs] by (auto dest: nth_mem)
  then have v: "v = sqlite3VdbeMemSetDouble d"
    using v RealSXP by (simp add: bind_value_def plain_def INT64SXP_def Let_def)
  show ?thesis
  proof (cases "f64_is_nan d")
    case True
    then show ?thesis using v RealSXP d x by (simp add: sqlite3VdbeMemSetDouble_def)
  next
    case False
    then show ?thesis
      using v RealSXP d x(2)
      by (intro disjI2 exI [of _ "CReal d"])
        (simp add: sqlite3VdbeMemSetDouble_def sqlite_column_source_def sqlite_get_data_type_def
          sqlite3_column_defs ret_def Let_def)
  qed
next
  case (StrSXP xs)
  show ?thesis
  proof (cases "xs ! g")
    case NA_STRING
    then show ?thesis using v StrSXP x(2) by (simp add: bind_value_def plain_def INT64SXP_def get_cell_def Let_def)
  next
    case (RString s)
    then have "CHR 0x00 \<notin> set s" using x StrSXP by (metis Rf_xlength.simps(5) nth_mem storable.simps(3))
    then have "v = SqlText s" "c_str s = s"
      using v StrSXP x(2) RString by (simp_all add: bind_value_def plain_def INT64SXP_def get_cell_def c_str_no_nul Let_def)
    then show ?thesis
      using StrSXP RString x(2)
      by (auto simp: sqlite_column_source_def sqlite_get_data_type_def sqlite_fetch_string_def
          sqlite3_column_defs ret_def lift_res_def Let_def)
  qed
next
  case (VecSXP xs)
  then consider "xs ! g = NilSXP" | bs where "xs ! g = RawSXP bs" "None \<notin> set bs"
    using x by (auto dest!: bspec [where x = "xs ! g"])
  then show ?thesis
  proof cases
    case 1
    then show ?thesis using v VecSXP x(2) by (simp add: bind_value_def plain_def INT64SXP_def get_cell_def Let_def)
  next
    case 2
    then obtain b where "read_raw bs = Inr b" "map Some b = bs" using read_raw_ok by blast
    then show ?thesis
      using v VecSXP 2 x(2)
      by (auto simp: bind_value_def plain_def INT64SXP_def get_cell_def sqlite_column_source_def
          sqlite_get_data_type_def sqlite_fetch_blob_def sqlite3_column_defs ret_def Let_def)
  qed
qed (use x in simp_all)

text \<open>A column whose values all have one type is read as it is.\<close>

lemma uniform_items:
  assumes D: "D \<noteq> DT_UNKNOWN"
    and row: "\<And>s. s \<in> set ss \<Longrightarrow> \<not> is_null s \<Longrightarrow> get_data_type s = D \<and> fetch_cell D s = ret (g s)"
  shows "t = DT_UNKNOWN \<or> t = D \<Longrightarrow>
    read_items t ss = ret (map (\<lambda>s. if is_null s then None else Some (g s)) ss) \<and>
    foldl type_after t ss = (if \<forall>s \<in> set ss. is_null s then t else D)"
  using row
proof (induction ss arbitrary: t)
  case (Cons s ss)
  have n: "\<not> is_null s \<Longrightarrow> next_type t s = D"
    using Cons.prems D by (auto simp: next_type_def)
  show ?case
  proof (cases "is_null s")
    case True
    then show ?thesis
      using Cons by (simp add: read_item_def ebind_def ret_def)
  next
    case False
    have "read_items D ss = ret (map (\<lambda>s. if is_null s then None else Some (g s)) ss) \<and>
      foldl type_after D ss = D"
      using Cons.IH [of D] Cons.prems by simp
    then show ?thesis
      using False n [OF False] Cons.prems(2) [of s] by (simp add: read_item_def ebind_def ret_def)
  qed
qed simp

lemma storable_type:
  "storable x \<Longrightarrow> TYPEOF x = sexptype_from_datatype (vector_type x) \<and> vector_type x \<noteq> DT_UNKNOWN"
  by (cases x) simp_all

lemma storable_some:
  assumes "storable x"
  shows "\<exists>g<Rf_xlength x. cells_of x ! g \<noteq> Some (na_cell (vector_type x))"
proof (cases x)
  case (IntSXP xs)
  then obtain v g where "g < length xs" "xs ! g = Some v" "v \<noteq> NA_INTEGER"
    using assms by (auto simp: in_set_conv_nth)
  then show ?thesis using IntSXP by (intro exI [of _ g]) simp
next
  case (RealSXP xs)
  then obtain v g where "g < length xs" "xs ! g = Some v" "\<not> f64_is_nan v"
    using assms by (auto simp: in_set_conv_nth)
  moreover have "f64_is_nan NA_REAL"
    using sqlite3VdbeMemSetDouble_NA by (auto simp: sqlite3VdbeMemSetDouble_def split: if_splits)
  ultimately show ?thesis using RealSXP by (intro exI [of _ g]) auto
next
  case (StrSXP xs)
  then obtain v g where "g < length xs" "xs ! g = RString v"
    using assms by (auto simp: in_set_conv_nth)
  then show ?thesis using StrSXP by (intro exI [of _ g]) simp
next
  case (VecSXP xs)
  then obtain v g where "g < length xs" "xs ! g = RawSXP v"
    using assms by (auto simp: in_set_conv_nth)
  then show ?thesis using VecSXP by (intro exI [of _ g]) simp
qed (use assms in simp_all)

lemma Some_eq_map_option: "Some c = map_option f x \<longleftrightarrow> (\<exists>y. x = Some y \<and> c = f y)"
  by (cases x) auto

lemma cells_of_type: "Some c \<in> set (cells_of x) \<Longrightarrow> cell_type c = TYPEOF x"
  by (cases x) (auto simp: Some_eq_map_option)

lemma roundtrip_items:
  fixes T dp j rows
  defines "ss \<equiv> map (sqlite_column_source T dp False j) rows"
  assumes x: "storable x" and len: "length rows = Rf_xlength x"
    and v: "\<forall>g < length rows. bind_value (plain x) g = Inr (columnMem (rows ! g) j)"
  shows "\<exists>its. read_items DT_UNKNOWN ss = Inr (its, []) \<and> foldl type_after DT_UNKNOWN ss = vector_type x
    \<and> map (\<lambda>it. Some (final (vector_type x) it)) its = cells_of x"
proof -
  let ?D = "vector_type x" and ?src = "sqlite_column_source T dp False j"
  define cell where "cell s = (case fetch_cell ?D s of Inr (c, _) \<Rightarrow> c | Inl _ \<Rightarrow> CLgl 0)" for s
  have null: "is_null (?src row) \<longleftrightarrow> columnMem row j = SqlNull" for row
    by (simp add: sqlite_column_source_def sqlite_is_null_def sqlite3_column_defs)
  have gdt: "get_data_type (?src row) = sqlite_get_data_type T False row j" for row
    by (simp add: sqlite_column_source_def)
  have rb: "(is_null (?src (rows ! g)) \<longrightarrow> cells_of x ! g = Some (na_cell ?D)) \<and>
      (\<not> is_null (?src (rows ! g)) \<longrightarrow> get_data_type (?src (rows ! g)) = ?D \<and>
         fetch_cell ?D (?src (rows ! g)) = ret (cell (?src (rows ! g))) \<and>
         cells_of x ! g = Some (conv ?D (cell (?src (rows ! g)))))"
    if g: "g < length rows" for g
    using bind_value_back [OF x _ v [rule_format, OF g], of j T dp] g len
    by (auto simp: null cell_def ret_def gdt)
  have row: "s \<in> set ss \<Longrightarrow> \<not> is_null s \<Longrightarrow> get_data_type s = ?D \<and> fetch_cell ?D s = ret (cell s)" for s
    using rb by (auto simp: ss_def in_set_conv_nth)
  have D: "?D \<noteq> DT_UNKNOWN" using storable_type [OF x] by simp
  note u = uniform_items [of ?D ss cell DT_UNKNOWN, OF D row]
  obtain g where g: "g < length rows" "cells_of x ! g \<noteq> Some (na_cell ?D)"
    using storable_some [OF x] len by auto
  then have "\<not> is_null (?src (rows ! g))" using rb by blast
  then have "\<not> (\<forall>s \<in> set ss. is_null s)" using g(1) by (auto simp: ss_def)
  moreover have "map (\<lambda>it. Some (final ?D it)) (map (\<lambda>s. if is_null s then None else Some (cell s)) ss) = cells_of x"
  proof (rule nth_equalityI)
    have "TYPEOF x \<noteq> RAWSXP" using storable_type [OF x] by simp
    then show "length (map (\<lambda>it. Some (final ?D it)) (map (\<lambda>s. if is_null s then None else Some (cell s)) ss))
        = length (cells_of x)" using len by (simp add: ss_def)
  qed (use rb in \<open>auto simp: ss_def\<close>)
  ultimately show ?thesis using u by (auto simp: ret_def)
qed

text \<open>
  C6: values survive being bound and fetched: a column whose rows hold the values bound for the
  elements of an integer, double, character or list-of-raw vector, in order, comes back as
  that vector, with its missing values, provided that the vector has an element that is not
  missing, no NaN other than \<open>NA_real_\<close> and no NUL in its strings (\<open>storable\<close>).  Without an element
  there is nothing to tell the type from, and SQLite keeps every NaN as NULL, which reads as NA.
\<close>

theorem bind_fetch_roundtrip:
  assumes P: "packages_keep_data P" and x: "storable x" and len: "length rows = Rf_xlength x"
    and v: "\<forall>g < length rows. bind_value (plain x) g = Inr (columnMem (rows ! g) j)"
  shows "\<exists>r. column_of_rows P DT_UNKNOWN n_max (map (sqlite_column_source T dp False j) rows)
      (sqlite_column_source T dp False j e_row) = Inr (r, []) \<and> rdata r = x"
proof -
  let ?D = "vector_type x" and ?ss = "map (sqlite_column_source T dp False j) rows"
  let ?e = "sqlite_column_source T dp False j e_row"
  obtain its where its: "read_items DT_UNKNOWN ?ss = Inr (its, [])" "foldl type_after DT_UNKNOWN ?ss = ?D"
    "map (\<lambda>it. Some (final ?D it)) its = cells_of x"
    using roundtrip_items [OF x len v] by blast
  have D: "?D \<noteq> DT_UNKNOWN" "TYPEOF x = sexptype_from_datatype ?D" using storable_type [OF x] by simp_all
  have "\<forall>c \<in> set (map (final ?D) its). cell_type c = sexptype_from_datatype ?D"
    using cells_of_type [of _ x] D(2) unfolding its(3) [symmetric] by auto
  from vector_of_cells [OF this] D its(3)
  have "cells_of (vector_of (sexptype_from_datatype ?D) (map (final ?D) its)) = cells_of x"
    by (simp add: comp_def)
  then have "vector_of (sexptype_from_datatype ?D) (map (final ?D) its) = x"
    using D(2) by (intro cells_of_inject) (simp_all add: TYPEOF_vector_of)
  then have "one_pass P DT_UNKNOWN ?ss ?e = Inr (column_ref P ?D its, [])" "rdata (column_ref P ?D its) = x"
    using its(1,2) D(1)
    by (simp_all add: one_pass_def ebind_def ret_def start_type_def out_type_def column_ref_def)
  then show ?thesis
    using sqlite_source.column_is_one_pass [OF P, of DT_UNKNOWN n_max] by metis
qed

theorem bind_fetch_roundtrip_witness:
  "\<exists>r. column_of_rows std_packages DT_UNKNOWN (-1)
      (map (sqlite_column_source undefined undefined False 0)
        [\<lparr>row_values = [SqlText ''a''], row_decltypes = []\<rparr>, \<lparr>row_values = [SqlNull], row_decltypes = []\<rparr>])
      (sqlite_column_source undefined undefined False 0 \<lparr>row_values = [], row_decltypes = []\<rparr>) = Inr (r, [])
    \<and> rdata r = StrSXP [RString ''a'', NA_STRING]"
  by (rule bind_fetch_roundtrip)
    (auto simp: bind_value_def plain_def columnMem_def INT64SXP_def get_cell_def less_Suc_eq)

lemma db_bind_safe:
  assumes "\<forall>p \<in> set params. initialised (rdata p)"
  shows "\<not> undefined_behaviour (fst (db_bind env params r))"
proof (cases "validate_params params")
  case (Inl e)
  then have "\<not> is_UB e"
    by (auto simp: validate_params_def split: if_splits dest: validate_lengths_error)
  then show ?thesis using Inl by (simp add: db_bind_def abind_def alift_def)
next
  case (Inr u)
  then have "\<forall>p \<in> set params. Rf_xlength (rdata p) = Rf_xlength (rdata (hd params))"
    using validate_params_ok [of params] by simp
  then have "\<forall>p \<in> set params. \<forall>g < Rf_xlength (rdata (hd params)). \<not> undefined_behaviour (bind_value p g)"
    using bind_value_safe assms by metis
  from result_bind_safe [OF this, of env r] Inr show ?thesis
    by (simp add: db_bind_def abind_def alift_def ret_def split: prod.splits)
qed

text \<open>
  C22: after the length check no parameter is ever read outside its vector: binding, and
  stepping through the groups, cannot reach undefined behaviour on vectors that hold values.
\<close>

theorem db_bind_no_undefined_behaviour:
  assumes "\<forall>p \<in> set params. initialised (rdata p)"
  shows "\<not> undefined_behaviour (fst (db_bind env params r))"
  using assms by (rule db_bind_safe)

theorem db_bind_no_undefined_behaviour_witness:
  "\<not> undefined_behaviour (fst (db_bind (script_env (\<lambda>_. []) 2 [''x''])
      [plain (IntSXP [Some 1, Some 2]), plain (StrSXP [NA_STRING])] (script_result 2 [''x''])))"
  by (rule db_bind_no_undefined_behaviour) (simp add: plain_def)

text \<open>
  A bind that fails on its first group (a parameter of a type that cannot be bound) throws,
  but the result stays ready and keeps its old completion flag, although its statement was
  reset: a later fetch does not notice.
\<close>

lemma failed_bind_keeps_flags:
  assumes "ri_nparams r = length params" "params \<noteq> []" "0 < Rf_xlength (rdata (hd params))"
    and "bind_value (hd params) 0 = Inl e"
  shows "\<exists>s. result_bind env params r = (Inl e, s, []) \<and> ri_ready s = ri_ready r
    \<and> ri_complete s = ri_complete r \<and> ri_stmt s = sqlite3_clear_bindings env (sqlite3_reset env (ri_stmt r))"
  using assms
  by (cases params) (simp_all add: result_bind_def bind_row_def abind_def bind_parameter_pos_def Let_def)

lemma failed_bind_keeps_flags_witness:
  "\<exists>s. result_bind (script_env (\<lambda>_. []) 1 [''x'']) [plain (VecSXP [IntSXP []])]
      ((script_result 1 [''x''])\<lparr>ri_ready := True\<rparr>)
      = (Inl (Stop ''Can only bind lists of raw vectors (or NULL)''), s, [])
    \<and> ri_ready s \<and> \<not> ri_complete s"
  using failed_bind_keeps_flags [of "(script_result 1 [''x''])\<lparr>ri_ready := True\<rparr>" "[plain (VecSXP [IntSXP []])]"
      "Stop ''Can only bind lists of raw vectors (or NULL)''" "script_env (\<lambda>_. []) 1 [''x'']"]
  by (auto simp: plain_def bind_value_def INT64SXP_def get_cell_def script_result_def)

end
