(* ===== verification/ResultRun.thy ===== *)
theory ResultRun
  imports Result
begin

text \<open>
  A result over its whole life: any sequence of binds, fetches and questions about columns, on
  any statement, also one that fails or never ends.  Nothing is assumed here of the rows a
  statement gives; the lemmas say what is true of a data frame or an error whatever SQLite
  does, and what a run of fetches adds up to when the rows are known.
\<close>

subsection \<open>Fetching from an arbitrary statement\<close>

text \<open>What one fetch keeps, and what it gives: a data frame of some rows, or a proper error.\<close>

lemma set_col_values_some:
  assumes "df_holds (env_packages env) (env_text env) (env_dates env) (ri_with_alt_types r) types rs df"
  shows "\<exists>df1 ws1. set_col_values (env_packages env) (stmt_source env r) df = Inr (df1, ws1)
    \<and> df_holds (env_packages env) (env_text env) (env_dates env) (ri_with_alt_types r) types
        (rs @ [stmt_row env (ri_stmt r)]) df1
    \<and> df_i df1 = df_i df \<and> df_n_max df1 = df_n_max df \<and> df_names df1 = df_names df"
  using set_col_values_df [OF assms, of "stmt_row env (ri_stmt r)"]
  by (auto simp: stmt_source_def [abs_def])

definition fetch_sound ::
  "'vm stmt_env \<Rightarrow> data_type list \<Rightarrow> sqlite_row list \<Rightarrow> data_frame \<Rightarrow> 'vm result_impl \<Rightarrow>
     (r_error + data_frame) \<Rightarrow> 'vm result_impl \<Rightarrow> bool" where
  "fetch_sound env types rs df r out s \<longleftrightarrow>
     same_query r s \<and> ri_types s = ri_types r \<and>
     (case out of
        Inl e \<Rightarrow> \<not> is_UB e \<and> ri_nrows r \<le> ri_nrows s
      | Inr df' \<Rightarrow> (\<exists>rows.
          df_holds (env_packages env) (env_text env) (env_dates env) (ri_with_alt_types r) types (rs @ rows) df'
          \<and> df_i df' = length rs + length rows \<and> df_names df' = df_names df
          \<and> ri_nrows s = ri_nrows r + length rows
          \<and> (df_n_max df \<ge> 0 \<longrightarrow> rows = [] \<or> int (length rs + length rows) \<le> df_n_max df)
          \<and> (ri_complete s \<or> int (length rs + length rows) = df_n_max df)))"

lemma same_query_sym: "same_query r s \<Longrightarrow> same_query s r"
  by (simp add: same_query_def)

lemma add_row_fields:
  "same_query r s \<Longrightarrow> same_query r (s\<lparr>ri_nrows := n\<rparr>)" "params_safe (s\<lparr>ri_nrows := n\<rparr>) = params_safe s"
  by (simp_all add: same_query_def params_safe_def)

lemma fetch_sound_Cons:
  assumes "fetch_sound env types (rs @ [row]) df2 t out u"
    and "same_query r t" "ri_types t = ri_types r" "ri_nrows t = Suc (ri_nrows r)"
    and "df_n_max df2 = df_n_max df" "df_names df2 = df_names df"
    and "df_n_max df < 0 \<or> int (Suc (length rs)) < df_n_max df"
  shows "fetch_sound env types rs df r out u"
proof (cases out)
  case (Inl e)
  then show ?thesis
    using assms same_query_trans [OF assms(2)] by (auto simp: fetch_sound_def)
next
  case (Inr df')
  have alt: "ri_with_alt_types t = ri_with_alt_types r" using assms(2) by (simp add: same_query_def)
  obtain rows where rows:
    "df_holds (env_packages env) (env_text env) (env_dates env) (ri_with_alt_types r) types ((rs @ [row]) @ rows) df'"
    "df_i df' = length (rs @ [row]) + length rows" "df_names df' = df_names df"
    "ri_nrows u = Suc (ri_nrows r) + length rows"
    "df_n_max df \<ge> 0 \<longrightarrow> rows = [] \<or> int (length (rs @ [row]) + length rows) \<le> df_n_max df"
    "ri_complete u \<or> int (length (rs @ [row]) + length rows) = df_n_max df"
    using assms(1) Inr alt assms(4-6) by (auto simp: fetch_sound_def)
  moreover have "same_query r u" "ri_types u = ri_types r"
    using assms(1) same_query_trans [OF assms(2)] assms(3) by (simp_all add: fetch_sound_def)
  moreover have "df_n_max df \<ge> 0 \<longrightarrow> int (length rs + length (row # rows)) \<le> df_n_max df"
    using rows(5) assms(7) by auto
  ultimately show ?thesis
    unfolding fetch_sound_def Inr sum.case
    by (intro conjI exI [of _ "row # rows"]) simp_all
qed

text \<open>One turn of the loop.\<close>

lemma fetch_sound_turn:
  assumes inv: "df_holds (env_packages env) (env_text env) (env_dates env) (ri_with_alt_types r) types rs df"
      "df_i df = length rs" "params_safe r"
      "df_n_max df < 0 \<or> int (length rs) < df_n_max df"
    and turn: "(if ri_complete r then Some (Inr df, r, ws)
      else case set_col_values (env_packages env) (stmt_source env r) df of
        Inl e \<Rightarrow> Some (Inl e, r, ws)
      | Inr (df1, ws1) \<Rightarrow> (case step env r of
            (Inl e, s, ws2) \<Rightarrow> Some (Inl e, s, ws @ ws1 @ ws2)
          | (Inr _, s, ws2) \<Rightarrow>
              let t = s\<lparr>ri_nrows := Suc (ri_nrows s)\<rparr> in
              (case advance (intr (Suc (df_i df1))) df1 of
                 Inl e \<Rightarrow> Some (Inl e, t, ws @ ws1 @ ws2)
               | Inr (again, df2) \<Rightarrow>
                   if again then loop df2 (ws @ ws1 @ ws2) t
                   else Some (Inr df2, t, ws @ ws1 @ ws2)))) = Some (out, u, ws')"
    and loop: "\<And>df2 ws2 t rs2. loop df2 ws2 t = Some (out, u, ws') \<Longrightarrow>
      df_holds (env_packages env) (env_text env) (env_dates env) (ri_with_alt_types t) types rs2 df2 \<Longrightarrow>
      df_i df2 = length rs2 \<Longrightarrow> params_safe t \<Longrightarrow> (df_n_max df2 < 0 \<or> int (length rs2) < df_n_max df2) \<Longrightarrow>
      fetch_sound env types rs2 df2 t out u"
  shows "fetch_sound env types rs df r out u"
proof (cases "ri_complete r")
  case True
  then show ?thesis
    using turn inv(1,2) by (auto simp: fetch_sound_def same_query_def intro!: exI [of _ "[]"])
next
  case False
  obtain df1 ws1 where df1: "set_col_values (env_packages env) (stmt_source env r) df = Inr (df1, ws1)"
    "df_holds (env_packages env) (env_text env) (env_dates env) (ri_with_alt_types r) types
        (rs @ [stmt_row env (ri_stmt r)]) df1"
    "df_i df1 = df_i df" "df_n_max df1 = df_n_max df" "df_names df1 = df_names df"
    using set_col_values_some [OF inv(1)] by blast
  obtain y s ws2 where s: "step env r = (y, s, ws2)" by (cases "step env r") auto
  have keep: "same_query r s" "ri_nrows s = ri_nrows r" "ri_types s = ri_types r"
    using step_same_query [OF s] by simp_all
  show ?thesis
  proof (cases y)
    case (Inl e)
    then have "\<not> is_UB e" using step_safe [OF inv(3), of env] s by simp
    then show ?thesis using turn False df1(1) s Inl keep by (auto simp: fetch_sound_def)
  next
    case (Inr v)
    let ?t = "s\<lparr>ri_nrows := Suc (ri_nrows s)\<rparr>" and ?rs = "rs @ [stmt_row env (ri_stmt r)]"
    let ?df2 = "df1\<lparr>df_i := Suc (df_i df1)\<rparr>" and ?again = "df_n_max df < 0 \<or> int (Suc (length rs)) < df_n_max df"
    have t: "same_query r ?t" "params_safe ?t" "ri_types ?t = ri_types r" "ri_with_alt_types ?t = ri_with_alt_types r"
      using add_row_fields(1) [OF keep(1)] params_safe_same [OF keep(1) inv(3)] keep
      by (simp_all add: params_safe_def same_query_def)
    have holds: "df_holds (env_packages env) (env_text env) (env_dates env) (ri_with_alt_types r) types ?rs ?df2"
      using df1(2) by (simp add: df_holds_def)
    show ?thesis
    proof (cases "advance (intr (Suc (df_i df1))) df1")
      case (Inl e)
      then have "e = Interrupt" by (auto simp: advance_def Let_def split: if_splits)
      then show ?thesis
        using turn False df1(1) s \<open>y = Inr v\<close> Inl t(1,3) keep(2) by (auto simp: fetch_sound_def)
    next
      case (Inr p)
      then have p: "p = (?again, ?df2)"
        using df1(3,4) inv(2) by (auto simp: advance_def Let_def split: if_splits)
      show ?thesis
      proof (cases ?again)
        case True
        have "loop ?df2 (ws @ ws1 @ ws2) ?t = Some (out, u, ws')"
          using turn False df1(1) s \<open>y = Inr v\<close> Inr p True by (simp add: Let_def)
        from loop [OF this, of ?rs] holds t df1 inv(2) True
        have "fetch_sound env types ?rs ?df2 ?t out u" by simp
        then show ?thesis
          by (rule fetch_sound_Cons) (use t True keep(2) df1(4,5) in simp_all)
      next
        case again: False
        then have "out = Inr ?df2" "u = ?t"
          using turn False df1(1) s \<open>y = Inr v\<close> Inr p by (simp_all add: Let_def)
        then show ?thesis
          using holds t(1,3) keep(2) df1(3,5) inv(2,4) again
          by (auto simp: fetch_sound_def intro!: exI [of _ "[stmt_row env (ri_stmt r)]"])
      qed
    qed
  qed
qed

lemma fetch_loop_sound:
  assumes "fetch_loop env intr df ws r = Some (out, u, ws')"
    and "df_holds (env_packages env) (env_text env) (env_dates env) (ri_with_alt_types r) types rs df"
    and "df_i df = length rs" "params_safe r" "df_n_max df < 0 \<or> int (length rs) < df_n_max df"
  shows "fetch_sound env types rs df r out u"
proof -
  let ?P = "\<lambda>env intr df ws r y. \<forall>rs.
      df_holds (env_packages env) (env_text env) (env_dates env) (ri_with_alt_types r) types rs df \<longrightarrow>
      df_i df = length rs \<longrightarrow> params_safe r \<longrightarrow> (df_n_max df < 0 \<or> int (length rs) < df_n_max df) \<longrightarrow>
      fetch_sound env types rs df r (fst y) (fst (snd y))"
  have "?P env intr df ws r (out, u, ws')"
  proof (rule fetch_loop.raw_induct [of ?P, OF _ assms(1)], intro allI impI)
    fix fl env intr df ws r y rs
    assume IH: "\<And>env intr df ws r y. fl env intr df ws r = Some y \<Longrightarrow> ?P env intr df ws r y"
      and turn: "(if ri_complete r then Some (Inr df, r, ws)
      else case set_col_values (env_packages env) (stmt_source env r) df of
        Inl e \<Rightarrow> Some (Inl e, r, ws)
      | Inr (df1, ws1) \<Rightarrow> (case step env r of
            (Inl e, s, ws2) \<Rightarrow> Some (Inl e, s, ws @ ws1 @ ws2)
          | (Inr _, s, ws2) \<Rightarrow>
              let t = s\<lparr>ri_nrows := Suc (ri_nrows s)\<rparr> in
              (case advance (intr (Suc (df_i df1))) df1 of
                 Inl e \<Rightarrow> Some (Inl e, t, ws @ ws1 @ ws2)
               | Inr (again, df2) \<Rightarrow>
                   if again then fl env intr df2 (ws @ ws1 @ ws2) t
                   else Some (Inr df2, t, ws @ ws1 @ ws2)))) = Some y"
      and inv: "df_holds (env_packages env) (env_text env) (env_dates env) (ri_with_alt_types r) types rs df"
        "df_i df = length rs" "params_safe r" "df_n_max df < 0 \<or> int (length rs) < df_n_max df"
    obtain o' u' w' where y: "y = (o', u', w')" by (cases y) auto
    show "fetch_sound env types rs df r (fst y) (fst (snd y))"
      unfolding y fst_conv snd_conv
      by (rule fetch_sound_turn [OF inv turn [unfolded y]]) (use IH y in auto)
  qed
  then have "fetch_sound env types rs df r (fst (out, u, ws')) (fst (snd (out, u, ws')))"
    using assms(2-) by blast
  then show ?thesis by simp
qed

subsection \<open>Data frames are well formed\<close>

text \<open>
  A data frame of \<open>n\<close> rows: as many columns as names, every column a vector of \<open>n\<close> cells and
  of a type that columns have, and R's compact row names.
\<close>

definition column_vectors :: "sexptype set" where
  "column_vectors = {LGLSXP, INTSXP, REALSXP, STRSXP, VECSXP}"

definition frame_wf :: "r_data_frame \<Rightarrow> nat \<Rightarrow> bool" where
  "frame_wf f n \<longleftrightarrow>
     length (rdf_columns f) = length (rdf_names f) \<and>
     (\<forall>c \<in> set (rdf_columns f). Rf_xlength (rdata c) = n \<and> TYPEOF (rdata c) \<in> column_vectors) \<and>
     rdf_class f = ''data.frame'' \<and> rdf_row_names f = [NA_INTEGER, - of_nat n]"

lemma vector_of_length: "ty \<in> column_vectors \<Longrightarrow> Rf_xlength (vector_of ty cs) = length cs"
  by (cases ty) (simp_all add: column_vectors_def)

lemma datatype_vector: "dt \<noteq> DT_UNKNOWN \<Longrightarrow> sexptype_from_datatype dt \<in> column_vectors"
  by (cases dt) (simp_all add: INT64SXP_def column_vectors_def)

lemma out_types_known: "DT_UNKNOWN \<notin> set (out_types T D alt types rs e)"
  using sqlite_source.decl_known by (auto simp: out_types_def out_type_def dest: sym)

lemma length_out_types [simp]: "length (out_types T D alt types rs e) = length types"
  by (simp add: out_types_def)

lemma items_of_length: "length (items_of dt (map (sqlite_column_source T D alt j) rs)) = length rs"
proof -
  obtain its ws where "read_items (start_type dt) (map (sqlite_column_source T D alt j) rs) = Inr (its, ws)"
    using sqlite_source.read_items_total by blast
  then show ?thesis using read_items_length by (fastforce simp: items_of_def)
qed

lemma frame_ref_wf:
  assumes "length names = length types"
  shows "frame_wf (frame_ref P T D alt types names rs keep e) (if keep then length rs else 0)"
proof -
  have "out_types T D alt types rs e ! j \<noteq> DT_UNKNOWN" if "j < length types" for j
    using out_types_known [of T D alt types rs e] that by (metis length_out_types nth_mem)
  then have v: "sexptype_from_datatype (out_types T D alt types rs e ! j) \<in> column_vectors"
    if "j < length types" for j using that datatype_vector by blast
  then show ?thesis
    using assms
    by (auto simp: frame_wf_def frame_ref_def column_ref_def vector_of_length items_of_length TYPEOF_vector_of)
qed

subsection \<open>What every call keeps\<close>

text \<open>
  The invariant of a result: a type for every column name; the parameters of all groups can be
  read; a complete result was bound, and a query without parameters is always bound.
\<close>

definition result_ok :: "'vm result_impl \<Rightarrow> bool" where
  "result_ok r \<longleftrightarrow> length (ri_types r) = length (ri_names r) \<and> params_safe r \<and>
     (ri_complete r \<longrightarrow> ri_ready r) \<and> (ri_nparams r = 0 \<longrightarrow> ri_ready r) \<and>
     (ri_params r \<noteq> [] \<longrightarrow> length (ri_params r) = ri_nparams r)"

lemma result_okD:
  assumes "result_ok r"
  shows "length (ri_names r) = length (ri_types r)" "params_safe r"
  using assms by (simp_all add: result_ok_def)

lemma result_ok_same_query:
  "result_ok r \<Longrightarrow> same_query r s \<Longrightarrow> ri_types s = ri_types r \<Longrightarrow> ri_ready r \<Longrightarrow> result_ok s"
  using params_safe_same [of r s] by (simp add: result_ok_def same_query_def)

lemma result_ok_types: "result_ok r \<Longrightarrow> length ts = length (ri_types r) \<Longrightarrow> result_ok (r\<lparr>ri_types := ts\<rparr>)"
  by (simp add: result_ok_def params_safe_def)

text \<open>What a fetch of at most \<open>n_max\<close> rows may do to a result.\<close>

definition fetch_ok :: "int \<Rightarrow> 'vm result_impl \<Rightarrow> (r_error + r_data_frame) \<Rightarrow> 'vm result_impl \<Rightarrow> bool" where
  "fetch_ok n_max r out s \<longleftrightarrow> result_ok s \<and> ri_names s = ri_names r \<and> ri_nparams s = ri_nparams r \<and>
     ri_with_alt_types s = ri_with_alt_types r \<and>
     (case out of
        Inl e \<Rightarrow> \<not> is_UB e
      | Inr f \<Rightarrow> \<exists>n. frame_wf f n \<and> rdf_names f = ri_names r \<and> ri_nrows s = ri_nrows r + n \<and>
          (0 \<le> n_max \<longrightarrow> int n \<le> n_max) \<and> (n_max \<noteq> 0 \<longrightarrow> ri_complete s \<or> int n = n_max) \<and>
          DT_UNKNOWN \<notin> set (ri_types s))"

lemma fetch_rows_sound:
  assumes P: "packages_keep_data (env_packages env)" and ok: "result_ok r" "ri_ready r" and n: "n_max \<noteq> 0"
    and run: "fetch_rows env intr n_max r = Some (out, s, ws)"
  shows "fetch_ok n_max r out s"
proof -
  let ?df = "data_frame_new (env_packages env) (ri_names r) n_max (ri_types r)"
  let ?ws = "if ri_complete r \<and> get_ncols ?df = 0 then [no_columns_warning] else []"
  note new = df_holds_new [OF P, of "env_text env" "env_dates env" "ri_with_alt_types r" "ri_types r" "ri_names r" n_max]
  obtain o1 s1 ws1 where loop: "fetch_loop env intr ?df ?ws r = Some (o1, s1, ws1)"
    using run by (cases "fetch_loop env intr ?df ?ws r") (auto simp: fetch_rows_def Let_def)
  have "df_n_max ?df < 0 \<or> int (length []) < df_n_max ?df" using n by auto
  from fetch_loop_sound [OF loop new _ result_okD(2) [OF ok(1)] this]
  have sound: "fetch_sound env (ri_types r) [] ?df r o1 s1" by simp
  then have keep: "same_query r s1" "ri_types s1 = ri_types r" by (simp_all add: fetch_sound_def)
  note s1 = result_ok_same_query [OF ok(1) keep ok(2)]
  have same: "ri_names s1 = ri_names r" "ri_nparams s1 = ri_nparams r" "ri_with_alt_types s1 = ri_with_alt_types r"
    using keep by (simp_all add: same_query_def)
  show ?thesis
  proof (cases o1)
    case (Inl e)
    then show ?thesis
      using run loop sound s1 same by (auto simp: fetch_rows_def Let_def fetch_ok_def fetch_sound_def)
  next
    case (Inr df')
    then obtain rows where rows: "df_holds (env_packages env) (env_text env) (env_dates env)
        (ri_with_alt_types s1) (ri_types r) rows df'"
      "df_i df' = length rows" "df_names df' = ri_names r" "ri_nrows s1 = ri_nrows r + length rows"
      "0 \<le> n_max \<longrightarrow> int (length rows) \<le> n_max" "ri_complete s1 \<or> int (length rows) = n_max"
      using sound same(3) n by (auto simp: fetch_sound_def)
    note data = take_data_ok [OF rows(1), of True]
    show ?thesis
      using run loop Inr data rows(2-6) result_okD(1) [OF ok(1)] s1 same keep(2)
        frame_ref_wf [where keep = True] out_types_known
      by (auto simp: fetch_rows_def Let_def fetch_ok_def result_ok_types frame_ref_def)
  qed
qed

lemma peek_first_row_sound:
  assumes P: "packages_keep_data (env_packages env)" and ok: "result_ok r"
    and run: "peek_first_row env r = (out, s, ws)"
  shows "fetch_ok 0 r out s"
proof -
  let ?df = "data_frame_new (env_packages env) (ri_names r) 1 (ri_types r)"
  note new = df_holds_new [OF P, of "env_text env" "env_dates env" "ri_with_alt_types r" "ri_types r" "ri_names r" 1]
  note names = result_okD(1) [OF ok]
  obtain df' ws' rows where df': "(if ri_complete r then ret ?df
      else set_col_values (env_packages env) (stmt_source env r) ?df) = Inr (df', ws')"
    "df_holds (env_packages env) (env_text env) (env_dates env) (ri_with_alt_types r) (ri_types r) rows df'"
    "df_i df' = 0" "df_names df' = ri_names r"
    using set_col_values_some [OF new] new by (cases "ri_complete r") (auto simp: ret_def)
  note data = take_data_ok [OF df'(2), of False]
  show ?thesis
    using run df' data names frame_ref_wf [where keep = False] out_types_known
    by (auto simp: peek_first_row_def Let_def abind_def alift_def fetch_ok_def frame_ref_def
        intro!: result_ok_types [OF ok])
qed

lemma result_fetch_sound:
  assumes "packages_keep_data (env_packages env)" "result_ok r"
    and "result_fetch env intr n_max r = Some (out, s, ws)"
  shows "fetch_ok n_max r out s"
  using assms fetch_rows_sound [OF assms(1,2)] peek_first_row_sound [OF assms(1,2)]
  by (cases "ri_ready r"; cases "n_max = 0") (auto simp: result_fetch_def athrow_def fetch_ok_def)

lemma db_fetch_sound:
  assumes "packages_keep_data (env_packages env)" "result_ok r"
    and "db_fetch env intr n_max r = Some (out, s, ws)"
  shows "fetch_ok n_max r out s"
  using result_fetch_sound [OF assms(1,2)] assms(3) by (simp add: db_fetch_def is_current_result_def)

lemma after_bind_keeps:
  assumes "after_bind env b r = (x, s, ws)"
  shows "same_query (r\<lparr>ri_ready := True\<rparr>) s \<and> ri_types s = ri_types r \<and> ri_nrows s = 0"
proof -
  let ?r = "r\<lparr>ri_ready := True, ri_nrows := 0, ri_complete := \<not> b\<rparr>"
  have "x = Inr () \<and> s = ?r \<or> (\<exists>ws'. step env ?r = (x, s, ws'))"
    using assms by (cases b) (auto simp: after_bind_def result_init_def amodify_def areturn_def abind_def split: prod.splits)
  then show ?thesis
    using step_same_query [of env ?r x s] by (auto simp: same_query_def)
qed

text \<open>Parameters that passed the length check are safe in every group.\<close>

lemma validated_params_safe:
  assumes "validate_params params = Inr u" "\<forall>p \<in> set params. initialised (rdata p)"
  shows "\<forall>p \<in> set params. \<forall>g < Rf_xlength (rdata (hd params)). \<not> undefined_behaviour (bind_value p g)"
  using assms validate_params_ok [of params] bind_value_safe by (metis unit.exhaust)

lemma result_bind_ok:
  assumes ok: "result_ok r" and safe: "\<forall>p \<in> set params. \<forall>g < Rf_xlength (rdata (hd params)). \<not> undefined_behaviour (bind_value p g)"
    and run: "result_bind env params r = (x, s, ws)"
  shows "result_ok s \<and> ri_names s = ri_names r \<and> ri_nparams s = ri_nparams r
    \<and> ri_with_alt_types s = ri_with_alt_types r \<and> ri_types s = ri_types r"
proof (cases "ri_nparams r = 0 \<or> length params \<noteq> ri_nparams r")
  case True
  then show ?thesis using run ok by (auto simp: result_bind_def athrow_def split: if_splits)
next
  case False
  let ?r = "r\<lparr>ri_params := params, ri_groups := Rf_xlength (rdata (hd params)), ri_group := 0,
     ri_total_changes_start := sqlite3_total_changes env (ri_stmt r)\<rparr>"
  have ok': "result_ok ?r" using ok safe False by (simp add: result_ok_def params_safe_def)
  obtain y t ws1 where t: "bind_row env ?r = (y, t, ws1)" by (cases "bind_row env ?r") auto
  then have "stmt_only ?r t" using bind_row_stmt_only [of ?r env] by simp
  then have t_ok: "result_ok t" "ri_names t = ri_names r" "ri_nparams t = ri_nparams r"
      "ri_with_alt_types t = ri_with_alt_types r" "ri_types t = ri_types r"
    using ok' by (simp_all add: result_ok_def params_safe_def stmt_only_fields)
  show ?thesis
  proof (cases y)
    case (Inl e)
    then show ?thesis using run t t_ok False by (simp add: result_bind_def abind_def)
  next
    case (Inr b)
    then obtain ws2 where "after_bind env b t = (x, s, ws2)"
      using run t False by (auto simp: result_bind_def abind_def split: prod.splits)
    from after_bind_keeps [OF this]
    have k: "same_query (t\<lparr>ri_ready := True\<rparr>) s" "ri_types s = ri_types t" by simp_all
    have "result_ok (t\<lparr>ri_ready := True\<rparr>)" using t_ok(1) by (simp add: result_ok_def params_safe_def)
    from result_ok_same_query [OF this k(1)] k t_ok show ?thesis
      by (simp add: same_query_def)
  qed
qed

lemma db_bind_ok:
  assumes "result_ok r" "\<forall>p \<in> set params. initialised (rdata p)" "db_bind env params r = (x, s, ws)"
  shows "result_ok s \<and> ri_names s = ri_names r"
proof (cases "validate_params params")
  case (Inl e)
  then show ?thesis using assms by (simp add: db_bind_def abind_def alift_def)
next
  case (Inr u)
  obtain ws' where "result_bind env params r = (x, s, ws')"
    using assms(3) Inr by (auto simp: db_bind_def abind_def alift_def ret_def split: prod.splits)
  from result_bind_ok [OF assms(1) validated_params_safe [OF Inr assms(2)] this] show ?thesis by simp
qed

lemma get_column_info_sound:
  assumes P: "packages_keep_data (env_packages env)" and ok: "result_ok r"
    and run: "get_column_info env r = (x, s, ws)"
  shows "result_ok s \<and> ri_names s = ri_names r \<and> ri_nrows s = ri_nrows r \<and>
    (\<exists>types. x = Inr (ri_names r, types) \<and> length types = length (ri_names r))"
proof -
  let ?df = "data_frame_new (env_packages env) (ri_names r) 1 (ri_types r)"
  obtain y t ws1 where t: "peek_first_row env r = (y, t, ws1)" by (cases "peek_first_row env r") auto
  note sound = peek_first_row_sound [OF P ok t]
  have "\<exists>f. y = Inr f"
  proof -
    note new = df_holds_new [OF P, of "env_text env" "env_dates env" "ri_with_alt_types r" "ri_types r" "ri_names r" 1]
    obtain df' ws' rows where df': "(if ri_complete r then ret ?df
        else set_col_values (env_packages env) (stmt_source env r) ?df) = Inr (df', ws')"
      "df_holds (env_packages env) (env_text env) (env_dates env) (ri_with_alt_types r) (ri_types r) rows df'"
      "df_i df' = 0" "df_names df' = ri_names r"
      using set_col_values_some [OF new] new by (cases "ri_complete r") (auto simp: ret_def)
    from take_data_ok [OF df'(2), of False] df' t result_okD(1) [OF ok] show ?thesis
      by (auto simp: peek_first_row_def Let_def abind_def alift_def)
  qed
  then obtain f where f: "y = Inr f" ..
  obtain m where "ri_nrows t = ri_nrows r + m" "int m \<le> 0"
    using sound f by (auto simp: fetch_ok_def)
  moreover have "result_ok t" "ri_names t = ri_names r" using sound by (simp_all add: fetch_ok_def)
  moreover have "s = t" "x = Inr (ri_names t, map type_name (ri_types t))"
    using run t f by (auto simp: get_column_info_def abind_def areturn_def)
  ultimately show ?thesis
    using result_okD(1) [of t] by simp
qed

subsection \<open>All results\<close>

text \<open>
  The calls on one result in any order, with any arguments, whether they succeed or fail.  R
  interrupts, statements that fail and parameters of wrong types and lengths are all included.
\<close>

inductive result_step :: "'vm stmt_env \<Rightarrow> 'vm result_impl \<Rightarrow> 'vm result_impl \<Rightarrow> bool" for env where
  bind: "\<forall>p \<in> set params. initialised (rdata p) \<Longrightarrow> db_bind env params r = (x, s, ws) \<Longrightarrow> result_step env r s"
| fetch: "db_fetch env intr n_max r = Some (out, s, ws) \<Longrightarrow> result_step env r s"
| column_info: "db_get_column_info env r = (info, s, ws) \<Longrightarrow> result_step env r s"

inductive result_reachable :: "'vm stmt_env \<Rightarrow> 'vm result_impl \<Rightarrow> bool" for env where
  created: "result_impl_new env True alt p = Inr (r, ws) \<Longrightarrow> result_reachable env r"
| called: "result_reachable env r \<Longrightarrow> result_step env r s \<Longrightarrow> result_reachable env s"

lemma result_impl_start_ok: "ri_nparams (result_impl_start env alt vm) \<noteq> 0 \<Longrightarrow> result_ok (result_impl_start env alt vm)"
  by (simp add: result_impl_start_def result_ok_def params_safe_def get_initial_field_types_def Let_def)

lemma result_impl_open_safe: "\<not> undefined_behaviour (fst (result_impl_open env (result_impl_start env alt vm)))"
proof -
  have "params_safe (result_impl_start env alt vm\<lparr>ri_ready := True, ri_nrows := 0, ri_complete := False\<rparr>)"
    by (simp add: result_impl_start_def params_safe_def Let_def)
  from step_safe [OF this, of env] show ?thesis
    by (auto simp: result_impl_open_def after_bind_def result_init_def amodify_def abind_def areturn_def
        split: prod.splits)
qed

lemma result_impl_open_ok:
  assumes "result_impl_open env (result_impl_start env alt vm) = (x, r, ws)"
  shows "result_ok r"
proof (cases "ri_nparams (result_impl_start env alt vm) = 0")
  case True
  let ?s = "result_impl_start env alt vm"
  have "after_bind env True ?s = (x, r, ws)" using assms True by (simp add: result_impl_open_def)
  note k = after_bind_keeps [OF this]
  have "result_ok (?s\<lparr>ri_ready := True\<rparr>)"
    by (simp add: result_impl_start_def result_ok_def params_safe_def get_initial_field_types_def Let_def)
  from result_ok_same_query [OF this] k show ?thesis by simp
next
  case False
  then show ?thesis using assms result_impl_start_ok by (auto simp: result_impl_open_def areturn_def)
qed

lemma result_impl_new_ok:
  assumes "result_impl_new env c alt p = Inr (r, ws)"
  shows "result_ok r"
proof -
  obtain vm ws0 ws1 where vm: "prepare p = Inr (vm, ws0)"
    "(case result_impl_open env (result_impl_start env alt vm) of
        (Inl e, _, _) \<Rightarrow> Inl e | (Inr _, r', ws) \<Rightarrow> Inr (r', ws)) = Inr (r, ws1)"
    using assms by (auto simp: result_impl_new_def ebind_eq_Inr split: if_splits)
  obtain x t ws2 where t: "result_impl_open env (result_impl_start env alt vm) = (x, t, ws2)"
    by (cases "result_impl_open env (result_impl_start env alt vm)") auto
  then have "t = r" using vm(2) by (cases x) simp_all
  with result_impl_open_ok [OF t] show ?thesis by simp
qed

lemma result_step_ok:
  assumes "packages_keep_data (env_packages env)"
  shows "result_step env r s \<Longrightarrow> result_ok r \<Longrightarrow> result_ok s \<and> ri_names s = ri_names r"
proof (induction rule: result_step.induct)
  case (bind params r x s ws)
  then show ?case using db_bind_ok by blast
next
  case (fetch intr n_max r out s ws)
  then show ?case
    using db_fetch_sound [OF assms fetch(2) fetch(1)] by (simp add: fetch_ok_def)
next
  case (column_info r info s ws)
  obtain x t ws1 where t: "get_column_info env r = (x, t, ws1)" by (cases "get_column_info env r") auto
  from get_column_info_sound [OF assms column_info(2) t] t column_info(1) show ?case
    by (auto simp: db_get_column_info_def abind_def areturn_def)
qed

lemma result_reachable_ok:
  assumes "packages_keep_data (env_packages env)"
  shows "result_reachable env r \<Longrightarrow> result_ok r"
proof (induction rule: result_reachable.induct)
  case (created alt p r ws)
  then show ?case by (rule result_impl_new_ok)
next
  case (called r s)
  then show ?case using result_step_ok [OF assms] by blast
qed

end
