(* ===== verification/ResultRunProps.thy ===== *)
theory ResultRunProps
  imports ResultRun
begin

text \<open>
  Properties of a result over its life: data frames are well formed and no call is undefined
  whatever the statement does; chunks add up to the whole; what a failing step loses; how many
  rows a statement with several groups of parameters affects.
\<close>

subsection \<open>Every call on every reachable result\<close>

text \<open>
  C7: every fetch on a result R can reach gives a well-formed data frame or a proper error: the
  columns and their names match, all columns are vectors with as many cells as the data frame
  has rows, at most as many as were asked for, and fewer only when the result is complete; the
  row counter goes up by exactly that many.
\<close>

theorem fetch_well_typed:
  assumes "packages_keep_data (env_packages env)" "result_reachable env r"
    and "db_fetch env intr n_max r = Some (out, s, ws)"
  shows "case out of
      Inl e \<Rightarrow> \<not> is_UB e
    | Inr f \<Rightarrow> \<exists>n. frame_wf f n \<and> rdf_names f = ri_names r \<and> ri_nrows s = ri_nrows r + n
        \<and> (0 \<le> n_max \<longrightarrow> int n \<le> n_max) \<and> (n_max \<noteq> 0 \<longrightarrow> ri_complete s \<or> int n = n_max)"
  using db_fetch_sound [OF assms(1) result_reachable_ok [OF assms(1,2)] assms(3)]
  by (cases out) (auto simp: fetch_ok_def)

lemma script_result_reachable: "result_reachable (script_env prog (Suc n) names) (script_result (Suc n) names)"
  by (rule result_reachable.created [of _ False "Prepared ([], None, no_row) None" _ "[]"])
    (simp add: result_impl_new_def prepare_def result_impl_open_def result_impl_start_def script_env_def
      script_result_def get_initial_field_types_def get_column_names_def map_nth areturn_def Let_def)

text \<open>The result of \<open>script_env\<close> after binding one value.\<close>

definition script_bound :: "sqlite_value \<Rightarrow> sqlite_row list \<Rightarrow> sqlite_row \<Rightarrow> robj list \<Rightarrow> script_vm result_impl" where
  "script_bound v todo cur params = (script_result 1 [''x''])
     \<lparr>ri_stmt := ([v], Some todo, cur), ri_ready := True, ri_params := params, ri_groups := 1\<rparr>"

lemma script_bind_one:
  assumes "prog [SqlInt 5] = row # rows"
  shows "db_bind (script_env prog 1 [''x'']) [plain (IntSXP [Some 5])] (script_result 1 [''x''])
    = (Inr (), script_bound (SqlInt 5) rows row [plain (IntSXP [Some 5])], [])"
proof -
  have v: "bind_value (plain (IntSXP [Some 5])) 0 = Inr (SqlInt 5)"
    by (simp add: bind_value_def plain_def INT64SXP_def get_init_def get_cell_def NA_INTEGER_def Let_def)
  show ?thesis
    using assms v
    by (simp add: db_bind_def validate_params_def result_bind_def bind_row_def bind_parameter_pos_def
        after_bind_def result_init_def step.simps step_run_def abind_def alift_def areturn_def amodify_def
        ret_def plain_def script_env_def script_result_def script_bound_def)
qed

lemma script_bound_reachable:
  assumes "prog [SqlInt 5] = row # rows"
  shows "result_reachable (script_env prog 1 [''x'']) (script_bound (SqlInt 5) rows row [plain (IntSXP [Some 5])])"
proof -
  have "result_step (script_env prog 1 [''x'']) (script_result 1 [''x''])
      (script_bound (SqlInt 5) rows row [plain (IntSXP [Some 5])])"
    by (rule result_step.bind [OF _ script_bind_one [of prog, OF assms]]) (simp add: plain_def)
  with script_result_reachable [of prog 0] show ?thesis by (auto intro: result_reachable.called)
qed

lemma script_bound_delivers:
  "delivers (script_env prog 1 [''x'']) (script_bound v rows row [plain (IntSXP [Some 5])]) (row # rows)"
proof (induction rows arbitrary: row)
  case Nil
  then show ?case
    by (simp add: script_bound_def script_env_def script_result_def step.simps step_run_def step_done_def
        bind_row_def abind_def areturn_def)
next
  case (Cons row' rows)
  have "step (script_env prog 1 [''x'']) (script_bound v (row' # rows) row [plain (IntSXP [Some 5])])
      = (Inr (), script_bound v rows row' [plain (IntSXP [Some 5])], [])"
    by (simp add: script_bound_def script_env_def script_result_def step.simps step_run_def areturn_def)
  then show ?case
    using Cons.IH [of row'] by (simp add: script_bound_def script_env_def script_result_def)
qed

theorem fetch_well_typed_witness:
  "\<exists>f s ws. db_fetch (script_env (\<lambda>_. [int_row 1, int_row 2]) 1 [''x'']) (\<lambda>_. False) 1
      (script_bound (SqlInt 5) [int_row 2] (int_row 1) [plain (IntSXP [Some 5])]) = Some (Inr f, s, ws)
    \<and> rdf_names f = [''x''] \<and> (\<exists>n. frame_wf f n \<and> ri_nrows s = n \<and> int n \<le> 1)"
proof -
  let ?env = "script_env (\<lambda>_. [int_row 1, int_row 2]) 1 [''x'']"
  let ?r = "script_bound (SqlInt 5) [int_row 2] (int_row 1) [plain (IntSXP [Some 5])]"
  have r: "result_reachable ?env ?r" "delivers ?env ?r ([int_row 1] @ [int_row 2])"
    using script_bound_reachable [of "\<lambda>_. [int_row 1, int_row 2]"] script_bound_delivers by simp_all
  obtain f s ws where f: "db_fetch ?env (\<lambda>_. False) 1 ?r = Some (Inr f, s, ws)"
    using fetch_rows_ok [where intr = "\<lambda>_. False" and n_max = 1, OF _ _ r(2)]
    by (auto simp: db_fetch_def is_current_result_def result_fetch_def script_bound_def script_result_def Let_def)
  from fetch_well_typed [OF _ r(1) f] f show ?thesis
    by (auto simp: script_bound_def script_result_def)
qed

text \<open>
  No call on a reachable result is undefined: neither binding any vectors of values,
  whatever their types, lengths and number, nor fetching, nor asking for the columns, which
  always succeeds.
\<close>

theorem result_calls_safe:
  assumes P: "packages_keep_data (env_packages env)" and r: "result_reachable env r"
  shows "(\<forall>params. (\<forall>p \<in> set params. initialised (rdata p)) \<longrightarrow> \<not> undefined_behaviour (fst (db_bind env params r)))
    \<and> (\<forall>intr n_max out s ws. db_fetch env intr n_max r = Some (out, s, ws) \<longrightarrow> \<not> undefined_behaviour out)
    \<and> (\<exists>types s ws. db_get_column_info env r = (Inr (ri_names r, types, [NA_INTEGER, - of_nat (length types)]), s, ws)
        \<and> length types = length (ri_names r))"
proof (intro conjI allI impI)
  fix params :: "robj list"
  assume init: "\<forall>p \<in> set params. initialised (rdata p)"
  then show "\<not> undefined_behaviour (fst (db_bind env params r))" by (rule db_bind_safe)
next
  fix intr n_max out s ws
  assume "db_fetch env intr n_max r = Some (out, s, ws)"
  from db_fetch_sound [OF P result_reachable_ok [OF P r] this] show "\<not> undefined_behaviour out"
    by (cases out) (auto simp: fetch_ok_def)
next
  obtain x t ws where t: "get_column_info env r = (x, t, ws)" by (cases "get_column_info env r") auto
  from get_column_info_sound [OF P result_reachable_ok [OF P r] t] t
  show "\<exists>types s ws. db_get_column_info env r = (Inr (ri_names r, types, [NA_INTEGER, - of_nat (length types)]), s, ws)
        \<and> length types = length (ri_names r)"
    by (auto simp: db_get_column_info_def abind_def areturn_def)
qed

theorem result_calls_safe_witness:
  "\<not> undefined_behaviour (fst (db_bind (script_env (\<lambda>_. [int_row 1]) 1 [''x'']) [plain (VecSXP [NilSXP]), plain NilSXP]
      (script_bound (SqlInt 5) [] (int_row 1) [plain (IntSXP [Some 5])])))"
  using result_calls_safe [OF _ script_bound_reachable [of "\<lambda>_. [int_row 1]" "int_row 1" "[]"]]
  by (simp add: plain_def)

subsection \<open>Chunks\<close>

text \<open>A client that fetches chunk after chunk.\<close>

fun fetch_many ::
  "'vm stmt_env \<Rightarrow> (nat \<Rightarrow> bool) \<Rightarrow> nat list \<Rightarrow> 'vm result_impl \<Rightarrow> ((r_error + r_data_frame list) \<times> 'vm result_impl) option" where
  "fetch_many env intr [] r = Some (Inr [], r)"
| "fetch_many env intr (k # ks) r =
     (case db_fetch env intr (int k) r of
        None \<Rightarrow> None
      | Some (Inl e, s, _) \<Rightarrow> Some (Inl e, s)
      | Some (Inr f, s, _) \<Rightarrow> (case fetch_many env intr ks s of
            None \<Rightarrow> None
          | Some (Inl e, t) \<Rightarrow> Some (Inl e, t)
          | Some (Inr fs, t) \<Rightarrow> Some (Inr (f # fs), t)))"

text \<open>The data frames it gets for \<open>rows\<close>: each chunk starts with the types the one before ended with.\<close>

fun chunk_frames ::
  "'vm stmt_env \<Rightarrow> bool \<Rightarrow> string list \<Rightarrow> data_type list \<Rightarrow> sqlite_row list \<Rightarrow> nat list \<Rightarrow> r_data_frame list \<Rightarrow> bool" where
  "chunk_frames env alt names types rows [] fs \<longleftrightarrow> fs = []"
| "chunk_frames env alt names types rows (k # ks) fs \<longleftrightarrow>
     (\<exists>e f fs'. fs = f # fs' \<and>
        f = frame_ref (env_packages env) (env_text env) (env_dates env) alt types names (take k rows) True e \<and>
        chunk_frames env alt names (out_types (env_text env) (env_dates env) alt types (take k rows) e)
          (drop k rows) ks fs')"

text \<open>One chunk of a ready result.\<close>

lemma result_fetch_chunk:
  assumes P: "packages_keep_data (env_packages env)" and quiet: "\<And>i. \<not> intr i"
    and r: "delivers env r rows" "ri_ready r" "length (ri_names r) = length (ri_types r)"
    and n: "n_max \<noteq> 0" "k = (if n_max < 0 then length rows else nat n_max)"
  shows "\<exists>s ws. result_fetch env intr n_max r = Some (Inr (frame_of env r (take k rows) True (end_row env (length (take k rows)) r)), s, ws)
    \<and> delivers env s (drop k rows) \<and> ri_ready s \<and> ri_names s = ri_names r \<and> ri_with_alt_types s = ri_with_alt_types r
    \<and> ri_nrows s = ri_nrows r + min k (length rows)
    \<and> ri_types s = types_after env r (take k rows) (end_row env (length (take k rows)) r)"
proof -
  let ?e = "end_row env (length (take k rows)) r" and ?u = "stepped env (length (take k rows)) r"
  let ?s = "(add_rows (length (take k rows)) ?u)\<lparr>ri_types := types_after env r (take k rows) ?e\<rparr>"
  have "delivers env ?u (drop k rows)"
    using delivers_stepped [of env r "take k rows" "drop k rows"] r(1) by simp
  then have "delivers env ?s (drop k rows)"
    using delivers_set_seen [of env "ri_nrows ?u + length (take k rows)" "types_after env r (take k rows) ?e" ?u "drop k rows"]
    by (simp add: add_rows_def set_seen_def)
  moreover have "ri_ready ?s" "ri_names ?s = ri_names r" "ri_with_alt_types ?s = ri_with_alt_types r"
      "ri_nrows ?s = ri_nrows r + min k (length rows)"
    using stepped_same_query [of r env "length (take k rows)"] r(2)
    by (simp_all add: same_query_def add_rows_def min.commute)
  moreover have "\<exists>ws. fetch_rows env intr n_max r = Some (Inr (frame_of env r (take k rows) True ?e), ?s, ws)"
  proof -
    have rows: "delivers env r (take k rows @ drop k rows)" using r(1) by simp
    have "drop k rows \<noteq> [] \<longrightarrow> int (length (take k rows)) = n_max" "n_max < 0 \<or> int (length (take k rows)) \<le> n_max"
      using n by (auto split: if_splits)
    note f = fetch_rows_ok [where intr = intr and n_max = n_max, OF P quiet rows r(3) n(1) this]
    show ?thesis by (simp only: f Let_def) blast
  qed
  ultimately show ?thesis
    using r(2) n(1) by (auto simp: result_fetch_def)
qed

lemma fetch_many_ok:
  assumes P: "packages_keep_data (env_packages env)" and quiet: "\<And>i. \<not> intr i"
  shows "0 \<notin> set ks \<Longrightarrow> delivers env r rows \<Longrightarrow> ri_ready r \<Longrightarrow> length (ri_names r) = length (ri_types r) \<Longrightarrow>
    \<exists>fs s. fetch_many env intr ks r = Some (Inr fs, s)
      \<and> chunk_frames env (ri_with_alt_types r) (ri_names r) (ri_types r) rows ks fs
      \<and> delivers env s (drop (sum_list ks) rows) \<and> ri_nrows s = ri_nrows r + min (sum_list ks) (length rows)"
proof (induction ks arbitrary: r rows)
  case (Cons k ks)
  then have k: "int k \<noteq> 0" "k = (if int k < 0 then length rows else nat (int k))" by auto
  let ?e = "end_row env (length (take k rows)) r"
  obtain s ws where s: "result_fetch env intr (int k) r = Some (Inr (frame_of env r (take k rows) True ?e), s, ws)"
    "delivers env s (drop k rows)" "ri_ready s" "ri_names s = ri_names r" "ri_with_alt_types s = ri_with_alt_types r"
    "ri_nrows s = ri_nrows r + min k (length rows)" "ri_types s = types_after env r (take k rows) ?e"
    using result_fetch_chunk [where intr = intr, OF P quiet Cons.prems(2-4) k] by blast
  have "length (ri_names s) = length (ri_types s)"
    using s(4,7) Cons.prems(4) by (simp add: types_after_def)
  then obtain fs t where t: "fetch_many env intr ks s = Some (Inr fs, t)"
    "chunk_frames env (ri_with_alt_types s) (ri_names s) (ri_types s) (drop k rows) ks fs"
    "delivers env t (drop (sum_list ks) (drop k rows))"
    "ri_nrows t = ri_nrows s + min (sum_list ks) (length (drop k rows))"
    using Cons.IH [of s "drop k rows"] Cons.prems(1) s(2,3) by auto
  have "min k (length rows) + min (sum_list ks) (length rows - k) = min (k + sum_list ks) (length rows)" by simp
  with s t show ?case
    by (auto simp: db_fetch_def is_current_result_def frame_of_def types_after_def add.commute add.left_commute)
qed simp

text \<open>
  C17: fetching chunk after chunk gives consecutive pieces of the rows, each as many as asked for
  while there are any, none lost or repeated; the row counter is the number of rows handed
  out, and the result says it is complete exactly when none is left, already with the chunk
  that took the last one.
\<close>

theorem chunked_fetches:
  assumes P: "packages_keep_data (env_packages env)" and quiet: "\<And>i. \<not> intr i" and ks: "0 \<notin> set ks"
    and r: "delivers env r rows" "ri_ready r" "length (ri_names r) = length (ri_types r)" "ri_nrows r = 0"
  shows "\<exists>fs s. fetch_many env intr ks r = Some (Inr fs, s)
    \<and> chunk_frames env (ri_with_alt_types r) (ri_names r) (ri_types r) rows ks fs
    \<and> ri_nrows s = min (sum_list ks) (length rows)
    \<and> (ri_complete s \<longleftrightarrow> length rows \<le> sum_list ks)"
proof -
  obtain fs s where s: "fetch_many env intr ks r = Some (Inr fs, s)"
      "chunk_frames env (ri_with_alt_types r) (ri_names r) (ri_types r) rows ks fs"
      "delivers env s (drop (sum_list ks) rows)" "ri_nrows s = ri_nrows r + min (sum_list ks) (length rows)"
    using fetch_many_ok [where intr = intr, OF P quiet ks r(1-3)] by blast
  have "ri_complete s \<longleftrightarrow> drop (sum_list ks) rows = []"
    using s(3) by (cases "drop (sum_list ks) rows") simp_all
  with s r(4) show ?thesis by auto
qed

theorem chunked_fetches_witness:
  "\<exists>fs s. fetch_many (script_env (\<lambda>_. []) 1 [''x'']) (\<lambda>_. False) [2, 1, 1]
      (script_bound (SqlInt 5) [int_row 2, int_row 3] (int_row 1) [plain (IntSXP [Some 5])]) = Some (Inr fs, s)
    \<and> length fs = 3 \<and> ri_nrows s = 3 \<and> ri_complete s"
proof -
  have len: "chunk_frames env alt names types rows ks fs \<Longrightarrow> length fs = length ks" for env :: "script_vm stmt_env"
    and alt names types rows ks fs
    by (induction env alt names types rows ks fs rule: chunk_frames.induct) auto
  show ?thesis
    using chunked_fetches [where intr = "\<lambda>_. False" and ks = "[2, 1, 1]", OF _ _ _ script_bound_delivers
        [of "\<lambda>_. []" "SqlInt 5" "[int_row 2, int_row 3]" "int_row 1"]]
    by (auto simp: script_bound_def script_result_def dest!: len)
qed

subsection \<open>Two chunks are the whole\<close>

lemma sqlite_not_bool: "sqlite_get_data_type T alt row j \<noteq> DT_BOOL"
proof -
  have "get_data_type (sqlite_column_source T undefined alt j row) = sqlite_get_data_type T alt row j"
    by (simp add: sqlite_column_source_def)
  then show ?thesis
    by (auto simp: sqlite_get_data_type_def Let_def split: sqlite_type.splits if_splits)
qed

lemma type_at_not_bool: "type_at dt (map (sqlite_column_source T D alt j) rows) \<noteq> DT_BOOL"
proof -
  have src: "get_data_type (sqlite_column_source T D alt j row) \<noteq> DT_BOOL" for row
    using sqlite_not_bool by (simp add: sqlite_column_source_def)
  have "t \<noteq> DT_BOOL \<Longrightarrow> foldl type_after t (map (sqlite_column_source T D alt j) rows) \<noteq> DT_BOOL" for t
    by (induction rows arbitrary: t) (simp_all add: src type_after_def next_type_def)
  then show ?thesis by (simp add: type_at_def start_type_def)
qed

lemma type_at_known:
  assumes "row \<in> set rows" "columnMem row j \<noteq> SqlNull"
  shows "type_at dt (map (sqlite_column_source T D alt j) rows) \<noteq> DT_UNKNOWN"
proof -
  let ?src = "sqlite_column_source T D alt j"
  have null: "is_null (?src row) \<longleftrightarrow> columnMem row j = SqlNull" for row
    by (simp add: sqlite_column_source_def sqlite_is_null_def sqlite3_column_defs)
  have keep: "t \<noteq> DT_UNKNOWN \<Longrightarrow> foldl type_after t (map ?src rows) \<noteq> DT_UNKNOWN" for t rows
    by (induction rows arbitrary: t)
      (use sqlite_source.type_known in \<open>auto simp: type_after_def next_type_def\<close>)
  have "foldl type_after t (map ?src rows) \<noteq> DT_UNKNOWN" for t
    using assms(1)
  proof (induction rows arbitrary: t)
    case (Cons r rows)
    then show ?case
      using keep [of "type_after t (?src r)" rows] assms(2) null [of row]
        next_type_known [OF sqlite_source.type_known [of T D alt j row]]
      by (cases "row = r") auto
  qed simp
  then show ?thesis by (simp add: type_at_def)
qed

lemma read_items_append:
  "read_items t (ss1 @ ss2) =
     ebind (read_items t ss1) (\<lambda>its1. ebind (read_items (foldl type_after t ss1) ss2) (\<lambda>its2. ret (its1 @ its2)))"
  by (induction ss1 arbitrary: t) (auto simp: ebind_assoc ebind_def ret_def split: sum.splits prod.splits)

lemma items_of_append:
  fixes T D alt j
  defines "src \<equiv> sqlite_column_source T D alt j"
  assumes known: "type_at dt (map src rows1) \<noteq> DT_UNKNOWN"
  shows "items_of dt (map src (rows1 @ rows2)) =
      items_of dt (map src rows1) @ items_of (type_at dt (map src rows1)) (map src rows2)"
    and "type_at dt (map src (rows1 @ rows2)) = type_at (type_at dt (map src rows1)) (map src rows2)"
proof -
  have start: "start_type (type_at dt (map src rows1)) = type_at dt (map src rows1)"
    using type_at_not_bool [of dt T D alt j rows1] by (simp add: start_type_def src_def)
  then show "type_at dt (map src (rows1 @ rows2)) = type_at (type_at dt (map src rows1)) (map src rows2)"
    by (simp add: type_at_def [of "type_at dt (map src rows1)"]) (simp add: type_at_def)
  obtain its1 ws1 its2 ws2 where r: "read_items (start_type dt) (map src rows1) = Inr (its1, ws1)"
    "read_items (type_at dt (map src rows1)) (map src rows2) = Inr (its2, ws2)"
    using sqlite_source.read_items_total by (metis src_def)
  then have "read_items (start_type dt) (map src rows1 @ map src rows2) = Inr (its1 @ its2, ws1 @ ws2)"
    by (simp add: read_items_append type_at_def ebind_def ret_def)
  with r show "items_of dt (map src (rows1 @ rows2)) =
      items_of dt (map src rows1) @ items_of (type_at dt (map src rows1)) (map src rows2)"
    by (simp add: items_of_def start)
qed

lemma cells_of_append:
  "ty \<in> column_vectors \<Longrightarrow> cells_of (vector_of ty (cs1 @ cs2)) = cells_of (vector_of ty cs1) @ cells_of (vector_of ty cs2)"
  by (cases ty) (simp_all add: column_vectors_def)

text \<open>A column of all rows, of the first rows, and of the rest read with the type of the first.\<close>

lemma frame_ref_append:
  fixes P T D alt types names rows1 rows2 e1 e2 e j
  defines "t1 \<equiv> out_types T D alt types rows1 e1"
  defines "f1 \<equiv> frame_ref P T D alt types names rows1 True e1"
    and "f2 \<equiv> frame_ref P T D alt t1 names rows2 True e2"
    and "f \<equiv> frame_ref P T D alt types names (rows1 @ rows2) True e"
  assumes j: "j < length types" and row: "row \<in> set rows1" "columnMem row j \<noteq> SqlNull"
    and same: "t1 ! j = out_types T D alt t1 rows2 e2 ! j"
  shows "TYPEOF (rdata (rdf_columns f ! j)) = TYPEOF (rdata (rdf_columns f1 ! j))
    \<and> cells_of (rdata (rdf_columns f ! j)) =
        cells_of (rdata (rdf_columns f1 ! j)) @ cells_of (rdata (rdf_columns f2 ! j))"
proof -
  let ?src = "sqlite_column_source T D alt j" and ?dt = "types ! j"
  let ?t = "type_at ?dt (map ?src rows1)"
  have known: "?t \<noteq> DT_UNKNOWN" by (rule type_at_known [OF row])
  have t1: "t1 ! j = ?t" "length t1 = length types"
    using j known by (simp_all add: t1_def out_types_def out_type_def)
  have t2: "type_at ?dt (map ?src (rows1 @ rows2)) = type_at ?t (map ?src rows2)"
    by (rule items_of_append(2) [OF known])
  have "type_at ?t (map ?src rows2) \<noteq> DT_UNKNOWN"
    using type_at_known [of row "rows1 @ rows2" j ?dt T D alt] row t2 by simp
  then have same': "type_at ?t (map ?src rows2) = ?t"
    using same j t1 by (simp add: out_types_def out_type_def)
  have out: "out_types T D alt t1 rows2 e2 ! j = ?t" "out_types T D alt types (rows1 @ rows2) e ! j = ?t"
    using j t1 t2 same' known by (simp_all add: out_types_def out_type_def)
  note vec = cells_of_append [OF datatype_vector [OF known]]
  have "rdf_columns f1 ! j = column_ref P ?t (items_of ?dt (map ?src rows1))"
      "rdf_columns f2 ! j = column_ref P ?t (items_of ?t (map ?src rows2))"
      "rdf_columns f ! j = column_ref P ?t (items_of ?dt (map ?src (rows1 @ rows2)))"
    using j t1 out by (simp_all add: f1_def f2_def f_def frame_ref_def t1_def [symmetric] del: map_append)
  then show ?thesis
    by (simp add: column_ref_def TYPEOF_vector_of items_of_append(1) [OF known] vec del: map_append)
      (simp add: vec)
qed

text \<open>
  Fetching the first rows and then the rest gives the columns of fetching everything at once,
  cut in two, for every column whose type the first rows decide.
\<close>

lemma chunks_append:
  assumes P: "packages_keep_data (env_packages env)" and quiet: "\<And>i. \<not> intr i"
    and r: "delivers env r (rows1 @ rows2)" "ri_ready r" "length (ri_names r) = length (ri_types r)"
    and rows1: "rows1 \<noteq> []"
  shows "\<exists>f1 s1 ws1 f2 s2 ws2 f s ws.
    result_fetch env intr (int (length rows1)) r = Some (Inr f1, s1, ws1) \<and>
    result_fetch env intr (- 1) s1 = Some (Inr f2, s2, ws2) \<and>
    result_fetch env intr (- 1) r = Some (Inr f, s, ws) \<and>
    ri_nrows s2 = ri_nrows s \<and> ri_complete s2 \<and> ri_complete s \<and>
    (\<forall>j < length (ri_names r). ri_types s1 ! j = ri_types s2 ! j \<longrightarrow>
       (\<exists>row \<in> set rows1. columnMem row j \<noteq> SqlNull) \<longrightarrow>
       TYPEOF (rdata (rdf_columns f ! j)) = TYPEOF (rdata (rdf_columns f1 ! j)) \<and>
       cells_of (rdata (rdf_columns f ! j)) =
         cells_of (rdata (rdf_columns f1 ! j)) @ cells_of (rdata (rdf_columns f2 ! j)))"
proof -
  let ?rows = "rows1 @ rows2"
  obtain e1 s1 ws1 where 1: "result_fetch env intr (int (length rows1)) r = Some (Inr (frame_of env r rows1 True e1), s1, ws1)"
    "delivers env s1 rows2" "ri_ready s1" "ri_names s1 = ri_names r" "ri_with_alt_types s1 = ri_with_alt_types r"
    "ri_nrows s1 = ri_nrows r + length rows1" "ri_types s1 = types_after env r rows1 e1"
    using result_fetch_chunk [where intr = intr and n_max = "int (length rows1)" and k = "length rows1", OF P quiet r] rows1
    by auto
  have len: "length (ri_names s1) = length (ri_types s1)" using 1(4,7) r(3) by (simp add: types_after_def)
  obtain e2 s2 ws2 where 2: "result_fetch env intr (- 1) s1 = Some (Inr (frame_of env s1 rows2 True e2), s2, ws2)"
    "delivers env s2 []" "ri_nrows s2 = ri_nrows s1 + length rows2" "ri_types s2 = types_after env s1 rows2 e2"
    using result_fetch_chunk [where intr = intr and n_max = "- 1" and k = "length rows2", OF P quiet 1(2,3) len] by auto
  obtain e s ws where 3: "result_fetch env intr (- 1) r = Some (Inr (frame_of env r ?rows True e), s, ws)"
    "delivers env s []" "ri_nrows s = ri_nrows r + length ?rows"
    using result_fetch_chunk [where intr = intr and n_max = "- 1" and k = "length ?rows", OF P quiet r] by auto
  have j: "\<forall>j < length (ri_names r). ri_types s1 ! j = ri_types s2 ! j \<longrightarrow>
       (\<exists>row \<in> set rows1. columnMem row j \<noteq> SqlNull) \<longrightarrow>
      TYPEOF (rdata (rdf_columns (frame_of env r ?rows True e) ! j)) =
        TYPEOF (rdata (rdf_columns (frame_of env r rows1 True e1) ! j)) \<and>
      cells_of (rdata (rdf_columns (frame_of env r ?rows True e) ! j)) =
        cells_of (rdata (rdf_columns (frame_of env r rows1 True e1) ! j)) @
        cells_of (rdata (rdf_columns (frame_of env s1 rows2 True e2) ! j))"
  proof (intro allI impI)
    fix j
    assume a: "j < length (ri_names r)" "ri_types s1 ! j = ri_types s2 ! j" "\<exists>row \<in> set rows1. columnMem row j \<noteq> SqlNull"
    then obtain row where "row \<in> set rows1" "columnMem row j \<noteq> SqlNull" by blast
    with a(1,2) r(3) 1(4,5,7) 2(4) show "TYPEOF (rdata (rdf_columns (frame_of env r ?rows True e) ! j)) =
        TYPEOF (rdata (rdf_columns (frame_of env r rows1 True e1) ! j)) \<and>
      cells_of (rdata (rdf_columns (frame_of env r ?rows True e) ! j)) =
        cells_of (rdata (rdf_columns (frame_of env r rows1 True e1) ! j)) @
        cells_of (rdata (rdf_columns (frame_of env s1 rows2 True e2) ! j))"
      by (simp add: frame_of_def types_after_def frame_ref_append)
  qed
  have n: "ri_nrows s2 = ri_nrows s" "ri_complete s2" "ri_complete s" using 1(6) 2 3 by simp_all
  show ?thesis
    by (intro exI conjI) (rule 1(1) 2(1) 3(1) n j)+
qed

lemma chunks_append_witness:
  "\<exists>f1 s1 ws1 f s ws.
    result_fetch (script_env (\<lambda>_. []) 1 [''x'']) (\<lambda>_. False) 1
      (script_bound (SqlInt 5) [int_row 2] (int_row 1) [plain (IntSXP [Some 5])]) = Some (Inr f1, s1, ws1) \<and>
    result_fetch (script_env (\<lambda>_. []) 1 [''x'']) (\<lambda>_. False) (- 1)
      (script_bound (SqlInt 5) [int_row 2] (int_row 1) [plain (IntSXP [Some 5])]) = Some (Inr f, s, ws) \<and>
    ri_complete s"
proof -
  let ?env = "script_env (\<lambda>_. []) 1 [''x'']"
  let ?r = "script_bound (SqlInt 5) [int_row 2] (int_row 1) [plain (IntSXP [Some 5])]"
  have d: "delivers ?env ?r ([int_row 1] @ [int_row 2])" using script_bound_delivers [of "\<lambda>_. []"] by simp
  have r: "ri_ready ?r" "length (ri_names ?r) = length (ri_types ?r)" by (simp_all add: script_bound_def script_result_def)
  have P: "packages_keep_data (env_packages ?env)" by simp
  have quiet: "\<And>i::nat. \<not> (\<lambda>_. False) i" by simp
  obtain f1 s1 ws1 f s ws where
    "result_fetch ?env (\<lambda>_. False) (int (length [int_row 1])) ?r = Some (Inr f1, s1, ws1)"
    "result_fetch ?env (\<lambda>_. False) (- 1) ?r = Some (Inr f, s, ws)" "ri_complete s"
    using chunks_append [OF P quiet d r not_Cons_self2] by (elim exE conjE) (rule that)
  then show ?thesis by (intro exI conjI) simp_all
qed

subsection \<open>A statement that fails\<close>

text \<open>The statement started at \<open>vm\<close> gives \<open>rows\<close> and then fails in \<open>vm'\<close>.\<close>

fun yields_then_fails :: "'vm stmt_env \<Rightarrow> 'vm \<Rightarrow> sqlite_row list \<Rightarrow> 'vm \<Rightarrow> bool" where
  "yields_then_fails env vm [] vm' \<longleftrightarrow> sqlite3_step env vm = (SQLITE_FAILED, vm')"
| "yields_then_fails env vm (row # rows) vm' \<longleftrightarrow>
     (case sqlite3_step env vm of (rc, vm1) \<Rightarrow>
        rc = SQLITE_ROW \<and> stmt_row env vm1 = row \<and> yields_then_fails env vm1 rows vm')"

lemma step_row:
  "sqlite3_step env (ri_stmt r) = (SQLITE_ROW, vm1) \<Longrightarrow> step env r = (Inr (), r\<lparr>ri_stmt := vm1\<rparr>, [])"
  by (subst step.simps) (simp add: step_run_def areturn_def)

lemma step_fails:
  "sqlite3_step env (ri_stmt r) = (SQLITE_FAILED, vm1) \<Longrightarrow>
     step env r = (Inl (Stop (sqlite3_errmsg env vm1)), r\<lparr>ri_stmt := vm1\<rparr>, [])"
  by (subst step.simps) (simp add: step_run_def athrow_def)

lemma fetch_loop_fails:
  assumes quiet: "\<And>i. \<not> intr i"
  shows "df_holds (env_packages env) (env_text env) (env_dates env) (ri_with_alt_types r) types rs df \<Longrightarrow>
    df_i df = length rs \<Longrightarrow> \<not> ri_complete r \<Longrightarrow> yields_then_fails env (ri_stmt r) rows vm' \<Longrightarrow>
    (df_n_max df < 0 \<or> int (length rs + length rows) < df_n_max df) \<Longrightarrow>
    \<exists>ws'. fetch_loop env intr df ws r =
      Some (Inl (Stop (sqlite3_errmsg env vm')), r\<lparr>ri_stmt := vm', ri_nrows := ri_nrows r + length rows\<rparr>, ws')"
proof (induction rows arbitrary: rs df ws r)
  case Nil
  obtain df1 ws1 where "set_col_values (env_packages env) (stmt_source env r) df = Inr (df1, ws1)"
    using set_col_values_some [OF Nil.prems(1)] by blast
  with Nil.prems show ?case
    by (subst fetch_loop.simps) (simp add: step_fails)
next
  case (Cons row rows)
  obtain df1 ws1 where df1: "set_col_values (env_packages env) (stmt_source env r) df = Inr (df1, ws1)"
    "df_holds (env_packages env) (env_text env) (env_dates env) (ri_with_alt_types r) types
        (rs @ [stmt_row env (ri_stmt r)]) df1"
    "df_i df1 = df_i df" "df_n_max df1 = df_n_max df"
    using set_col_values_some [OF Cons.prems(1)] by blast
  obtain vm1 where vm1: "sqlite3_step env (ri_stmt r) = (SQLITE_ROW, vm1)" "yields_then_fails env vm1 rows vm'"
    using Cons.prems(4) by (auto split: prod.splits)
  let ?t = "r\<lparr>ri_stmt := vm1, ri_nrows := Suc (ri_nrows r)\<rparr>" and ?df2 = "df1\<lparr>df_i := Suc (df_i df1)\<rparr>"
  have "fetch_loop env intr df ws r = fetch_loop env intr ?df2 (ws @ ws1) ?t"
    using Cons.prems(2,3,5) df1 quiet
    by (subst fetch_loop.simps) (auto simp: step_row [OF vm1(1)] advance_def Let_def)
  moreover have "\<exists>ws'. fetch_loop env intr ?df2 (ws @ ws1) ?t =
      Some (Inl (Stop (sqlite3_errmsg env vm')), ?t\<lparr>ri_stmt := vm', ri_nrows := ri_nrows ?t + length rows\<rparr>, ws')"
    using Cons.prems(2,3,5) df1 vm1(2)
    by (intro Cons.IH [of ?t "rs @ [stmt_row env (ri_stmt r)]"]) (auto simp: df_holds_def)
  ultimately show ?case by simp
qed

text \<open>
  C34: when a query without parameters fails in a step after one or more rows, the first fetch, if it
  asks for all of these rows, raises SQLite's message and hands out none of them, though they were
  read; the result stays ready and incomplete, and counts all of them but the last, so that the
  number of rows fetched is one less than the rows read before the failing step.
\<close>

theorem failing_step_loses_rows:
  assumes P: "packages_keep_data (env_packages env)" and quiet: "\<And>i. \<not> intr i"
    and prep: "prepare p = Inr (vm, ws0)" "sqlite3_bind_parameter_count env vm = 0"
    and rows: "yields_then_fails env vm (row # rows) vm'" and n: "n_max < 0 \<or> int (length (row # rows)) \<le> n_max"
  shows "\<exists>r s ws. result_impl_new env True alt p = Inr (r, ws0)
    \<and> db_fetch env intr n_max r = Some (Inl (Stop (sqlite3_errmsg env vm')), s, ws)
    \<and> ri_ready s \<and> \<not> ri_complete s \<and> ri_nrows s = length rows \<and> ri_stmt s = vm'"
proof -
  let ?s = "(result_impl_start env alt vm)\<lparr>ri_ready := True, ri_nrows := 0, ri_complete := False\<rparr>"
  obtain vm1 where vm1: "sqlite3_step env vm = (SQLITE_ROW, vm1)" "yields_then_fails env vm1 rows vm'"
    using rows by (auto split: prod.splits)
  let ?r = "?s\<lparr>ri_stmt := vm1\<rparr>"
  have "sqlite3_step env (ri_stmt ?s) = (SQLITE_ROW, vm1)"
    using vm1(1) by (simp add: result_impl_start_def Let_def)
  from step_row [OF this] have "after_bind env True (result_impl_start env alt vm) = (Inr (), ?r, [])"
    by (simp add: after_bind_def result_init_def amodify_def abind_def)
  moreover have "ri_nparams (result_impl_start env alt vm) = 0"
    using prep(2) by (simp add: result_impl_start_def Let_def)
  ultimately have new: "result_impl_new env True alt p = Inr (?r, ws0)"
    using prep(1) by (simp add: result_impl_new_def result_impl_open_def ebind_def)
  let ?df = "data_frame_new (env_packages env) (ri_names ?r) n_max (ri_types ?r)"
  note holds = df_holds_new [OF P, of "env_text env" "env_dates env" "ri_with_alt_types ?r" "ri_types ?r" "ri_names ?r" n_max]
  have "\<exists>ws'. fetch_loop env intr ?df [] ?r = Some (Inl (Stop (sqlite3_errmsg env vm')),
      ?r\<lparr>ri_stmt := vm', ri_nrows := ri_nrows ?r + length rows\<rparr>, ws')"
    using n vm1(2) by (intro fetch_loop_fails [OF quiet holds]) auto
  then obtain ws' where "fetch_loop env intr ?df [] ?r = Some (Inl (Stop (sqlite3_errmsg env vm')),
      ?r\<lparr>ri_stmt := vm', ri_nrows := ri_nrows ?r + length rows\<rparr>, ws')" ..
  moreover have "n_max \<noteq> 0" using n by auto
  ultimately have "db_fetch env intr n_max ?r = Some (Inl (Stop (sqlite3_errmsg env vm')),
      ?r\<lparr>ri_stmt := vm', ri_nrows := ri_nrows ?r + length rows\<rparr>, ws')"
    by (simp add: db_fetch_def is_current_result_def result_fetch_def fetch_rows_def)
  with new show ?thesis by (intro exI conjI) (assumption | simp)+
qed

text \<open>A statement with one row that fails in its second step.\<close>

definition failing_env :: "bool stmt_env" where
  "failing_env =
     \<lparr>sqlite3_step = (\<lambda>b. if b then (SQLITE_FAILED, b) else (SQLITE_ROW, True)), sqlite3_reset = (\<lambda>_. False),
      sqlite3_clear_bindings = id, sqlite3_bind = (\<lambda>s _ _. s), stmt_row = (\<lambda>_. int_row 1),
      sqlite3_column_count = (\<lambda>_. 1), sqlite3_column_name = (\<lambda>_ _. ''x''), sqlite3_bind_parameter_count = (\<lambda>_. 0),
      sqlite3_bind_parameter_name = (\<lambda>_ _. None), sqlite3_total_changes = (\<lambda>_. 0),
      sqlite3_errmsg = (\<lambda>_. ''integer overflow''), env_packages = std_packages,
      env_text = undefined, env_dates = undefined\<rparr>"

theorem failing_step_loses_rows_witness:
  "\<exists>r s ws. result_impl_new failing_env True False (Prepared False None) = Inr (r, [])
    \<and> db_fetch failing_env (\<lambda>_. False) 1 r = Some (Inl (Stop ''integer overflow''), s, ws)
    \<and> ri_ready s \<and> \<not> ri_complete s \<and> ri_nrows s = 0"
proof -
  have quiet: "\<And>i::nat. \<not> (\<lambda>_. False) i" by simp
  have "packages_keep_data (env_packages failing_env)" "prepare (Prepared False None) = Inr (False, [])"
    "sqlite3_bind_parameter_count failing_env False = 0"
    "yields_then_fails failing_env False [int_row 1] True" "sqlite3_errmsg failing_env True = ''integer overflow''"
    by (simp_all add: failing_env_def prepare_def ret_def)
  from failing_step_loses_rows [OF this(1) quiet this(2-4), of 1 False] this(5) show ?thesis by auto
qed

subsection \<open>Affected rows\<close>

text \<open>
  Runs of a statement that gives no rows, one per group; \<open>ds\<close> are the changes each run makes, as
  SQLite's counter shows them.
\<close>

fun changing_runs :: "'vm stmt_env \<Rightarrow> robj list \<Rightarrow> 'vm \<Rightarrow> nat \<Rightarrow> i32 list \<Rightarrow> 'vm \<Rightarrow> bool" where
  "changing_runs env params vm g [] vm' \<longleftrightarrow> vm' = vm"
| "changing_runs env params vm g (d # ds) vm' \<longleftrightarrow>
     (\<exists>vs vm1. map (\<lambda>p. bind_value p g) params = map Inr vs \<and>
        sqlite3_step env (bound env vs vm) = (SQLITE_DONE, vm1) \<and>
        sqlite3_total_changes env vm1 = sqlite3_total_changes env vm + d \<and>
        changing_runs env params vm1 (Suc g) ds vm')"

lemma changing_runs_total:
  "changing_runs env params vm g ds vm' \<Longrightarrow> sqlite3_total_changes env vm' = sqlite3_total_changes env vm + sum_list ds"
  by (induction ds arbitrary: vm g) (auto simp: add.assoc)

lemma step_changing:
  assumes "\<not> ri_complete r" "sqlite3_step env (ri_stmt r) = (SQLITE_DONE, vm1)"
    and "changing_runs env (ri_params r) vm1 (Suc (ri_group r)) ds vm'" "ri_groups r = Suc (ri_group r) + length ds"
  shows "\<exists>s. step env r = (Inr (), s, []) \<and> ri_complete s \<and> ri_stmt s = vm'"
  using assms
proof (induction ds arbitrary: r vm1)
  case Nil
  then have "step_run env r = (Inr False, r\<lparr>ri_stmt := vm1, ri_group := Suc (ri_group r), ri_complete := True\<rparr>, [])"
    by (simp add: step_run_def step_done_def bind_row_def areturn_def abind_def)
  with Nil.prems(3) show ?case by (subst step.simps) simp
next
  case (Cons d ds)
  let ?r = "r\<lparr>ri_stmt := vm1, ri_group := Suc (ri_group r)\<rparr>"
  obtain vs vm2 where g: "map (\<lambda>p. bind_value p (Suc (ri_group r))) (ri_params r) = map Inr vs"
    "sqlite3_step env (bound env vs vm1) = (SQLITE_DONE, vm2)"
    "changing_runs env (ri_params r) vm2 (Suc (Suc (ri_group r))) ds vm'"
    using Cons.prems(3) by auto
  let ?s = "?r\<lparr>ri_stmt := bound env vs vm1\<rparr>"
  have "step_run env r = (Inr True, ?s, [])"
    using Cons.prems(2,4) bind_row_ok [of ?r vs env] g(1) by (simp add: step_run_def step_done_def abind_def)
  then have "step env r = step env ?s"
    by (subst step.simps) (simp split: prod.splits)
  with Cons.IH [of ?s vm2] g Cons.prems(1,4) show ?case by simp
qed

text \<open>
  C35: binding several groups of parameters to a statement without rows runs it for every group
  at once, and the rows affected are the sum of the changes of all runs; before the first
  binding they are \<open>NA\<close>.
\<close>

theorem rows_affected_sum:
  assumes r: "ri_nparams r = length params" "params \<noteq> []" "\<not> ri_ready r"
    and len: "length ds = Rf_xlength (rdata (hd params))" "validate_params params = Inr u"
    and runs: "changing_runs env params (ri_stmt r) 0 ds vm'"
  shows "n_rows_affected env r = NA_INTEGER \<and>
    (\<exists>s. db_bind env params r = (Inr (), s, []) \<and> ri_complete s \<and> n_rows_affected env s = sum_list ds)"
proof -
  let ?r = "r\<lparr>ri_params := params, ri_groups := Rf_xlength (rdata (hd params)), ri_group := 0,
     ri_total_changes_start := sqlite3_total_changes env (ri_stmt r)\<rparr>"
  have bind: "result_bind env params r = abind (bind_row env) (after_bind env) ?r"
    using r(1,2) by (simp add: result_bind_def)
  have "\<exists>s. result_bind env params r = (Inr (), s, []) \<and> ri_complete s \<and> ri_ready s \<and> ri_stmt s = vm'
      \<and> ri_total_changes_start s = sqlite3_total_changes env (ri_stmt r)"
  proof (cases ds)
    case Nil
    then show ?thesis
      using len(1) runs bind
      by (simp add: bind_row_def areturn_def abind_def after_bind_def result_init_def amodify_def)
  next
    case (Cons d ds')
    then obtain vs vm1 where g: "map (\<lambda>p. bind_value p 0) params = map Inr vs"
      "sqlite3_step env (bound env vs (ri_stmt r)) = (SQLITE_DONE, vm1)"
      "changing_runs env params vm1 1 ds' vm'"
      using runs by auto
    let ?s = "?r\<lparr>ri_stmt := bound env vs (ri_stmt r), ri_ready := True, ri_nrows := 0, ri_complete := False\<rparr>"
    have "bind_row env ?r = (Inr True, ?r\<lparr>ri_stmt := bound env vs (ri_stmt r)\<rparr>, [])"
      using bind_row_ok [of ?r vs env] g(1) len(1) Cons by simp
    moreover obtain s where s: "step env ?s = (Inr (), s, [])" "ri_complete s" "ri_stmt s = vm'"
      using step_changing [of ?s env vm1 ds' vm'] g(2,3) len(1) Cons by auto
    ultimately show ?thesis
      using bind step_same_query [OF s(1)]
      by (auto simp: abind_def after_bind_def result_init_def amodify_def same_query_def)
  qed
  then obtain s where s: "result_bind env params r = (Inr (), s, [])" "ri_complete s" "ri_ready s" "ri_stmt s = vm'"
      "ri_total_changes_start s = sqlite3_total_changes env (ri_stmt r)" by blast
  have "n_rows_affected env s = sum_list ds"
    using s(3-5) changing_runs_total [OF runs] by (simp add: n_rows_affected_def)
  moreover have "db_bind env params r = (Inr (), s, [])"
    using s(1) len(2) by (simp add: db_bind_def abind_def alift_def ret_def)
  ultimately show ?thesis using s(2) r(3) by (auto simp: n_rows_affected_def)
qed

text \<open>A statement that inserts as many rows as its parameter says; the state is the counter.\<close>

definition counting_env :: "(i32 \<times> i32) stmt_env" where
  "counting_env =
     \<lparr>sqlite3_step = (\<lambda>(total, k). (SQLITE_DONE, (total + k, k))), sqlite3_reset = id,
      sqlite3_clear_bindings = (\<lambda>(total, _). (total, 0)),
      sqlite3_bind = (\<lambda>(total, _) _ v. (total, case v of SqlInt i \<Rightarrow> ucast i | _ \<Rightarrow> 0)),
      stmt_row = (\<lambda>_. no_row), sqlite3_column_count = (\<lambda>_. 0), sqlite3_column_name = (\<lambda>_ _. []), sqlite3_bind_parameter_count = (\<lambda>_. 1),
      sqlite3_bind_parameter_name = (\<lambda>_ _. None), sqlite3_total_changes = fst,
      sqlite3_errmsg = (\<lambda>_. ''''), env_packages = std_packages, env_text = undefined, env_dates = undefined\<rparr>"

theorem rows_affected_sum_witness:
  "\<exists>s. db_bind counting_env [plain (IntSXP [Some 2, Some 3])] (result_impl_start counting_env False (10, 0))
      = (Inr (), s, []) \<and> ri_complete s \<and> n_rows_affected counting_env s = 5"
proof -
  let ?params = "[plain (IntSXP [Some 2, Some 3])]"
  have v: "bind_value (plain (IntSXP [Some 2, Some 3])) 0 = Inr (SqlInt 2)"
      "bind_value (plain (IntSXP [Some 2, Some 3])) (Suc 0) = Inr (SqlInt 3)"
    by (simp_all add: bind_value_def plain_def INT64SXP_def get_init_def get_cell_def NA_INTEGER_def Let_def)
  have b: "sqlite3_step counting_env (bound counting_env [SqlInt 2] (10, 0)) = (SQLITE_DONE, (12, 2))"
      "sqlite3_step counting_env (bound counting_env [SqlInt 3] (12, 2)) = (SQLITE_DONE, (15, 3))"
      "sqlite3_total_changes counting_env = fst"
    by (simp_all add: counting_env_def bound_def)
  have "changing_runs counting_env ?params (12, 2) 1 [3] (15, 3)"
    unfolding changing_runs.simps using v(2) b(2,3)
    by (intro exI [of _ "[SqlInt 3]"] exI [of _ "(15, 3)"]) simp
  then have runs: "changing_runs counting_env ?params (10, 0) 0 [2, 3] (15, 3)"
    unfolding changing_runs.simps(2) [of _ _ _ 0] using v(1) b(1,3)
    by (intro exI [of _ "[SqlInt 2]"] exI [of _ "(12, 2)"]) simp
  have "ri_nparams (result_impl_start counting_env False (10, 0)) = length ?params"
    "\<not> ri_ready (result_impl_start counting_env False (10, 0))"
    "ri_stmt (result_impl_start counting_env False (10, 0)) = (10, 0)"
    by (simp_all add: result_impl_start_def counting_env_def Let_def)
  moreover have "length [2, 3 :: i32] = Rf_xlength (rdata (hd ?params))" "validate_params ?params = Inr ()"
    by (simp_all add: plain_def validate_params_def)
  ultimately show ?thesis
    using rows_affected_sum [of "result_impl_start counting_env False (10, 0)" ?params "[2, 3]" "()" counting_env "(15, 3)"] runs
    by simp
qed

subsection \<open>Asking for the columns\<close>

lemma type_at_uniform:
  assumes "u \<noteq> DT_UNKNOWN"
    and "\<forall>row \<in> set rows. columnMem row j \<noteq> SqlNull \<longrightarrow> sqlite_get_data_type T alt row j = u"
  shows "t \<noteq> DT_UNKNOWN \<Longrightarrow> t \<noteq> DT_INT \<Longrightarrow> foldl type_after t (map (sqlite_column_source T D alt j) rows) = t"
    and "foldl type_after u (map (sqlite_column_source T D alt j) rows) = u"
    and "\<exists>row \<in> set rows. columnMem row j \<noteq> SqlNull \<Longrightarrow>
      foldl type_after DT_UNKNOWN (map (sqlite_column_source T D alt j) rows) = u"
proof -
  let ?src = "sqlite_column_source T D alt j"
  have src: "is_null (?src row) \<longleftrightarrow> columnMem row j = SqlNull" "get_data_type (?src row) = sqlite_get_data_type T alt row j" for row
    by (simp_all add: sqlite_column_source_def sqlite_is_null_def sqlite3_column_defs)
  show "t \<noteq> DT_UNKNOWN \<Longrightarrow> t \<noteq> DT_INT \<Longrightarrow> foldl type_after t (map ?src rows) = t"
    by (induction rows) (simp_all add: type_after_def next_type_def)
  have u: "\<forall>row \<in> set rows. columnMem row j \<noteq> SqlNull \<longrightarrow> sqlite_get_data_type T alt row j = u \<Longrightarrow>
      foldl type_after u (map ?src rows) = u" for rows
    by (induction rows) (auto simp: type_after_def next_type_def src assms(1))
  show "foldl type_after u (map ?src rows) = u" by (rule u [OF assms(2)])
  show "\<exists>row \<in> set rows. columnMem row j \<noteq> SqlNull \<Longrightarrow> foldl type_after DT_UNKNOWN (map ?src rows) = u"
    using assms(2) by (induction rows) (auto simp: type_after_def next_type_def src u)
qed

text \<open>
  Asking for the columns before fetching can change what is fetched: when the first row of a
  column is NULL its type is then fixed to the declared one, and values of another type are
  converted to it, while a fetch without the question takes the type of the values.
\<close>

lemma column_info_fixes_type:
  assumes P: "packages_keep_data (env_packages env)" and quiet: "\<And>i. \<not> intr i"
    and r: "delivers env r (row1 # rows)" "ri_ready r" "length (ri_names r) = length (ri_types r)"
    and j: "j < length (ri_types r)" "ri_types r ! j = DT_UNKNOWN" "columnMem row1 j = SqlNull"
    and D: "sqlite_get_decl_data_type (ri_with_alt_types r) row1 j \<in> {DT_REAL, DT_STRING, DT_BLOB}"
    and u: "\<forall>row \<in> set rows. columnMem row j \<noteq> SqlNull \<longrightarrow> sqlite_get_data_type (env_text env) (ri_with_alt_types r) row j = u"
      "\<exists>row \<in> set rows. columnMem row j \<noteq> SqlNull"
  shows "\<exists>info s ws f s' ws' f2 s2 ws2. get_column_info env r = (Inr info, s, ws) \<and>
    result_fetch env intr (- 1) r = Some (Inr f, s', ws') \<and>
    result_fetch env intr (- 1) s = Some (Inr f2, s2, ws2) \<and>
    TYPEOF (rdata (rdf_columns f ! j)) = sexptype_from_datatype u \<and>
    TYPEOF (rdata (rdf_columns f2 ! j)) =
      sexptype_from_datatype (sqlite_get_decl_data_type (ri_with_alt_types r) row1 j)"
proof -
  let ?T = "env_text env" and ?dates = "env_dates env" and ?alt = "ri_with_alt_types r"
  let ?src = "sqlite_column_source ?T ?dates ?alt j" and ?D = "sqlite_get_decl_data_type ?alt row1 j"
  have u_known: "u \<noteq> DT_UNKNOWN"
    using u sqlite_type_not_unknown by (auto simp: sqlite_is_null_def sqlite3_column_defs split: sqlite_value.splits)
  have row1: "is_null (?src row1)" "get_decl_data_type (?src row1) = ?D" "stmt_row env (ri_stmt r) = row1"
    using j(3) r(1) by (simp_all add: sqlite_column_source_def sqlite_is_null_def sqlite3_column_defs)
  let ?ts = "types_after env r [row1] row1"
  let ?s = "r\<lparr>ri_types := ?ts\<rparr>"
  obtain ws where info: "get_column_info env r = (Inr (ri_names r, map type_name ?ts), ?s, ws)"
    using peek_first_row_ok [OF P r(1,3)] row1(3) by (simp add: get_column_info_def abind_def areturn_def Let_def)
  have ts: "?ts ! j = ?D" "length ?ts = length (ri_types r)"
    using j(1,2) row1 by (simp_all add: types_after_def out_types_def type_at_def start_type_def out_type_def)
  have s: "delivers env ?s (row1 # rows)" "ri_ready ?s" "length (ri_names ?s) = length (ri_types ?s)"
    using delivers_set_seen [of env "ri_nrows r" ?ts r "row1 # rows"] r ts(2) by (simp_all add: set_seen_def)
  obtain e s1 ws1 where f: "result_fetch env intr (- 1) r = Some (Inr (frame_of env r (row1 # rows) True e), s1, ws1)"
    using result_fetch_chunk [where intr = intr and n_max = "- 1" and k = "length (row1 # rows)", OF P quiet r] by auto
  obtain e2 s2 ws2 where f2: "result_fetch env intr (- 1) ?s = Some (Inr (frame_of env ?s (row1 # rows) True e2), s2, ws2)"
    using result_fetch_chunk [where intr = intr and n_max = "- 1" and k = "length (row1 # rows)", OF P quiet s] by auto
  note uniform = type_at_uniform [where D = ?dates, OF u_known u(1)]
  have "start_type ?D = ?D" "?D \<noteq> DT_UNKNOWN" "?D \<noteq> DT_INT" using D by (auto simp: start_type_def)
  then have t: "type_at DT_UNKNOWN (map ?src (row1 # rows)) = u" "type_at ?D (map ?src (row1 # rows)) = ?D"
    using uniform(1) [of ?D] uniform(3) [OF u(2)] row1(1) by (simp_all add: type_at_def start_type_def)
  have "TYPEOF (rdata (rdf_columns (frame_of env r (row1 # rows) True e) ! j)) = sexptype_from_datatype u"
    using j(1,2) t(1) u_known
    by (simp add: frame_of_def frame_ref_def column_ref_def TYPEOF_vector_of out_types_def out_type_def)
  moreover have "TYPEOF (rdata (rdf_columns (frame_of env ?s (row1 # rows) True e2) ! j)) = sexptype_from_datatype ?D"
    using j(1) ts t(2) \<open>?D \<noteq> DT_UNKNOWN\<close>
    by (simp add: frame_of_def frame_ref_def column_ref_def TYPEOF_vector_of out_types_def out_type_def)
  ultimately show ?thesis using info f f2 by blast
qed

text \<open>A column declared with a numeric type: NULL, then an integer.\<close>

definition null_row :: sqlite_row where
  "null_row = \<lparr>row_values = [SqlNull], row_decltypes = [Some '''']\<rparr>"

lemma column_info_fixes_type_witness:
  "\<exists>info s ws f s' ws' f2 s2 ws2.
    get_column_info (script_env (\<lambda>_. []) 1 [''x''])
      (script_bound (SqlInt 5) [int_row 1] null_row [plain (IntSXP [Some 5])]) = (Inr info, s, ws) \<and>
    result_fetch (script_env (\<lambda>_. []) 1 [''x'']) (\<lambda>_. False) (- 1)
      (script_bound (SqlInt 5) [int_row 1] null_row [plain (IntSXP [Some 5])]) = Some (Inr f, s', ws') \<and>
    result_fetch (script_env (\<lambda>_. []) 1 [''x'']) (\<lambda>_. False) (- 1) s = Some (Inr f2, s2, ws2) \<and>
    TYPEOF (rdata (rdf_columns f ! 0)) = INTSXP \<and> TYPEOF (rdata (rdf_columns f2 ! 0)) = REALSXP"
proof -
  let ?env = "script_env (\<lambda>_. []) 1 [''x'']"
  let ?r = "script_bound (SqlInt 5) [int_row 1] null_row [plain (IntSXP [Some 5])]"
  have quiet: "\<And>i::nat. \<not> (\<lambda>_. False) i" by simp
  have P: "packages_keep_data (env_packages ?env)" by simp
  have r: "delivers ?env ?r (null_row # [int_row 1])" using script_bound_delivers [of "\<lambda>_. []"] by simp
  have r': "ri_ready ?r" "length (ri_names ?r) = length (ri_types ?r)" "0 < length (ri_types ?r)"
      "ri_types ?r ! 0 = DT_UNKNOWN" "columnMem null_row 0 = SqlNull"
    by (simp_all add: script_bound_def script_result_def columnMem_def null_row_def)
  have D: "sqlite_get_decl_data_type (ri_with_alt_types ?r) null_row 0 = DT_REAL"
    by (simp add: script_bound_def script_result_def sqlite_get_decl_data_type_def null_row_def
        datatype_from_decltype_def sqlite3AffinityType_def sqlite3_column_decltype_def
        SQLITE_AFF_NUMERIC_def SQLITE_AFF_INTEGER_def Let_def)
  have u: "columnMem (int_row 1) 0 = SqlInt 1"
      "sqlite_get_data_type (env_text ?env) (ri_with_alt_types ?r) (int_row 1) 0 = DT_INT"
    by (simp_all add: script_bound_def script_result_def columnMem_def int_row_def sqlite_get_data_type_def
        sqlite3_column_defs needs_64_bit_def Let_def)
  have "sqlite_get_decl_data_type (ri_with_alt_types ?r) null_row 0 \<in> {DT_REAL, DT_STRING, DT_BLOB}"
    "\<forall>row \<in> set [int_row 1]. columnMem row 0 \<noteq> SqlNull \<longrightarrow>
       sqlite_get_data_type (env_text ?env) (ri_with_alt_types ?r) row 0 = DT_INT"
    "\<exists>row \<in> set [int_row 1]. columnMem row 0 \<noteq> SqlNull"
    using D u by simp_all
  from column_info_fixes_type [OF P quiet r r' this, unfolded D sexptype_from_datatype.simps] show ?thesis .
qed

end
