(* ===== verification/Connection.thy ===== *)
theory Connection
  imports Prelude
begin

text \<open>
  \<open>src/src/DbConnection.cpp\<close>, \<open>connection.cpp\<close> and the ownership part of \<open>result.cpp\<close>: the
  life of one connection object.  A \<open>DbConnection\<close> is held by shared pointers: one behind the
  external pointer R holds, one in every result.  SQLite's own object outlives the connection
  object as long as statements are open on it (\<open>sqlite3_close_v2\<close>), and it keeps the address of
  the busy callback, an R object that the connection protects from the garbage collector.

  \<open>world\<close> is the state of all of these for one connection, an operation is an action on it, and
  \<open>wstep\<close> is the relation of the calls R can make, in any order.
\<close>

subsection \<open>State\<close>

text \<open>An R object is its address; an integer vector has contents the code reads.\<close>

datatype robject = RNull | RIntegers nat "i32 list" | RFunction nat

fun address :: "robject \<Rightarrow> nat option" where
  "address RNull = None"
| "address (RIntegers a _) = Some a"
| "address (RFunction a) = Some a"

text \<open>What SQLite does when a table is locked: nothing, wait, or call back with a data pointer.\<close>

datatype busy_handler = NoHandler | BusyTimeout i32 | BusyCallback "nat option"

record world =
  pConn :: bool                 \<comment> \<open>\<open>pConn_\<close> is not NULL\<close>
  alt_types :: bool             \<comment> \<open>\<open>with_alt_types_\<close>\<close>
  busy_callback :: robject      \<comment> \<open>\<open>busy_callback_\<close>, \<open>RNull\<close> for NULL\<close>
  sq_handler :: busy_handler
  sq_closing :: bool            \<comment> \<open>\<open>sqlite3_close_v2\<close> was called\<close>
  sq_stmts :: nat               \<comment> \<open>statements not yet finalized\<close>
  sq_abandoned :: nat           \<comment> \<open>those of them that nothing refers to any more\<close>
  sq_backups :: nat             \<comment> \<open>unfinished backups that read from it (\<open>nBackup\<close>)\<close>
  sq_autocommit :: bool
  sq_extensions :: bool         \<comment> \<open>\<open>sqlite3_enable_load_extension\<close> was called\<close>
  preserved :: "nat \<Rightarrow> int"     \<comment> \<open>\<open>R_PreserveObject\<close> calls less \<open>R_ReleaseObject\<close> calls\<close>
  ext_ptr :: bool               \<comment> \<open>the pointer behind R's external pointer\<close>
  results :: nat                \<comment> \<open>the results that hold the connection\<close>

definition use_count :: "world \<Rightarrow> nat" where
  "use_count w = (if ext_ptr w then 1 else 0) + results w"

text \<open>
  \<open>sqlite3_close_v2\<close> leaves the connection to its last statement, and to its last backup
  (\<open>connectionIsBusy\<close>); it is freed when there is none.
\<close>

definition sqlite_freed :: "world \<Rightarrow> bool" where
  "sqlite_freed w \<longleftrightarrow> sq_closing w \<and> sq_stmts w = 0 \<and> sq_backups w = 0"

subsection \<open>DbConnection\<close>

definition is_valid :: "world \<Rightarrow> bool" where
  "is_valid w \<longleftrightarrow> pConn w"

definition with_alt_types :: "world \<Rightarrow> bool" where
  [simp]: "with_alt_types w = alt_types w"

text \<open>The message SQLite keeps for the handle is an input of \<open>getException\<close>.\<close>

definition getException :: "string \<Rightarrow> bool \<Rightarrow> string" where
  "getException sqlite3_errmsg valid = (if valid then sqlite3_errmsg else [])"

text \<open>
  \<open>sqlite3_open_v2\<close> gives a handle also for most failures; the constructor throws then and its
  destructor does not run.  The second component is the handles nobody will close.
\<close>

datatype open_result = OpenOk | OpenFailed "string option"

type_synonym sqlite3_open = "string \<Rightarrow> i32 \<Rightarrow> string option \<Rightarrow> open_result"

definition vfs_name :: "string \<Rightarrow> string option" where
  "vfs_name vfs = (if vfs = [] then None else Some (c_str vfs))"

definition connect :: "sqlite3_open \<Rightarrow> string \<Rightarrow> bool \<Rightarrow> i32 \<Rightarrow> string \<Rightarrow> bool \<Rightarrow> world res \<times> nat" where
  "connect sqlite3_open_v2 path allow_ext flags vfs alt =
     (case sqlite3_open_v2 (c_str path) flags (vfs_name vfs) of
        OpenOk \<Rightarrow> (Inr \<lparr>pConn = True, alt_types = alt, busy_callback = RNull, sq_handler = NoHandler,
          sq_closing = False, sq_stmts = 0, sq_abandoned = 0, sq_backups = 0, sq_autocommit = True, sq_extensions = allow_ext,
          preserved = (\<lambda>_. 0), ext_ptr = True, results = 0\<rparr>, 0)
      | OpenFailed handle \<Rightarrow>
          let errmsg = (case handle of None \<Rightarrow> [] | Some msg \<Rightarrow> msg); valid = (handle \<noteq> None) in
          (Inl (Stop (''Could not connect to database:\<newline>'' @ getException errmsg valid)),
           if valid then 1 else 0))"

definition conn :: "(world, unit) act" where
  "conn w = (if is_valid w then areturn () w else athrow (Stop ''disconnected'') w)"

text \<open>Results announce themselves to the connection, which keeps no record of them.\<close>

definition set_current_result :: "world \<Rightarrow> world" where
  "set_current_result w = w"

definition reset_current_result :: "world \<Rightarrow> world" where
  "reset_current_result w = w"

definition check_connection :: "(world, unit) act" where
  "check_connection w =
     (if is_valid w then areturn () w else athrow (Stop ''Invalid or closed connection'') w)"

definition release_callback_data :: "world \<Rightarrow> world" where
  "release_callback_data w =
     (case address (busy_callback w) of
        None \<Rightarrow> w
      | Some a \<Rightarrow> w\<lparr>preserved := (preserved w)(a := preserved w a - 1), busy_callback := RNull\<rparr>)"

definition disconnect :: "world \<Rightarrow> world" where
  "disconnect w = release_callback_data (w\<lparr>sq_closing := True, pConn := False\<rparr>)"

definition preserve :: "robject \<Rightarrow> world \<Rightarrow> world" where
  "preserve x w =
     (case address x of
        None \<Rightarrow> w
      | Some a \<Rightarrow> w\<lparr>preserved := (preserved w)(a := preserved w a + 1), busy_callback := x\<rparr>)"

text \<open>A negative or zero timeout removes the handler.\<close>

definition set_busy_handler :: "robject \<Rightarrow> (world, unit) act" where
  "set_busy_handler r_callback =
     abind check_connection (\<lambda>_ w.
       let w = preserve r_callback (release_callback_data w) in
       case busy_callback w of
         RIntegers a ms \<Rightarrow>
           (case ms of
              [] \<Rightarrow> athrow (UB ''INTEGER(x)[0] of an empty vector'') w
            | m # _ \<Rightarrow> areturn () (w\<lparr>sq_handler := (if sint m > 0 then BusyTimeout m else NoHandler)\<rparr>))
       | cb \<Rightarrow> areturn () (w\<lparr>sq_handler := BusyCallback (address cb)\<rparr>))"

text \<open>
  What the R function that is registered does when it is called: it answers with integers, or
  with something \<open>cpp11::as_integers\<close> refuses, or fails.
\<close>

datatype r_answer = Answers "int list" | AnswersOther | Fails string

text \<open>
  \<open>busy_callback_helper\<close>, called by SQLite: an R error and a refused answer are exceptions, thrown
  through SQLite's C functions.
\<close>

definition busy_callback_helper :: "r_answer \<Rightarrow> int res" where
  "busy_callback_helper ans =
     (case ans of
        Answers (k # _) \<Rightarrow> Inr k
      | Answers [] \<Rightarrow> Inl (UB ''first element of an empty vector'')
      | _ \<Rightarrow> Inl (UB ''exception through the frames of SQLite''))"

text \<open>
  SQLite finds a lock and asks its handler whether to try again (0 is no): a null pointer is not
  a function, and an object no longer preserved may have been collected.
\<close>

definition busy_event :: "(nat \<Rightarrow> r_answer) \<Rightarrow> world \<Rightarrow> int res" where
  "busy_event answer w =
     (case sq_handler w of
        NoHandler \<Rightarrow> Inr 0
      | BusyTimeout ms \<Rightarrow> Inr 1
      | BusyCallback None \<Rightarrow> Inl (UB ''cpp11::function of a null pointer'')
      | BusyCallback (Some a) \<Rightarrow>
          if preserved w a > 0 then busy_callback_helper (answer a) else Inl (UB ''callback object not protected''))"

definition in_transaction :: "(world, bool) act" where
  "in_transaction w =
     (if pConn w then areturn (\<not> sq_autocommit w) w
      else athrow (UB ''sqlite3_get_autocommit of a null pointer'') w)"

text \<open>The destructor of the object, run when the last shared pointer goes.\<close>

definition destroy :: "world \<Rightarrow> world" where
  "destroy w = release_callback_data (if is_valid w then disconnect w else w)"

definition drop_owner :: "world \<Rightarrow> world" where
  "drop_owner w = (if use_count w = 0 then destroy w else w)"

text \<open>
  \<open>copy_to\<close> between two connections: what \<open>sqlite3_backup_init\<close>, \<open>_step\<close> and \<open>_finish\<close> return is
  given, a NULL backup as \<open>init = False\<close>; \<open>errmsg\<close> is the message SQLite keeps for the source,
  whose \<open>getException\<close> is called.  The second component says that no backup object is left
  unfinished.
\<close>

datatype backup_rc = BackupOk | BackupDone | BackupError

definition copy_to :: "world \<Rightarrow> world \<Rightarrow> bool \<Rightarrow> backup_rc \<Rightarrow> backup_rc \<Rightarrow> string \<Rightarrow> unit res \<times> bool" where
  "copy_to from dest init step finish errmsg =
     (if \<not> is_valid dest then (Inl (Stop ''disconnected''), True)
      else if \<not> pConn from then (Inl (UB ''sqlite3_backup_init from a null pointer''), True)
      else if \<not> init then (Inl (UB ''sqlite3_backup_step of a null pointer''), True)
      else if step \<noteq> BackupDone
      then (Inl (Stop (''Failed to copy all data:\<newline>'' @ getException errmsg (is_valid from))), False)
      else if finish \<noteq> BackupOk
      then (Inl (Stop (''Could not finish copy:\<newline>'' @ getException errmsg (is_valid from))), True)
      else (Inr (), True))"

text \<open>An unfinished backup stays with its source.\<close>

definition copied :: "bool \<Rightarrow> world \<Rightarrow> world" where
  "copied finished w = (if finished then w else w\<lparr>sq_backups := Suc (sq_backups w)\<rparr>)"

text \<open>Statements that \<open>RS_sqlite_import\<close> leaves on the connection when it fails (\<open>ImportFile\<close>).\<close>

definition abandon :: "nat \<Rightarrow> world \<Rightarrow> world" where
  "abandon n w = w\<lparr>sq_stmts := sq_stmts w + n, sq_abandoned := sq_abandoned w + n\<rparr>"

subsection \<open>connection.cpp and result.cpp\<close>

definition connection_valid :: "world \<Rightarrow> bool" where
  "connection_valid w \<longleftrightarrow> ext_ptr w \<and> is_valid w"

definition connection_release :: "(world, unit) act" where
  "connection_release w =
     (if \<not> connection_valid w then (Inr (), w, [''Already disconnected''])
      else let n = use_count w in
        (Inr (), disconnect w,
         if n > 1 then [''There are '' @ show_nat (n - 1) @
           '' result in use. The connection will be released when they are closed'']
         else []))"

text \<open>
  \<open>result_create\<close>: a result takes a shared pointer and, when the statement is prepared and its
  first step succeeds, holds a statement; a failure (\<open>Inl\<close>) finalizes it and drops the pointer.
\<close>

definition result_create :: "unit res \<Rightarrow> (world, unit) act" where
  "result_create prepared =
     abind check_connection (\<lambda>_. abind conn (\<lambda>_ w.
       case prepared of
         Inl e \<Rightarrow> athrow e (drop_owner w)
       | Inr _ \<Rightarrow> areturn () ((set_current_result w)\<lparr>results := Suc (results w), sq_stmts := Suc (sq_stmts w)\<rparr>)))"

definition result_release :: "(world, unit) act" where
  "result_release w =
     (if results w = 0 then areturn () w
      else areturn () (drop_owner ((reset_current_result w)\<lparr>results := results w - 1, sq_stmts := sq_stmts w - 1\<rparr>)))"

text \<open>R collects the external pointer.\<close>

definition finalize_pointer :: "world \<Rightarrow> world" where
  "finalize_pointer w = (if ext_ptr w then drop_owner (w\<lparr>ext_ptr := False\<rparr>) else w)"

text \<open>
  \<open>extension_load\<close>: SQLite leaves a message for a failure unless memory is short; the code
  makes a C++ string of it without looking.  SQLite is told whether loading was enabled.
\<close>

datatype load_result = LoadOk | LoadFailed "string option"

definition extension_load :: "(bool \<Rightarrow> load_result) \<Rightarrow> (world, unit) act" where
  "extension_load sqlite3_load_extension =
     abind conn (\<lambda>_ w. case sqlite3_load_extension (sq_extensions w) of
         LoadOk \<Rightarrow> areturn () w
       | LoadFailed None \<Rightarrow> athrow (UB ''std::string of a null pointer'') w
       | LoadFailed (Some err_msg) \<Rightarrow> athrow (Stop (''Failed to load extension: '' @ c_str err_msg)) w)"

subsection \<open>The calls in any order\<close>

text \<open>
  R reaches the connection through its external pointer, a result through its own.  Nothing is
  said of what follows undefined behaviour.
\<close>

inductive wstep :: "world \<Rightarrow> world \<Rightarrow> bool" where
  busy: "ext_ptr w \<Longrightarrow> set_busy_handler cb w = (res, w', ws) \<Longrightarrow> \<not> undefined_behaviour res \<Longrightarrow> wstep w w'"
| release: "ext_ptr w \<Longrightarrow> connection_release w = (res, w', ws) \<Longrightarrow> wstep w w'"
| create: "ext_ptr w \<Longrightarrow> result_create prepared w = (res, w', ws) \<Longrightarrow> wstep w w'"
| close: "result_release w = (res, w', ws) \<Longrightarrow> wstep w w'"
| collect: "wstep w (finalize_pointer w)"
| transaction: "pConn w \<Longrightarrow> wstep w (w\<lparr>sq_autocommit := b\<rparr>)"
| import_file: "ext_ptr w \<Longrightarrow> pConn w \<Longrightarrow> wstep w (abandon n w)"
| copy: "ext_ptr w \<Longrightarrow> copy_to w dest init step finish errmsg = (res, finished) \<Longrightarrow> \<not> undefined_behaviour res \<Longrightarrow>
    wstep w (copied finished w)"

inductive reachable :: "world \<Rightarrow> bool" where
  connected: "connect open path allow_ext flags vfs alt = (Inr w, n) \<Longrightarrow> reachable w"
| next_call: "reachable w \<Longrightarrow> wstep w w' \<Longrightarrow> reachable w'"

inductive_cases wstep_cases: "wstep w w'"

text \<open>
  The invariant: the callback is the only object preserved, exactly once; the object that an
  open connection has registered with SQLite is the one it preserves; every result has its
  statement, and the others are those that failed imports left; the handle is closed as soon as the object is disconnected, and an object nobody
  owns is.
\<close>

definition callback_count :: "world \<Rightarrow> nat \<Rightarrow> int" where
  "callback_count w a = (if address (busy_callback w) = Some a then 1 else 0)"

definition world_inv :: "world \<Rightarrow> bool" where
  "world_inv w \<longleftrightarrow>
     preserved w = callback_count w \<and>
     (\<forall>a. pConn w \<longrightarrow> sq_handler w = BusyCallback (Some a) \<longrightarrow> address (busy_callback w) = Some a) \<and>
     sq_stmts w = results w + sq_abandoned w \<and>
     sq_closing w = (\<not> pConn w) \<and>
     (\<not> pConn w \<longrightarrow> busy_callback w = RNull) \<and>
     (use_count w = 0 \<longrightarrow> \<not> pConn w)"

lemma address_RNull: "address x = None \<longleftrightarrow> x = RNull"
  by (cases x) simp_all

lemma release_callback_data_inv:
  assumes "preserved w = callback_count w"
  shows "release_callback_data w = w\<lparr>preserved := (\<lambda>_. 0), busy_callback := RNull\<rparr>"
proof (cases "address (busy_callback w)")
  case None
  then have "busy_callback w = RNull" by (simp add: address_RNull)
  then show ?thesis
    using assms by (cases w) (auto simp: release_callback_data_def callback_count_def fun_eq_iff)
next
  case (Some a)
  then show ?thesis
    using assms by (cases w) (auto simp: release_callback_data_def callback_count_def fun_eq_iff)
qed

lemma disconnect_inv: "world_inv w \<Longrightarrow> world_inv (disconnect w)"
  by (simp add: disconnect_def release_callback_data_inv world_inv_def callback_count_def [abs_def]
      use_count_def)

lemma disconnect_eq:
  "preserved w = callback_count w \<Longrightarrow> disconnect w =
     w\<lparr>sq_closing := True, pConn := False, preserved := (\<lambda>_. 0), busy_callback := RNull\<rparr>"
  unfolding disconnect_def
  by (subst release_callback_data_inv) (simp_all add: callback_count_def [abs_def])

lemma drop_owner_inv:
  assumes "preserved w = callback_count w"
    and "\<forall>a. pConn w \<longrightarrow> sq_handler w = BusyCallback (Some a) \<longrightarrow> address (busy_callback w) = Some a"
    and "sq_stmts w = results w + sq_abandoned w" "sq_closing w = (\<not> pConn w)" "\<not> pConn w \<longrightarrow> busy_callback w = RNull"
  shows "world_inv (drop_owner w)"
proof (cases "use_count w = 0")
  case True
  have "release_callback_data (disconnect w) = disconnect w"
    by (simp add: disconnect_eq [OF assms(1)] release_callback_data_def)
  moreover have "\<not> pConn w \<Longrightarrow> release_callback_data w = w"
    using assms(5) by (simp add: release_callback_data_def)
  ultimately show ?thesis
    using True assms by (auto simp: drop_owner_def destroy_def is_valid_def disconnect_eq world_inv_def
        callback_count_def [abs_def] use_count_def)
qed (use assms in \<open>simp add: drop_owner_def world_inv_def\<close>)

lemma set_busy_handler_eq:
  assumes "pConn w" "preserved w = callback_count w"
  shows "set_busy_handler cb w =
    (let v = w\<lparr>preserved := (\<lambda>_. 0), busy_callback := RNull\<rparr>; u = preserve cb v in
     case cb of
       RNull \<Rightarrow> areturn () (v\<lparr>sq_handler := BusyCallback None\<rparr>)
     | RIntegers a ms \<Rightarrow>
         (case ms of
            [] \<Rightarrow> athrow (UB ''INTEGER(x)[0] of an empty vector'') u
          | m # _ \<Rightarrow> areturn () (u\<lparr>sq_handler := (if sint m > 0 then BusyTimeout m else NoHandler)\<rparr>))
     | RFunction a \<Rightarrow> areturn () (u\<lparr>sq_handler := BusyCallback (Some a)\<rparr>))"
  using assms
  by (cases cb) (auto simp: set_busy_handler_def check_connection_def is_valid_def abind_def areturn_def
      athrow_def Let_def release_callback_data_inv preserve_def split: list.split)

lemma set_busy_handler_inv:
  assumes "world_inv w" "ext_ptr w" "set_busy_handler cb w = (res, w', ws)" "\<not> undefined_behaviour res"
  shows "world_inv w'"
proof (cases "pConn w")
  case False
  then show ?thesis
    using assms by (simp add: set_busy_handler_def check_connection_def is_valid_def abind_def athrow_def)
next
  case True
  have p: "preserved w = callback_count w" using assms(1) by (simp add: world_inv_def)
  show ?thesis
    using assms True unfolding set_busy_handler_eq [OF True p]
    by (cases cb) (auto simp: preserve_def areturn_def athrow_def Let_def world_inv_def use_count_def
        callback_count_def fun_eq_iff split: list.splits if_splits)
qed

lemma wstep_inv: "wstep w w' \<Longrightarrow> world_inv w \<Longrightarrow> world_inv w'"
proof (induction rule: wstep.induct)
  case (busy w cb res w' ws)
  then show ?case using set_busy_handler_inv by blast
next
  case (release w res w' ws)
  then show ?case
    using disconnect_inv by (auto simp: connection_release_def Let_def split: if_splits)
next
  case (create w prepared res w' ws)
  have "\<not> pConn w \<Longrightarrow> w' = w"
    using create(2) by (simp add: result_create_def set_current_result_def check_connection_def is_valid_def abind_def athrow_def)
  moreover have "pConn w \<Longrightarrow> w' = w\<lparr>results := Suc (results w), sq_stmts := Suc (sq_stmts w)\<rparr> \<or> w' = drop_owner w"
    using create(2)
    by (auto simp: result_create_def set_current_result_def check_connection_def conn_def is_valid_def abind_def athrow_def
        areturn_def split: sum.splits)
  moreover have "drop_owner w = w" using create(1) by (simp add: drop_owner_def use_count_def)
  ultimately show ?case
    using create(3) by (cases "pConn w") (auto simp: world_inv_def callback_count_def [abs_def] use_count_def)
next
  case (close w res w' ws)
  show ?case
  proof (cases "results w = 0")
    case False
    let ?w = "w\<lparr>results := results w - 1, sq_stmts := sq_stmts w - 1\<rparr>"
    have "world_inv (drop_owner ?w)"
      using close(2) False by (intro drop_owner_inv) (auto simp: world_inv_def callback_count_def [abs_def])
    then show ?thesis using close(1) False by (simp add: result_release_def reset_current_result_def areturn_def)
  qed (use close in \<open>simp add: result_release_def reset_current_result_def areturn_def\<close>)
next
  case (collect w)
  have "ext_ptr w \<Longrightarrow> world_inv (drop_owner (w\<lparr>ext_ptr := False\<rparr>))"
    using collect by (intro drop_owner_inv) (simp_all add: world_inv_def callback_count_def [abs_def])
  then show ?case using collect by (simp add: finalize_pointer_def)
next
  case (transaction w b)
  then show ?case by (simp add: world_inv_def callback_count_def [abs_def] use_count_def)
next
  case (import_file w n)
  then show ?case by (simp add: abandon_def world_inv_def callback_count_def [abs_def] use_count_def)
next
  case (copy w dest init step finish errmsg res finished)
  then show ?case by (simp add: copied_def world_inv_def callback_count_def [abs_def] use_count_def)
qed

lemma reachable_inv: "reachable w \<Longrightarrow> world_inv w"
proof (induction rule: reachable.induct)
  case (connected opens path allow_ext flags vfs alt w n)
  then show ?case
    by (auto simp: connect_def world_inv_def callback_count_def fun_eq_iff use_count_def Let_def
        split: open_result.splits)
qed (rule wstep_inv)

subsection \<open>Properties\<close>

text \<open>
  C37: in every reachable state the connection's own busy callback is protected from the
  garbage collector, exactly once, and nothing else is; once the connection is disconnected
  nothing is protected.
\<close>

theorem callback_protected_once:
  assumes "reachable w"
  shows "preserved w = (\<lambda>a. if address (busy_callback w) = Some a then 1 else 0)
    \<and> (\<not> pConn w \<longrightarrow> preserved w = (\<lambda>_. 0))"
  using reachable_inv [OF assms] by (auto simp: world_inv_def callback_count_def fun_eq_iff)

text \<open>
  C38: when R holds neither the connection nor a result of it, SQLite has been told to close it;
  and a connection is freed exactly when it is disconnected, no result is left, no failed
  import has left a statement on it and no failed copy a backup.  So nothing else leaks it, and it
  is never freed while a result holds a statement.
\<close>

theorem connection_closed_when_unowned:
  assumes "reachable w"
  shows "(use_count w = 0 \<longrightarrow> \<not> pConn w \<and> sq_closing w \<and> results w = 0)
    \<and> (sqlite_freed w \<longleftrightarrow> \<not> pConn w \<and> results w = 0 \<and> sq_abandoned w = 0 \<and> sq_backups w = 0)
    \<and> (results w > 0 \<longrightarrow> \<not> sqlite_freed w)"
  using reachable_inv [OF assms] by (auto simp: world_inv_def sqlite_freed_def use_count_def)

text \<open>
  A busy event of a connection is undefined exactly when a null pointer is registered, when the
  connection was disconnected, or when the function does not answer with an integer.
\<close>

definition unsafe_handler :: "world \<Rightarrow> r_answer \<Rightarrow> bool" where
  "unsafe_handler w ans \<longleftrightarrow>
     (case sq_handler w of
        BusyCallback None \<Rightarrow> True
      | BusyCallback (Some a) \<Rightarrow> \<not> pConn w \<or> (case ans of Answers (_ # _) \<Rightarrow> False | _ \<Rightarrow> True)
      | _ \<Rightarrow> False)"

lemma busy_event_unsafe:
  assumes "reachable w"
  shows "undefined_behaviour (busy_event (\<lambda>_. ans) w) \<longleftrightarrow> unsafe_handler w ans"
  using reachable_inv [OF assms]
  by (auto simp: world_inv_def busy_event_def busy_callback_helper_def unsafe_handler_def callback_count_def
      split: busy_handler.splits option.splits r_answer.splits list.splits)

text \<open>
  While the connection is open, a busy event calls an object that is protected, except
  after \<open>set_busy_handler(NULL)\<close>, when it calls a null pointer.
\<close>

lemma busy_event_while_open:
  assumes "reachable w" "pConn w"
  shows "undefined_behaviour (busy_event (\<lambda>_. Answers [k]) w) \<longleftrightarrow> sq_handler w = BusyCallback None"
  using assms by (auto simp: busy_event_unsafe unsafe_handler_def split: busy_handler.splits option.splits)

text \<open>A run that the witnesses use: connect, register a callback, open a result, disconnect.\<close>

definition world0 :: world where
  "world0 = \<lparr>pConn = True, alt_types = False, busy_callback = RNull, sq_handler = NoHandler,
     sq_closing = False, sq_stmts = 0, sq_abandoned = 0, sq_backups = 0, sq_autocommit = True, sq_extensions = False,
     preserved = (\<lambda>_. 0), ext_ptr = True, results = 0\<rparr>"

definition world1 :: world where
  "world1 = world0\<lparr>busy_callback := RFunction 7, sq_handler := BusyCallback (Some 7),
     preserved := (\<lambda>_. 0)(7 := 1)\<rparr>"

definition world2 :: world where
  "world2 = world1\<lparr>results := 1, sq_stmts := 1\<rparr>"

definition world3 :: world where
  "world3 = world2\<lparr>pConn := False, sq_closing := True, busy_callback := RNull, preserved := (\<lambda>_. 0)\<rparr>"

lemma reachable_worlds: "reachable world0" "reachable world1" "reachable world2" "reachable world3"
proof -
  show 0: "reachable world0"
    by (rule reachable.connected [of "\<lambda>_ _ _. OpenOk" "[]" False 0 "[]" False _ 0])
      (simp add: connect_def world0_def)
  have "set_busy_handler (RFunction 7) world0 = (Inr (), world1, [])"
    by (simp add: set_busy_handler_def check_connection_def is_valid_def abind_def areturn_def Let_def
        release_callback_data_def preserve_def world0_def world1_def fun_eq_iff)
  then have "wstep world0 world1"
    by (rule wstep.busy [rotated]) (simp_all add: world0_def)
  with 0 show 1: "reachable world1" by (rule reachable.next_call)
  have "result_create (Inr ()) world1 = (Inr (), world2, [])"
    by (simp add: result_create_def set_current_result_def check_connection_def conn_def is_valid_def abind_def areturn_def
        world0_def world1_def world2_def)
  then have "wstep world1 world2"
    by (rule wstep.create [rotated]) (simp add: world0_def world1_def)
  with 1 show 2: "reachable world2" by (rule reachable.next_call)
  have "\<exists>ws. connection_release world2 = (Inr (), world3, ws)"
    by (simp add: connection_release_def connection_valid_def is_valid_def disconnect_def
        release_callback_data_def world0_def world1_def world2_def world3_def Let_def fun_upd_def fun_eq_iff)
  then obtain ws where "connection_release world2 = (Inr (), world3, ws)" by blast
  then have "wstep world2 world3"
    by (rule wstep.release [rotated]) (simp add: world0_def world1_def world2_def)
  with 2 show "reachable world3" by (rule reachable.next_call)
qed

theorem callback_protected_once_witness: "preserved world1 = (\<lambda>a. if Some 7 = Some a then 1 else 0)"
  using callback_protected_once [of world1] reachable_worlds by (simp add: world1_def)

text \<open>The same connection after an import that failed on a line, and then released by the result.\<close>

definition world4 :: world where
  "world4 = world0\<lparr>sq_stmts := 1, sq_abandoned := 1, pConn := False, sq_closing := True, ext_ptr := False\<rparr>"

lemma reachable_world4: "reachable world4"
proof -
  have "reachable (abandon 1 world0)"
    using reachable_worlds(1) wstep.import_file [of world0 1] by (auto simp: world0_def intro: reachable.next_call)
  moreover have "finalize_pointer (abandon 1 world0) = world4"
    by (simp add: world4_def world0_def abandon_def finalize_pointer_def drop_owner_def use_count_def destroy_def
        is_valid_def disconnect_def release_callback_data_def)
  ultimately show ?thesis using wstep.collect [of "abandon 1 world0"] reachable.next_call by metis
qed

theorem connection_closed_when_unowned_witness:
  "(results world3 = 1 \<and> \<not> sqlite_freed world3) \<and> (use_count world4 = 0 \<and> sq_closing world4 \<and> \<not> sqlite_freed world4)"
  using connection_closed_when_unowned [of world3] connection_closed_when_unowned [of world4] reachable_worlds(4) reachable_world4
  by (simp add: world4_def world3_def world2_def world0_def use_count_def)

lemma busy_event_while_open_witness: "\<not> undefined_behaviour (busy_event (\<lambda>_. Answers [0]) world2)"
  using busy_event_while_open [of world2 0] reachable_worlds
  by (simp add: world2_def world1_def world0_def)

text \<open>
  Disconnecting releases the callback although an open result keeps SQLite's connection,
  and with it the registered callback, alive: a state R can reach in which a busy event calls
  an object that is no longer protected.
\<close>

theorem disconnect_leaves_dangling_callback:
  "\<exists>w. reachable w \<and> results w > 0 \<and> \<not> sqlite_freed w \<and> undefined_behaviour (busy_event answer w)"
  using reachable_worlds(4)
  by (intro exI [of _ world3]) (simp add: world3_def world2_def world1_def sqlite_freed_def busy_event_def)

text \<open>
  \<open>set_busy_handler(NULL)\<close>, documented as failing at once when the database is locked,
  registers a callback on a null pointer.
\<close>

theorem null_handler_is_registered:
  "\<exists>w w'. reachable w \<and> set_busy_handler RNull w = (Inr (), w', []) \<and> undefined_behaviour (busy_event answer w')"
  using reachable_worlds(1)
  by (intro exI [of _ world0] exI [of _ "world0\<lparr>sq_handler := BusyCallback None\<rparr>"])
    (simp add: set_busy_handler_def check_connection_def is_valid_def abind_def areturn_def Let_def
      release_callback_data_def preserve_def world0_def busy_event_def)

end
