(* ===== verification/ImportFile.thy ===== *)
theory ImportFile
  imports SqliteValue
begin

text \<open>
  \<open>src/src/import-file.c\<close>: importing a delimited file into a table.  \<open>RS_sqlite_getline\<close> is
  modelled on its buffer, whose cells are \<open>None\<close> until they are written, so that reading past
  the end or before anything was written is a failure of the model; \<open>RS_sqlite_import\<close> splits a
  line by writing NUL bytes into it and keeps positions of the columns, as the code does.

  Files and strings are lists of bytes as characters.  Allocation does not fail.  The database
  is a parameter: preparing a query, running the insert for one row of values, finalizing.  The
  statements the code has open are counted, since it leaves one on two of its error paths.
\<close>

subsection \<open>RS_sqlite_getline\<close>

definition grow :: "char option list \<Rightarrow> nat \<Rightarrow> char option list" where
  "grow buf i = (if i = length buf then buf @ replicate (length buf) None else buf)"

text \<open>The comparison loop; \<open>j\<close> counts down from \<open>neol - 1\<close>.  The index is a \<open>size_t\<close>.\<close>

fun match_eol :: "string \<Rightarrow> char option list \<Rightarrow> nat \<Rightarrow> nat \<Rightarrow> bool res" where
  "match_eol eol buf i 0 = Inr True"
| "match_eol eol buf i (Suc j) =
     (if i - 1 < Suc j then Inl (UB ''index before the buffer'')
      else rbind (get_init buf (i - 1 - Suc j)) (\<lambda>b.
        if b \<noteq> eol ! (length eol - 1 - Suc j) then Inr False else match_eol eol buf i j))"

text \<open>
  The reading loop, over the rest of the file.  \<open>fgetc\<close> gives 128 to 255 for the bytes that are
  negative as \<open>char\<close>, so these never equal \<open>ceol\<close>.
\<close>

fun getline_loop ::
  "string \<Rightarrow> string \<Rightarrow> char option list \<Rightarrow> nat \<Rightarrow> (char option list \<times> nat \<times> string) res" where
  "getline_loop eol [] buf i = Inr (grow buf i, i, [])"
| "getline_loop eol (c # rest) buf i =
     rbind (set_cell (grow buf i) i (Some c)) (\<lambda>buf.
       if c = last eol \<and> of_char c < (128 :: nat)
       then rbind (match_eol eol buf (Suc i) (length eol - 1)) (\<lambda>found_eol.
         if found_eol
         then rbind (set_cell buf (Suc i - length eol) (Some (CHR 0x00))) (\<lambda>buf. Inr (buf, Suc i, rest))
         else getline_loop eol rest buf (Suc i))
       else getline_loop eol rest buf (Suc i))"

fun c_strlen :: "char option list \<Rightarrow> nat res" where
  "c_strlen [] = Inl (UB ''strlen past the end of the buffer'')"
| "c_strlen (None # buf) = Inl (UB ''strlen of uninitialised memory'')"
| "c_strlen (Some c # buf) = (if c = CHR 0x00 then Inr 0 else rbind (c_strlen buf) (\<lambda>n. Inr (Suc n)))"

text \<open>The line, \<open>None\<close> for the NULL of an empty line, and the rest of the file.\<close>

definition malloc :: "nat \<Rightarrow> char option list" where
  "malloc nc = replicate nc None"

text \<open>The C string at the start of a buffer.\<close>

definition read_c_string :: "char option list \<Rightarrow> string res" where
  "read_c_string buf = rbind (c_strlen buf) (\<lambda>n. Inr (map the (take n buf)))"

definition RS_sqlite_getline :: "string \<Rightarrow> string \<Rightarrow> (string option \<times> string) res" where
  "RS_sqlite_getline eol file =
     (if eol = [] then Inl (UB ''eol[-1]'')
      else rbind (getline_loop eol file (malloc 1024) 0) (\<lambda>(buf, i, rest).
        if i = 0 then Inr (None, rest)
        else rbind (c_strlen buf) (\<lambda>n.
          if n = 0 then Inr (None, rest) else Inr (Some (map the (take n buf)), rest))))"

subsection \<open>Splitting a line\<close>

text \<open>
  \<open>buf\<close> is the line with its NUL, \<open>az\<close> the positions of the columns found so far.  The separator
  is not empty, so that \<open>z\<close> always moves on.
\<close>

function scan :: "nat \<Rightarrow> string \<Rightarrow> string \<Rightarrow> nat \<Rightarrow> nat \<Rightarrow> nat list \<Rightarrow> (string \<times> nat \<times> nat list) res" where
  "scan nCol sep buf z i az =
     (if z \<ge> length buf then Inl (UB ''past the end of the line'')
      else let c = buf ! z in
        if c = CHR 0x00 \<or> c = CHR 0x0A \<or> c = CHR 0x0D then Inr (buf, i, az)
        else if c = hd sep \<and> prefix sep (drop z buf)
        then let buf = buf[z := CHR 0x00]; i = Suc i in
             if i < nCol then scan nCol sep buf (z + max 1 (length sep)) i (az @ [z + length sep])
             else scan nCol sep buf (Suc z) i az
        else scan nCol sep buf (Suc z) i az)"
  by pat_completeness auto
termination
  by (relation "measure (\<lambda>(nCol, sep, buf, z, i, az). length buf - z)") auto

declare scan.simps [simp del]

text \<open>A column that begins with \<open>\N\<close> is bound as NULL.\<close>

definition column_value :: "string \<Rightarrow> sqlite_value" where
  "column_value s =
     (if length s \<ge> 2 \<and> s ! 0 = CHR 0x5C \<and> s ! 1 = CHR ''N'' then SqlNull else SqlText s)"

definition split_line :: "string \<Rightarrow> nat \<Rightarrow> nat \<Rightarrow> string \<Rightarrow> string \<Rightarrow> sqlite_value list res" where
  "split_line zFile lineno nCol sep line =
     rbind (scan nCol sep (line @ [CHR 0x00]) 0 0 [0]) (\<lambda>(buf, i, az).
       if i + 1 \<noteq> nCol
       then Inl (RError (''RS_sqlite_import: '' @ zFile @ '' line '' @ show_nat lineno @ '' expected '' @
              show_nat nCol @ '' columns of data but found '' @ show_nat (i + 1)))
       else Inr (map (\<lambda>p. column_value (c_str (drop p buf))) az))"

subsection \<open>RS_sqlite_import\<close>

datatype insert_rc = InsertDone | InsertSchema | InsertError

record 'db import_db =
  prepare_query :: "string \<Rightarrow> 'db \<Rightarrow> nat option \<times> 'db"   \<comment> \<open>the column count, \<open>None\<close> for an error\<close>
  insert_step :: "sqlite_value list \<Rightarrow> 'db \<Rightarrow> insert_rc \<times> 'db"
  insert_reset :: "'db \<Rightarrow> bool \<times> 'db"
  finalize_query :: "'db \<Rightarrow> 'db"
  db_errmsg :: "'db \<Rightarrow> string"

text \<open>
  The state of the import: the database, and how many statements are prepared and not finalized.
  A preparation that fails leaves \<open>pStmt\<close> NULL, which \<open>sqlite3_finalize\<close> ignores.
\<close>

type_synonym 'db import_state = "'db \<times> nat"

definition import_error :: "'db import_db \<Rightarrow> ('db import_state, 'a) act" where
  "import_error D st = athrow (RError (''RS_sqlite_import: '' @ db_errmsg D (fst st))) st"

definition import_prepare :: "'db import_db \<Rightarrow> string \<Rightarrow> ('db import_state, nat) act" where
  "import_prepare D zSql st =
     (case prepare_query D zSql (fst st) of
        (None, db) \<Rightarrow> import_error D (db, snd st)
      | (Some nCol, db) \<Rightarrow> areturn nCol (db, Suc (snd st)))"

definition import_finalize :: "'db import_db \<Rightarrow> 'db import_state \<Rightarrow> 'db import_state" where
  "import_finalize D st = (finalize_query D (fst st), snd st - 1)"

text \<open>The conversion \<open>%q\<close> doubles every quote.\<close>

fun quote_q :: "string \<Rightarrow> string" where
  "quote_q [] = []"
| "quote_q (c # z) = (if c = CHR 0x27 then [c, c] else [c]) @ quote_q z"

definition select_sql :: "string \<Rightarrow> string" where
  "select_sql zTable = ''SELECT * FROM '' @ [CHR 0x27] @ quote_q (c_str zTable) @ [CHR 0x27]"

text \<open>
  The insert statement is built in a buffer: \<open>sqlite3_snprintf\<close> writes the beginning, cut to
  the bytes it is told of, and a NUL; the code then writes the other marks over that NUL, as
  many as the table has columns, and ends the string again.  A write outside the buffer, or
  reading a cell that was not written, is undefined.
\<close>

fun put_chars :: "char option list \<Rightarrow> nat \<Rightarrow> string \<Rightarrow> char option list res" where
  "put_chars buf j [] = Inr buf"
| "put_chars buf j (c # cs) = rbind (set_cell buf j (Some c)) (\<lambda>buf. put_chars buf (Suc j) cs)"

definition sqlite3_snprintf :: "nat \<Rightarrow> char option list \<Rightarrow> string \<Rightarrow> char option list res" where
  "sqlite3_snprintf n buf text =
     (if n = 0 then Inr buf else put_chars buf 0 (take (n - 1) text @ [CHR 0x00]))"

definition insert_head :: "string \<Rightarrow> string" where
  "insert_head zTable = ''INSERT INTO '' @ [CHR 0x27] @ quote_q (c_str zTable) @ [CHR 0x27] @ '' VALUES(?''"

text \<open>The loop over the columns after the first.\<close>

fun put_marks :: "char option list \<Rightarrow> nat \<Rightarrow> nat \<Rightarrow> (char option list \<times> nat) res" where
  "put_marks buf j 0 = Inr (buf, j)"
| "put_marks buf j (Suc n) =
     rbind (set_cell buf j (Some (CHR '',''))) (\<lambda>buf.
     rbind (set_cell buf (Suc j) (Some (CHR ''?''))) (\<lambda>buf. put_marks buf (Suc (Suc j)) n))"

text \<open>The bytes allocated, and the string SQLite is given in them.\<close>

definition insert_sql_space :: "string \<Rightarrow> nat \<Rightarrow> nat" where
  "insert_sql_space zTable nCol = length (select_sql zTable) + 20 + nCol * 2"

definition write_insert_sql :: "string \<Rightarrow> nat \<Rightarrow> string res" where
  "write_insert_sql zTable nCol =
     (let nByte = length (select_sql zTable); zSql = malloc (insert_sql_space zTable nCol) in
      rbind (sqlite3_snprintf (nByte + 20) zSql (insert_head zTable)) (\<lambda>zSql.
      rbind (c_strlen zSql) (\<lambda>j.
      rbind (put_marks zSql j (nCol - 1)) (\<lambda>(zSql, j).
      rbind (set_cell zSql j (Some (CHR '')''))) (\<lambda>zSql.
      rbind (set_cell zSql (Suc j) (Some (CHR 0x00))) read_c_string)))))"

text \<open>What it is meant to be: one mark for every column.\<close>

definition insert_sql :: "string \<Rightarrow> nat \<Rightarrow> string" where
  "insert_sql zTable nCol = insert_head zTable @ concat (replicate (nCol - 1) '',?'') @ '')''"

lemma getline_loop_shorter:
  "getline_loop eol inp buf i = Inr (buf', i', rest) \<Longrightarrow> i' = i \<and> rest = inp \<or> length rest < length inp"
proof (induction inp arbitrary: buf i)
  case (Cons c inp)
  then show ?case by (fastforce split: if_splits)
qed simp

lemma getline_shorter:
  "RS_sqlite_getline eol inp = Inr (Some line, rest) \<Longrightarrow> length rest < length inp"
  using getline_loop_shorter
  by (fastforce simp: RS_sqlite_getline_def split: if_splits)

text \<open>
  Stepping and resetting the insert for one row: a failure finalizes it before the error, whose
  message SQLite keeps.
\<close>

definition import_row :: "'db import_db \<Rightarrow> sqlite_value list \<Rightarrow> ('db import_state, unit) act" where
  "import_row D vals st =
     (case insert_step D vals (fst st) of (rc, db1) \<Rightarrow>
        if rc = InsertError then import_error D (import_finalize D (db1, snd st))
        else (case insert_reset D db1 of (ok, db2) \<Rightarrow>
          if \<not> ok then import_error D (import_finalize D (db2, snd st))
          else areturn () (db2, snd st)))"

text \<open>The loop over the lines; a line with another number of fields is an error that leaves the statement.\<close>

function import_lines ::
  "'db import_db \<Rightarrow> string \<Rightarrow> string \<Rightarrow> string \<Rightarrow> nat \<Rightarrow> nat \<Rightarrow> string \<Rightarrow> nat \<Rightarrow> ('db import_state, unit) act" where
  "import_lines D zFile sep eol nCol skip file lineno st =
     (case RS_sqlite_getline eol file of
        Inl e \<Rightarrow> athrow e st
      | Inr (None, rest) \<Rightarrow> areturn () st
      | Inr (Some line, rest) \<Rightarrow>
          let lineno = Suc lineno in
          if lineno \<le> skip then import_lines D zFile sep eol nCol skip rest lineno st
          else (case split_line zFile lineno nCol sep line of
              Inl e \<Rightarrow> athrow e st
            | Inr vals \<Rightarrow>
                (case import_row D vals st of
                   (Inl e, st', ws) \<Rightarrow> (Inl e, st', ws)
                 | (Inr _, st', ws) \<Rightarrow> import_lines D zFile sep eol nCol skip rest lineno st')))"
  by pat_completeness auto
termination
  by (relation "measure (\<lambda>(D, zFile, sep, eol, nCol, skip, file, lineno, st). length file)")
    (auto dest: getline_shorter)

declare import_lines.simps [simp del]

text \<open>
  \<open>file\<close> is \<open>None\<close> when it cannot be opened, an error that leaves the statement; \<open>skip\<close> is a C int.
  The select statement is only there to count the columns.
\<close>

definition RS_sqlite_import ::
  "'db import_db \<Rightarrow> string \<Rightarrow> string \<Rightarrow> string option \<Rightarrow> string \<Rightarrow> string \<Rightarrow> int \<Rightarrow> ('db import_state, bool) act" where
  "RS_sqlite_import D zTable zFile file separator eol skip =
     (if separator = [] then athrow (RError ''RS_sqlite_import: non-null separator required for import'')
      else abind (import_prepare D (select_sql zTable)) (\<lambda>nCol.
        abind (amodify (import_finalize D)) (\<lambda>_.
        if nCol = 0 then areturn False
        else (case write_insert_sql zTable nCol of
            Inl e \<Rightarrow> athrow e
          | Inr zSql \<Rightarrow>
              abind (import_prepare D zSql) (\<lambda>_.
                case file of
                  None \<Rightarrow> athrow (RError (''RS_sqlite_import: cannot open file '' @ zFile))
                | Some bytes \<Rightarrow>
                    abind (import_lines D zFile separator eol nCol (nat skip) bytes 0) (\<lambda>_.
                    abind (amodify (import_finalize D)) (\<lambda>_. areturn True)))))))"

subsection \<open>The insert statement\<close>

lemma list_update_at: "length pre = n \<Longrightarrow> (pre @ x # xs)[n := y] = pre @ y # xs"
  by auto

lemma set_cell_at: "length pre = n \<Longrightarrow> set_cell (pre @ x # xs) n y = Inr (pre @ y # xs)"
  by (auto simp: set_cell_def)

lemma put_chars_at:
  "length pre = j \<Longrightarrow> length cs \<le> length free \<Longrightarrow>
     put_chars (pre @ free) j cs = Inr (pre @ map Some cs @ drop (length cs) free)"
proof (induction cs arbitrary: pre j free)
  case (Cons c cs)
  then obtain x xs where "free = x # xs" by (cases free) auto
  with Cons.IH [of "pre @ [Some c]" "Suc j" xs] Cons.prems show ?case by (simp add: list_update_at)
qed simp

lemma put_marks_at:
  "length pre = j \<Longrightarrow> 2 * n \<le> length free \<Longrightarrow>
     put_marks (pre @ free) j n
       = Inr (pre @ map Some (concat (replicate n '',?'')) @ drop (2 * n) free, j + 2 * n)"
proof (induction n arbitrary: pre j free)
  case (Suc n)
  then obtain x y xs where free: "free = x # y # xs"
    by (metis (no_types) Suc_le_length_iff add_2_eq_Suc le_add1 le_trans mult_Suc_right numeral_2_eq_2)
  have "(pre @ Some (CHR '','') # y # xs)[Suc j := Some (CHR ''?'')]
      = pre @ Some (CHR '','') # Some (CHR ''?'') # xs"
    using list_update_at [of "pre @ [Some (CHR '','')]" "Suc j" y xs] Suc.prems(1) by simp
  with free Suc.IH [of "pre @ [Some (CHR '',''), Some (CHR ''?'')]" "Suc (Suc j)" xs] Suc.prems
  show ?case by (simp add: list_update_at)
qed simp

lemma c_strlen_prefix:
  "CHR 0x00 \<notin> set l \<Longrightarrow> c_strlen (map Some l @ Some (CHR 0x00) # xs) = Inr (length l)"
  by (induction l) auto

lemma read_c_string_prefix:
  "CHR 0x00 \<notin> set l \<Longrightarrow> read_c_string (map Some l @ Some (CHR 0x00) # xs) = Inr l"
  by (simp add: read_c_string_def c_strlen_prefix)

lemma set_quote_q [simp]: "set (quote_q z) = set z"
  by (induction z) auto

lemma c_str_nul [simp]: "CHR 0x00 \<notin> set (c_str z)"
  by (auto simp: c_str_def dest: set_takeWhileD)

lemma insert_head_no_nul: "CHR 0x00 \<notin> set (insert_head tbl)"
  by (simp add: insert_head_def)

lemma insert_sql_no_nul: "CHR 0x00 \<notin> set (insert_sql tbl nCol)"
  by (auto simp: insert_sql_def insert_head_no_nul)

lemma insert_head_length: "length (insert_head tbl) + 13 = length (select_sql tbl) + 20"
  by (simp add: insert_head_def select_sql_def)

lemma write_insert_sql_ok:
  assumes "0 < nCol"
  shows "write_insert_sql tbl nCol = Inr (insert_sql tbl nCol)"
proof -
  let ?h = "insert_head tbl" and ?n = "length (select_sql tbl) + 20"
  let ?marks = "concat (replicate (nCol - 1) '',?'')"
  define free where "free = (replicate (12 + nCol * 2) None :: char option list)"
  have len: "length ?h + 13 = ?n" by (rule insert_head_length)
  have "malloc (insert_sql_space tbl nCol) = replicate (length ?h + 1 + (12 + nCol * 2)) None"
    using len by (simp add: malloc_def insert_sql_space_def algebra_simps)
  then have space: "malloc (insert_sql_space tbl nCol) = replicate (length ?h + 1) None @ free"
    by (simp only: free_def replicate_add)
  have "sqlite3_snprintf ?n (malloc (insert_sql_space tbl nCol)) ?h
      = put_chars ([] @ (replicate (length ?h + 1) None @ free)) 0 (?h @ [CHR 0x00])"
    using len by (simp add: sqlite3_snprintf_def space)
  also have "\<dots> = Inr (map Some ?h @ Some (CHR 0x00) # free)"
    by (subst put_chars_at) simp_all
  finally have head: "sqlite3_snprintf ?n (malloc (insert_sql_space tbl nCol)) ?h
      = Inr (map Some ?h @ Some (CHR 0x00) # free)" .
  have "length ?marks = 2 * (nCol - 1)" by (simp add: length_concat sum_list_replicate)
  moreover obtain x y xs where rest: "drop (2 * (nCol - 1)) (Some (CHR 0x00) # free) = x # y # xs"
  proof -
    have "2 \<le> length (drop (2 * (nCol - 1)) (Some (CHR 0x00) # free))"
      using assms by (simp add: free_def)
    then show ?thesis using that by (cases "drop (2 * (nCol - 1)) (Some (CHR 0x00) # free)"; force simp: Suc_le_length_iff)
  qed
  moreover have "put_marks (map Some ?h @ Some (CHR 0x00) # free) (length ?h) (nCol - 1)
      = Inr (map Some ?h @ map Some ?marks @ drop (2 * (nCol - 1)) (Some (CHR 0x00) # free), length ?h + 2 * (nCol - 1))"
    by (rule put_marks_at) (simp_all add: free_def)
  ultimately have marks: "put_marks (map Some ?h @ Some (CHR 0x00) # free) (length ?h) (nCol - 1)
      = Inr (map Some (?h @ ?marks) @ x # y # xs, length (?h @ ?marks))"
    by simp
  let ?b = "map Some (?h @ ?marks)"
  have "set_cell (?b @ x # y # xs) (length (?h @ ?marks)) (Some (CHR '')'')) = Inr (?b @ Some (CHR '')'') # y # xs)"
    by (rule set_cell_at) simp
  moreover have "set_cell (?b @ Some (CHR '')'') # y # xs) (Suc (length (?h @ ?marks))) (Some (CHR 0x00))
      = Inr (map Some (insert_sql tbl nCol) @ Some (CHR 0x00) # xs)"
    using set_cell_at [of "?b @ [Some (CHR '')'')]" "Suc (length (?h @ ?marks))" y xs "Some (CHR 0x00)"]
    by (simp add: insert_sql_def)
  ultimately show ?thesis
    using read_c_string_prefix [OF insert_sql_no_nul]
    by (simp add: write_insert_sql_def Let_def head marks c_strlen_prefix insert_head_no_nul
        del: map_append length_append One_nat_def)
qed

subsection \<open>Reading a line\<close>

text \<open>
  The end of line the code can recognise: its last byte occurs nowhere else in it and is ASCII.
\<close>

definition good_eol :: "string \<Rightarrow> bool" where
  "good_eol eol \<longleftrightarrow> eol \<noteq> [] \<and> last eol \<notin> set (butlast eol) \<and> of_char (last eol) < (128 :: nat)"

definition plain_line :: "string \<Rightarrow> string \<Rightarrow> bool" where
  "plain_line eol line \<longleftrightarrow> last eol \<notin> set line \<and> CHR 0x00 \<notin> set line"

definition holds_prefix :: "char option list \<Rightarrow> nat \<Rightarrow> string \<Rightarrow> bool" where
  "holds_prefix buf i pre \<longleftrightarrow> i = length pre \<and> i \<le> length buf \<and> 0 < length buf \<and> take i buf = map Some pre
     \<and> drop i buf = replicate (length buf - i) None"

lemma holds_prefix_grow:
  assumes "holds_prefix buf i pre"
  shows "i < length (grow buf i)" "take i (grow buf i) = map Some pre"
    "drop i (grow buf i) = replicate (length (grow buf i) - i) None"
  using assms by (cases "i = length buf"; simp add: grow_def holds_prefix_def)+

lemma holds_prefix_push:
  assumes "holds_prefix buf i pre"
  shows "\<exists>buf'. set_cell (grow buf i) i (Some c) = Inr buf' \<and> holds_prefix buf' (Suc i) (pre @ [c])"
proof -
  note i = holds_prefix_grow [OF assms]
  have "take (Suc i) ((grow buf i)[i := Some c]) = map Some (pre @ [c])"
    using i by (simp add: take_Suc_conv_app_nth)
  moreover have "drop (Suc i) ((grow buf i)[i := Some c]) = drop 1 (drop i (grow buf i))" by simp
  then have "drop (Suc i) ((grow buf i)[i := Some c]) = replicate (length (grow buf i) - Suc i) None"
    unfolding i(3) by simp
  ultimately have "holds_prefix ((grow buf i)[i := Some c]) (Suc i) (pre @ [c])"
    using i(1) assms by (auto simp: holds_prefix_def Suc_le_eq)
  then show ?thesis using i(1) by (simp add: set_cell_def)
qed

lemma getline_loop_push:
  assumes "last eol \<notin> set cs" "holds_prefix buf i pre"
  shows "\<exists>buf'. getline_loop eol (cs @ rest) buf i = getline_loop eol rest buf' (i + length cs)
    \<and> holds_prefix buf' (i + length cs) (pre @ cs)"
  using assms
proof (induction cs arbitrary: buf i pre)
  case (Cons c cs)
  obtain buf1 where b: "set_cell (grow buf i) i (Some c) = Inr buf1" "holds_prefix buf1 (Suc i) (pre @ [c])"
    using holds_prefix_push [OF Cons.prems(2)] by blast
  from Cons.IH [OF _ b(2)] Cons.prems(1) b(1) show ?case by auto
qed auto

lemma match_eol_ok:
  assumes "holds_prefix buf i (pre @ eol)" "j < length eol"
  shows "match_eol eol buf i j = Inr True"
  using assms(2)
proof (induction j)
  case (Suc j)
  have i: "i = length pre + length eol" "i \<le> length buf" "take i buf = map Some (pre @ eol)"
    using assms(1) by (auto simp: holds_prefix_def)
  let ?k = "length pre + (length eol - 1 - Suc j)"
  have k: "i - 1 - Suc j = ?k" "?k < i" using i(1) Suc.prems by auto
  have "buf ! ?k = take i buf ! ?k" using k(2) by simp
  also have "\<dots> = Some (eol ! (length eol - 1 - Suc j))"
    unfolding i(3) using Suc.prems by (simp only: nth_map length_append nth_append_length_plus)
  finally have "get_init buf ?k = Inr (eol ! (length eol - 1 - Suc j))"
    using k(2) i(2) by (simp add: get_init_def get_cell_def)
  then show ?case using Suc i(1) by (simp add: k(1) del: diff_Suc_1 diff_Suc_eq_diff_pred)
qed simp

lemma getline_ok:
  assumes eol: "good_eol eol" and line: "plain_line eol line"
  shows "RS_sqlite_getline eol (line @ eol @ rest) = Inr (if line = [] then None else Some line, rest)"
proof -
  define e c where "e = butlast eol" and "c = last eol"
  have ec: "eol = e @ [c]" "c \<notin> set e" "of_char c < (128 :: nat)" "c \<notin> set line"
    using eol line by (simp_all add: e_def c_def good_eol_def plain_line_def)
  have init: "holds_prefix (malloc 1024) 0 []" by (simp add: holds_prefix_def malloc_def)
  have e_line: "last eol \<notin> set (line @ e)" using ec by simp
  obtain buf where buf: "getline_loop eol ((line @ e) @ c # rest) (malloc 1024) 0
      = getline_loop eol (c # rest) buf (length (line @ e))" "holds_prefix buf (length (line @ e)) (line @ e)"
    using getline_loop_push [OF e_line init, of "c # rest"] unfolding append_Nil add_0 by blast
  let ?i = "length (line @ e)"
  obtain buf1 where b1: "set_cell (grow buf ?i) ?i (Some c) = Inr buf1" "holds_prefix buf1 (Suc ?i) (line @ eol)"
    using holds_prefix_push [OF buf(2), of c] ec(1) by auto
  have "match_eol eol buf1 (Suc ?i) (length eol - 1) = Inr True"
    using match_eol_ok [OF b1(2), of "length eol - 1"] ec(1) by simp
  moreover have len: "length line < length buf1" "Suc ?i - length eol = length line"
    using b1(2) ec(1) by (auto simp: holds_prefix_def)
  ultimately have loop: "getline_loop eol (line @ eol @ rest) (malloc 1024) 0
      = Inr (buf1[length line := Some (CHR 0x00)], Suc ?i, rest)"
    using buf(1) b1(1) ec(1,3) by (simp add: set_cell_def)
  have "take (Suc ?i) buf1 = map Some (line @ eol)" "Suc ?i = length line + length eol"
    using b1(2) ec(1) by (auto simp: holds_prefix_def)
  then have "take (length line) (take (Suc ?i) buf1) = map Some line" by simp
  then have "take (length line) buf1 = map Some line"
    using \<open>Suc ?i = _\<close> by (simp add: min_def)
  then have "buf1[length line := Some (CHR 0x00)] = map Some line @ Some (CHR 0x00) # drop (Suc (length line)) buf1"
    using len(1) by (simp add: upd_conv_take_nth_drop)
  then show ?thesis
    using loop line ec(1) by (auto simp: RS_sqlite_getline_def plain_line_def c_strlen_prefix)
qed

subsection \<open>Splitting a line\<close>

text \<open>The fields of a line, without any buffer: the separator is cut out wherever it occurs.\<close>

function fields :: "string \<Rightarrow> string \<Rightarrow> string list" where
  "fields sep [] = [[]]"
| "fields sep (c # s) =
     (if sep \<noteq> [] \<and> prefix sep (c # s) then [] # fields sep (drop (length sep) (c # s))
      else (c # hd (fields sep s)) # tl (fields sep s))"
  by pat_completeness auto
termination
  by (relation "measure (\<lambda>(sep, s). length s)") auto

lemma fields_nonempty [simp]: "fields sep s \<noteq> []"
  by (cases s) simp_all

text \<open>The last field also holds what follows the first CR or LF of the line.\<close>

definition extend_last :: "string list \<Rightarrow> string \<Rightarrow> string list" where
  "extend_last fs x = butlast fs @ [last fs @ x]"

lemma extend_last_push:
  "fs \<noteq> [] \<Longrightarrow> extend_last ((c # hd fs) # tl fs) x = (c # hd (extend_last fs x)) # tl (extend_last fs x)"
  by (cases fs; cases "tl fs") (auto simp: extend_last_def)

lemma extend_last_Cons: "fs \<noteq> [] \<Longrightarrow> extend_last (f # fs) x = f # extend_last fs x"
  by (simp add: extend_last_def)

definition stops :: "char set" where
  "stops = {CHR 0x00, CHR 0x0A, CHR 0x0D}"

definition good_sep :: "string \<Rightarrow> bool" where
  "good_sep sep \<longleftrightarrow> sep \<noteq> [] \<and> set sep \<inter> stops = {}"

lemma prefix_before_stop:
  assumes "good_sep sep" "t \<in> stops"
  shows "prefix sep (s @ t # u) \<longleftrightarrow> prefix sep s"
proof
  assume "prefix sep (s @ t # u)"
  then show "prefix sep s"
    using assms by (auto simp: prefix_append good_sep_def prefix_Cons)
qed simp

lemma scan_stop:
  "drop z buf = t # u \<Longrightarrow> t \<in> stops \<Longrightarrow> scan nCol sep buf z i az = Inr (buf, i, az)"
proof -
  assume d: "drop z buf = t # u" "t \<in> stops"
  then have "z < length buf" by (metis drop_all list.simps(3) not_le)
  moreover have "buf ! z = t" using d(1) \<open>z < length buf\<close> by (metis hd_drop_conv_nth list.sel(1))
  ultimately show ?thesis using d(2) by (subst scan.simps) (auto simp: stops_def Let_def)
qed

lemma scan_step:
  assumes sep: "good_sep sep" and d: "drop z buf = (c # s) @ t # u" and c: "c \<notin> stops" and t: "t \<in> stops"
  shows "scan nCol sep buf z i az =
     (if prefix sep (c # s)
      then (if Suc i < nCol then scan nCol sep (buf[z := CHR 0x00]) (z + length sep) (Suc i) (az @ [z + length sep])
            else scan nCol sep (buf[z := CHR 0x00]) (Suc z) (Suc i) az)
      else scan nCol sep buf (Suc z) i az)"
    and "buf ! z = c" "z < length buf" "drop (Suc z) buf = s @ t # u"
proof -
  show z: "z < length buf" using d by (metis append_Cons drop_all list.simps(3) not_le)
  then show bz: "buf ! z = c" using d by (metis append_Cons hd_drop_conv_nth list.sel(1))
  show "drop (Suc z) buf = s @ t # u" using d by (metis append_Cons drop_Suc list.sel(3) tl_drop)
  have p: "prefix sep (drop z buf) \<longleftrightarrow> prefix sep (c # s)"
    unfolding d using prefix_before_stop [OF sep t, of "c # s" u] by simp
  moreover have "prefix sep (c # s) \<Longrightarrow> c = hd sep" using sep by (cases sep) (auto simp: good_sep_def)
  moreover have "1 \<le> length sep" using sep by (cases sep) (auto simp: good_sep_def)
  ultimately show "scan nCol sep buf z i az =
     (if prefix sep (c # s)
      then (if Suc i < nCol then scan nCol sep (buf[z := CHR 0x00]) (z + length sep) (Suc i) (az @ [z + length sep])
            else scan nCol sep (buf[z := CHR 0x00]) (Suc z) (Suc i) az)
      else scan nCol sep buf (Suc z) i az)"
    using z c by (subst scan.simps) (auto simp: bz stops_def Let_def max_def)
qed

text \<open>With too many columns the scan only counts.\<close>

lemma scan_counts:
  assumes "good_sep sep" "t \<in> stops"
  shows "nCol \<le> i \<Longrightarrow> drop z buf = s @ t # u \<Longrightarrow> set s \<inter> stops = {} \<Longrightarrow>
    \<exists>buf' i' az'. scan nCol sep buf z i az = Inr (buf', i', az') \<and> i \<le> i'"
proof (induction s arbitrary: z buf i)
  case Nil
  then show ?case using scan_stop assms(2) by fastforce
next
  case (Cons c s)
  note st = scan_step [OF assms(1) Cons.prems(2) _ assms(2)]
  have c: "c \<notin> stops" "set s \<inter> stops = {}" using Cons.prems(3) by auto
  have "drop (Suc z) (buf[z := CHR 0x00]) = s @ t # u" using st(4) [OF c(1)] by simp
  from Cons.IH [of "Suc i", OF _ this c(2)] Cons.IH [OF Cons.prems(1) st(4) [OF c(1)] c(2)] Cons.prems(1)
  show ?case
    unfolding st(1) [OF c(1)] by (auto dest: Suc_leD)
qed

text \<open>The columns the scan leaves are the fields.\<close>

lemma scan_fields:
  assumes t: "t \<in> stops"
  shows "drop z buf = s @ t # u \<Longrightarrow> set s \<inter> stops = {} \<Longrightarrow> good_sep sep \<Longrightarrow> i < nCol \<Longrightarrow>
    i + length (fields sep s) \<le> nCol \<Longrightarrow>
    \<exists>buf' az'. scan nCol sep buf z i az = Inr (buf', i + length (fields sep s) - 1, az @ az')
      \<and> take z buf' = take z buf \<and> length buf' = length buf
      \<and> c_str (drop z buf') # map (\<lambda>p. c_str (drop p buf')) az' = extend_last (fields sep s) (c_str (t # u))"
proof (induction sep s arbitrary: z buf i az rule: fields.induct)
  case (1 sep)
  then show ?case
    using scan_stop [of z buf t u nCol sep i az] t by (auto simp: extend_last_def)
next
  case (2 sep c s)
  have sep: "good_sep sep" using "2.prems"(3) .
  have c: "c \<notin> stops" "set s \<inter> stops = {}" using "2.prems"(2) by auto
  note st = scan_step [OF sep "2.prems"(1) c(1) t]
  show ?case
  proof (cases "prefix sep (c # s)")
    case True
    let ?n = "length sep" and ?buf = "buf[z := CHR 0x00]"
    have p: "sep \<noteq> [] \<and> prefix sep (c # s)" using True sep by (simp add: good_sep_def)
    have n: "0 < ?n" "?n \<le> length (c # s)" using p prefix_length_le [of sep "c # s"] by simp_all
    let ?fs = "fields sep (drop ?n (c # s))"
    have fs: "fields sep (c # s) = [] # ?fs" using p by simp
    have "drop (z + ?n) ?buf = drop ?n (drop z buf)" using n(1) by (simp add: add.commute)
    also have "\<dots> = drop ?n (c # s) @ t # u" unfolding "2.prems"(1) drop_append using n(2) by simp
    finally have d: "drop (z + ?n) ?buf = drop ?n (c # s) @ t # u" .
    have disj: "set (drop ?n (c # s)) \<inter> stops = {}" using "2.prems"(2) set_drop_subset by fastforce
    have pos: "0 < length ?fs" by (simp del: fields.simps)
    have le: "i + Suc (length ?fs) \<le> nCol" using "2.prems"(5) unfolding fs by simp
    have i: "Suc i < nCol" "Suc i + length ?fs \<le> nCol"
      using le pos by linarith+
    obtain buf' az' where b: "scan nCol sep ?buf (z + ?n) (Suc i) (az @ [z + ?n])
        = Inr (buf', Suc i + length ?fs - 1, (az @ [z + ?n]) @ az')"
      "take (z + ?n) buf' = take (z + ?n) ?buf" "length buf' = length ?buf"
      "c_str (drop (z + ?n) buf') # map (\<lambda>p. c_str (drop p buf')) az' = extend_last ?fs (c_str (t # u))"
      using "2.IH"(1) [OF p d disj sep i] by blast
    have "take z buf' = take z (take (z + ?n) buf')" by simp
    also have "\<dots> = take z buf" unfolding b(2) by simp
    finally have tz: "take z buf' = take z buf" .
    have "buf' ! z = take (z + ?n) buf' ! z" using n(1) by simp
    also have "\<dots> = CHR 0x00" unfolding b(2) using n(1) st(3) by simp
    finally have "buf' ! z = CHR 0x00" .
    then have "c_str (drop z buf') = []" using st(3) b(3) by (simp add: Cons_nth_drop_Suc [symmetric])
    then show ?thesis
      using st(1) True i(1) b tz fs
      by (intro exI [of _ buf'] exI [of _ "(z + ?n) # az'"]) (simp add: extend_last_Cons)
  next
    case False
    have fs: "fields sep (c # s) = (c # hd (fields sep s)) # tl (fields sep s)" using False by simp
    then have len: "i + length (fields sep s) \<le> nCol" using "2.prems"(5) by simp
    obtain buf' az' where b: "scan nCol sep buf (Suc z) i az = Inr (buf', i + length (fields sep s) - 1, az @ az')"
      "take (Suc z) buf' = take (Suc z) buf" "length buf' = length buf"
      "c_str (drop (Suc z) buf') # map (\<lambda>p. c_str (drop p buf')) az' = extend_last (fields sep s) (c_str (t # u))"
      using "2.IH"(2) [OF _ st(4) c(2) sep "2.prems"(4) len] False by blast
    have "take z buf' = take z (take (Suc z) buf')" by simp
    also have "\<dots> = take z buf" unfolding b(2) by simp
    finally have tz: "take z buf' = take z buf" .
    have "buf' ! z = take (Suc z) buf' ! z" by simp
    also have "\<dots> = c" unfolding b(2) using st(2) by simp
    finally have "buf' ! z = c" .
    then have "c_str (drop z buf') = c # c_str (drop (Suc z) buf')"
      using st(3) b(3) c(1) by (simp add: Cons_nth_drop_Suc [symmetric] stops_def)
    then have "c_str (drop z buf') # map (\<lambda>p. c_str (drop p buf')) az' = extend_last (fields sep (c # s)) (c_str (t # u))"
      unfolding fs extend_last_push [OF fields_nonempty] b(4) [symmetric] by simp
    then show ?thesis using st(1) False b tz fs by auto
  qed
qed

lemma scan_too_many:
  assumes t: "t \<in> stops"
  shows "drop z buf = s @ t # u \<Longrightarrow> set s \<inter> stops = {} \<Longrightarrow> good_sep sep \<Longrightarrow> i < nCol \<Longrightarrow>
    \<not> i + length (fields sep s) \<le> nCol \<Longrightarrow>
    \<exists>buf' i' az'. scan nCol sep buf z i az = Inr (buf', i', az') \<and> nCol \<le> i'"
proof (induction sep s arbitrary: z buf i az rule: fields.induct)
  case (2 sep c s)
  have sep: "good_sep sep" using "2.prems"(3) .
  have c: "c \<notin> stops" "set s \<inter> stops = {}" using "2.prems"(2) by auto
  note st = scan_step [OF sep "2.prems"(1) c(1) t]
  show ?case
  proof (cases "prefix sep (c # s)")
    case True
    let ?n = "length sep" and ?buf = "buf[z := CHR 0x00]"
    have p: "sep \<noteq> [] \<and> prefix sep (c # s)" using True sep by (simp add: good_sep_def)
    have n: "0 < ?n" "?n \<le> length (c # s)" using p prefix_length_le [of sep "c # s"] by simp_all
    show ?thesis
    proof (cases "Suc i < nCol")
      case i: True
      have "drop (z + ?n) ?buf = drop ?n (drop z buf)" using n(1) by (simp add: add.commute)
      also have "\<dots> = drop ?n (c # s) @ t # u" unfolding "2.prems"(1) drop_append using n(2) by simp
      finally have d: "drop (z + ?n) ?buf = drop ?n (c # s) @ t # u" .
      have disj: "set (drop ?n (c # s)) \<inter> stops = {}" using "2.prems"(2) set_drop_subset by fastforce
      have "\<not> Suc i + length (fields sep (drop ?n (c # s))) \<le> nCol"
        using "2.prems"(5) p by simp
      from "2.IH"(1) [OF p d disj sep i this, of "az @ [z + ?n]"] show ?thesis
        using st(1) True i by simp
    next
      case False
      have "drop (Suc z) ?buf = s @ t # u" using st(4) by simp
      from scan_counts [OF sep t, of nCol "Suc i" "Suc z" ?buf s u az, OF _ this c(2)] False show ?thesis
        using st(1) True by fastforce
    qed
  next
    case False
    then have "\<not> i + length (fields sep s) \<le> nCol" using "2.prems"(5) by simp
    from "2.IH"(2) [OF _ st(4) c(2) sep "2.prems"(4) this] False show ?thesis
      using st(1) by simp
  qed
qed simp

text \<open>The body of a line, and what follows its first CR or LF.\<close>

definition body :: "string \<Rightarrow> string" where
  "body line = takeWhile (\<lambda>c. c \<notin> stops) line"

definition rest_of :: "string \<Rightarrow> string" where
  "rest_of line = dropWhile (\<lambda>c. c \<notin> stops) line"

lemma split_line_ok:
  assumes sep: "good_sep sep" and nul: "CHR 0x00 \<notin> set line" and n: "0 < nCol"
  shows "if length (fields sep (body line)) = nCol
    then split_line f lineno nCol sep line = Inr (map column_value (extend_last (fields sep (body line)) (rest_of line)))
    else \<exists>m. split_line f lineno nCol sep line = Inl (RError m)"
proof -
  have "rest_of line = x # xs \<Longrightarrow> x \<in> stops" for x xs
    unfolding rest_of_def by (drule dropWhile_eq_Cons_conv [THEN iffD1]) simp
  then obtain t u where tu: "rest_of line @ [CHR 0x00] = t # u" "t \<in> stops"
    by (cases "rest_of line") (simp_all add: stops_def)
  have buf: "drop 0 (line @ [CHR 0x00]) = body line @ t # u"
    unfolding tu(1) [symmetric] by (simp add: body_def rest_of_def)
  have s: "set (body line) \<inter> stops = {}" by (auto simp: body_def dest: set_takeWhileD)
  have "CHR 0x00 \<notin> set (rest_of line)" using nul by (auto simp: rest_of_def dest: set_dropWhileD)
  then have rest: "c_str (t # u) = rest_of line"
    unfolding tu(1) [symmetric] by (simp add: c_str_def takeWhile_append)
  show ?thesis
  proof (cases "length (fields sep (body line)) \<le> nCol")
    case True
    from scan_fields [OF tu(2) buf s sep n, of "[0]", unfolded rest] True obtain buf' az' where b:
      "scan nCol sep (line @ [CHR 0x00]) 0 0 [0] = Inr (buf', length (fields sep (body line)) - 1, 0 # az')"
      "c_str buf' # map (\<lambda>p. c_str (drop p buf')) az' = extend_last (fields sep (body line)) (rest_of line)"
      by auto
    have "length (fields sep (body line)) - 1 + 1 = nCol \<longleftrightarrow> length (fields sep (body line)) = nCol"
      by (cases "fields sep (body line)") simp_all
    then show ?thesis
      using n by (simp add: split_line_def b(1) b(2) [symmetric])
  next
    case False
    then show ?thesis
      using scan_too_many [OF tu(2) buf s sep n, of "[0]"] by (auto simp: split_line_def)
  qed
qed

subsection \<open>A whole file\<close>

definition line_row :: "string \<Rightarrow> string \<Rightarrow> sqlite_value list" where
  "line_row sep line = map column_value (extend_last (fields sep (body line)) (rest_of line))"

text \<open>Inserting the rows one after the other succeeds and leads from \<open>db\<close> to \<open>db'\<close>.\<close>

fun inserts :: "'db import_db \<Rightarrow> sqlite_value list list \<Rightarrow> 'db \<Rightarrow> 'db \<Rightarrow> bool" where
  "inserts D [] db db' \<longleftrightarrow> db' = db"
| "inserts D (row # rows) db db' \<longleftrightarrow>
     (case insert_step D row db of (rc, db1) \<Rightarrow> rc \<noteq> InsertError \<and>
       (case insert_reset D db1 of (ok, db2) \<Rightarrow> ok \<and> inserts D rows db2 db'))"

definition file_of :: "string \<Rightarrow> string list \<Rightarrow> string" where
  "file_of eol lines = concat (map (\<lambda>l. l @ eol) lines)"

lemma getline_end:
  assumes "good_eol eol" "plain_line eol []" "tail = [] \<or> tail = eol @ extra"
  shows "\<exists>rest. RS_sqlite_getline eol tail = Inr (None, rest)"
  using assms(3)
proof
  assume "tail = []"
  then show ?thesis using assms(1) by (simp add: RS_sqlite_getline_def good_eol_def)
next
  assume "tail = eol @ extra"
  then show ?thesis using getline_ok [OF assms(1,2), of extra] by simp
qed

lemma import_lines_ok:
  assumes eol: "good_eol eol" and sep: "good_sep sep" and n: "0 < nCol"
    and tail: "tail = [] \<or> tail = eol @ extra"
  shows "\<forall>l \<in> set lines. plain_line eol l \<and> l \<noteq> [] \<Longrightarrow>
    \<forall>l \<in> set (drop (skip - lineno) lines). length (fields sep (body l)) = nCol \<Longrightarrow>
    inserts D (map (line_row sep) (drop (skip - lineno) lines)) db db' \<Longrightarrow>
    import_lines D f sep eol nCol skip (file_of eol lines @ tail) lineno (db, k) = (Inr (), (db', k), [])"
proof (induction lines arbitrary: lineno db)
  case Nil
  have "plain_line eol []" by (simp add: plain_line_def)
  with getline_end [OF eol this tail] Nil show ?case
    by (subst import_lines.simps) (auto simp: file_of_def areturn_def)
next
  case (Cons l lines)
  have "RS_sqlite_getline eol (file_of eol (l # lines) @ tail) = Inr (Some l, file_of eol lines @ tail)"
    using getline_ok [OF eol, of l "file_of eol lines @ tail"] Cons.prems(1) by (simp add: file_of_def)
  note unfold = import_lines.simps [of D f sep eol nCol skip "file_of eol (l # lines) @ tail", unfolded this]
  show ?case
  proof (cases "Suc lineno \<le> skip")
    case True
    then have "skip - lineno = Suc (skip - Suc lineno)" by simp
    then show ?thesis
      using Cons.IH [of "Suc lineno" db] Cons.prems True by (simp add: unfold)
  next
    case False
    then have d: "skip - lineno = 0" "skip - Suc lineno = 0" by simp_all
    have nul: "CHR 0x00 \<notin> set l" using Cons.prems(1) by (simp add: plain_line_def)
    have row: "split_line f (Suc lineno) nCol sep l = Inr (line_row sep l)"
      using split_line_ok [OF sep nul n, of f "Suc lineno"] Cons.prems(2) d(1) by (simp add: line_row_def)
    obtain rc db1 db2 where ins: "insert_step D (line_row sep l) db = (rc, db1)" "rc \<noteq> InsertError"
      "insert_reset D db1 = (True, db2)" "inserts D (map (line_row sep) lines) db2 db'"
      using Cons.prems(3) d(1) by (auto split: prod.splits)
    then have "import_row D (line_row sep l) (db, k) = (Inr (), (db2, k), [])"
      by (simp add: import_row_def areturn_def)
    then show ?thesis
      using Cons.IH [of "Suc lineno" db2] Cons.prems(1,2) d False row ins(4) by (simp add: unfold)
  qed
qed

subsection \<open>When reading a line goes wrong\<close>

text \<open>
  Where the reader leaves its buffer: without an end of line there is no last byte of it; that
  byte near the beginning makes it compare before the buffer; and a rest of the file
  with neither an end of line nor a NUL is measured past what was written.
\<close>

definition bad_line :: "string \<Rightarrow> string \<Rightarrow> bool" where
  "bad_line eol file \<longleftrightarrow> eol = [] \<or>
     of_char (last eol) < (128 :: nat) \<and> last eol \<in> set (take (length eol - 1) file) \<or>
     file \<noteq> [] \<and> CHR 0x00 \<notin> set file \<and> \<not> (of_char (last eol) < (128 :: nat) \<and> sublist eol file)"

lemma match_eol_cases:
  assumes "holds_prefix buf i pre" "0 < i" "j < length eol"
  shows "if i \<le> j then undefined_behaviour (match_eol eol buf i j)
    else match_eol eol buf i j = Inr (\<forall>k \<in> {1..j}. pre ! (i - 1 - k) = eol ! (length eol - 1 - k))"
  using assms(3)
proof (induction j)
  case 0
  then show ?case using assms(2) by simp
next
  case (Suc j)
  show ?case
  proof (cases "i \<le> Suc j")
    case False
    have i: "i = length pre" "i \<le> length buf" "take i buf = map Some pre"
      using assms(1) by (auto simp: holds_prefix_def)
    let ?k = "i - 1 - Suc j"
    have "buf ! ?k = take i buf ! ?k" using False by simp
    also have "\<dots> = Some (pre ! ?k)" unfolding i(3) using False i(1) by simp
    finally have "get_init buf ?k = Inr (pre ! ?k)"
      using False i(2) by (simp add: get_init_def get_cell_def)
    moreover have "{1..Suc j} = insert (Suc j) {1..j}" by auto
    ultimately show ?thesis using Suc False by auto
  qed auto
qed

lemma suffix_by_index:
  assumes "eol \<noteq> []" "length eol \<le> length pre" "last pre = last eol"
  shows "suffix eol pre \<longleftrightarrow>
    (\<forall>k \<in> {1..length eol - 1}. pre ! (length pre - 1 - k) = eol ! (length eol - 1 - k))"
proof
  assume "suffix eol pre"
  then obtain zs where "pre = zs @ eol" by (auto simp: suffix_def)
  then show "\<forall>k \<in> {1..length eol - 1}. pre ! (length pre - 1 - k) = eol ! (length eol - 1 - k)"
    using assms(1) nth_append_length_plus [of zs eol] by (auto simp: nth_append intro!: arg_cong [where f = "nth eol"])
next
  assume eq: "\<forall>k \<in> {1..length eol - 1}. pre ! (length pre - 1 - k) = eol ! (length eol - 1 - k)"
  have "drop (length pre - length eol) pre = eol"
  proof (rule nth_equalityI)
    fix m
    assume "m < length (drop (length pre - length eol) pre)"
    then have m: "m < length eol" using assms(2) by simp
    have last: "last pre = pre ! (length pre - 1)" "last eol = eol ! (length eol - 1)"
      using assms(1,2) last_conv_nth [of pre] last_conv_nth [of eol] by (cases pre; simp)+
    show "drop (length pre - length eol) pre ! m = eol ! m"
    proof (cases "m = length eol - 1")
      case True
      then have "length pre - length eol + m = length pre - 1" using assms(1,2) by (cases eol) auto
      then show ?thesis using assms last True by simp
    next
      case False
      then have "length eol - 1 - m \<in> {1..length eol - 1}" using m by auto
      with eq have "pre ! (length pre - 1 - (length eol - 1 - m)) = eol ! (length eol - 1 - (length eol - 1 - m))" by blast
      moreover have "length pre - 1 - (length eol - 1 - m) = length pre - length eol + m" "length eol - 1 - (length eol - 1 - m) = m"
        using m assms(2) by auto
      ultimately show ?thesis by simp
    qed
  qed (use assms(2) in simp)
  then show "suffix eol pre" by (metis suffix_drop)
qed

lemma sublist_snoc: "sublist eol (pre @ [c]) \<longleftrightarrow> sublist eol pre \<or> suffix eol (pre @ [c])"
  using sublist_rev [of eol "pre @ [c]"] sublist_rev [of eol pre]
  by (auto simp: sublist_Cons_right suffix_to_prefix simp del: sublist_rev suffix_snoc)

text \<open>The loop, when \<open>pre\<close> has been read and held no end of line.\<close>

definition unended :: "string \<Rightarrow> string \<Rightarrow> bool" where
  "unended eol pre \<longleftrightarrow>
     (of_char (last eol) < (128 :: nat) \<longrightarrow> last eol \<notin> set (take (length eol - 1) pre) \<and> \<not> sublist eol pre)"

lemma unended_snoc:
  assumes "unended eol pre" "of_char (last eol) < (128 :: nat) \<Longrightarrow> c = last eol \<Longrightarrow>
      length eol \<le> Suc (length pre) \<and> \<not> suffix eol (pre @ [c])" "eol \<noteq> []"
  shows "unended eol (pre @ [c])"
proof -
  have c: "suffix eol (pre @ [c]) \<Longrightarrow> c = last eol"
    using assms(3) by auto
  show ?thesis
  proof (cases "of_char (last eol) < (128 :: nat) \<and> c = last eol")
    case True
    with assms(1,2) show ?thesis by (auto simp: unended_def sublist_snoc simp del: suffix_snoc)
  next
    case False
    with assms(1) c show ?thesis
      by (auto simp: unended_def sublist_snoc take_append take_Cons' simp del: suffix_snoc split: if_splits)
  qed
qed

lemma getline_loop_cases:
  assumes "eol \<noteq> []"
  shows "holds_prefix buf i pre \<Longrightarrow> unended eol pre \<Longrightarrow>
    (if of_char (last eol) < (128 :: nat) \<and> last eol \<in> set (take (length eol - 1) (pre @ inp))
     then undefined_behaviour (getline_loop eol inp buf i)
     else \<exists>buf' n rest. getline_loop eol inp buf i = Inr (buf', n, rest) \<and>
       (if of_char (last eol) < (128 :: nat) \<and> sublist eol (pre @ inp)
        then \<exists>l xs. buf' = map Some l @ Some (CHR 0x00) # xs
        else n = length (pre @ inp) \<and> (\<exists>k. buf' = map Some (pre @ inp) @ replicate (Suc k) None)))"
proof (induction inp arbitrary: buf i pre)
  case Nil
  note g = holds_prefix_grow [OF Nil(1)]
  have "grow buf i = map Some pre @ replicate (length (grow buf i) - i) None"
    using append_take_drop_id [of i "grow buf i"] unfolding g(2,3) by simp
  moreover obtain k where "length (grow buf i) - i = Suc k" using g(1) by (cases "length (grow buf i) - i") auto
  ultimately have "\<exists>k. grow buf i = map Some pre @ replicate (Suc k) None" by metis
  with Nil show ?case by (auto simp: unended_def holds_prefix_def)
next
  case (Cons c inp)
  let ?ascii = "of_char (last eol) < (128 :: nat)"
  have i: "i = length pre" using Cons.prems(1) by (simp add: holds_prefix_def)
  obtain buf1 where b: "set_cell (grow buf i) i (Some c) = Inr buf1" "holds_prefix buf1 (Suc i) (pre @ [c])"
    using holds_prefix_push [OF Cons.prems(1)] by blast
  note IH = Cons.IH [OF b(2), unfolded append_assoc append_Cons append_Nil]
  show ?case
  proof (cases "?ascii \<and> c = last eol")
    case False
    then have "unended eol (pre @ [c])" using unended_snoc [OF Cons.prems(2) _ assms] by blast
    moreover have "getline_loop eol (c # inp) buf i = getline_loop eol inp buf1 (Suc i)" using False b(1) by auto
    ultimately show ?thesis using IH by metis
  next
    case True
    have "length eol - 1 < length eol" using assms by simp
    note m = match_eol_cases [OF b(2) zero_less_Suc this]
    show ?thesis
    proof (cases "Suc i \<le> length eol - 1")
      case early: True
      then have "last eol \<in> set (take (length eol - 1) (pre @ c # inp))"
        using True i by (auto simp: take_Cons')
      moreover from early m have "undefined_behaviour (match_eol eol buf1 (Suc i) (length eol - 1))" by simp
      then obtain e where "match_eol eol buf1 (Suc i) (length eol - 1) = Inl e" "is_UB e"
        by (cases "match_eol eol buf1 (Suc i) (length eol - 1)") auto
      ultimately show ?thesis using True b(1) by simp
    next
      case late: False
      have len: "length eol \<le> length (pre @ [c])" using late i by simp
      have mf: "match_eol eol buf1 (Suc i) (length eol - 1) = Inr (suffix eol (pre @ [c]))"
        using m late suffix_by_index [OF assms len] True i by simp
      have tk: "take (length eol - 1) (pre @ c # inp) = take (length eol - 1) pre" using late i by simp
      show ?thesis
      proof (cases "suffix eol (pre @ [c])")
        case found: True
        let ?m = "Suc i - length eol"
        have m: "?m < length buf1" "?m \<le> Suc i" "take (Suc i) buf1 = map Some (pre @ [c])"
          using b(2) assms by (cases eol; auto simp: holds_prefix_def)+
        have "take ?m buf1 = take ?m (take (Suc i) buf1)" using m(2) by (simp add: min_def)
        then have "take ?m buf1 = map Some (take ?m (pre @ [c]))" unfolding m(3) take_map .
        then have "buf1[?m := Some (CHR 0x00)] = map Some (take ?m (pre @ [c])) @ Some (CHR 0x00) # drop (Suc ?m) buf1"
          using m(1) by (simp add: upd_conv_take_nth_drop)
        then have "\<exists>l xs. buf1[?m := Some (CHR 0x00)] = map Some l @ Some (CHR 0x00) # xs" by blast
        moreover have "getline_loop eol (c # inp) buf i = Inr (buf1[?m := Some (CHR 0x00)], Suc i, inp)"
          using True b(1) found mf m(1) by (simp add: set_cell_def del: suffix_snoc)
        moreover have "sublist eol (pre @ c # inp)"
          using found by (auto simp: suffix_def sublist_def simp del: suffix_snoc) (metis append.assoc append_Cons append_Nil)
        moreover have "last eol \<notin> set (take (length eol - 1) (pre @ c # inp))"
          using Cons.prems(2) True unfolding tk by (simp add: unended_def)
        ultimately show ?thesis using True by (simp only: simp_thms if_True if_False) blast
      next
        case no: False
        then have "unended eol (pre @ [c])" using unended_snoc [OF Cons.prems(2) _ assms] len by simp
        moreover have "getline_loop eol (c # inp) buf i = getline_loop eol inp buf1 (Suc i)"
          using True b(1) mf no by (simp del: suffix_snoc)
        ultimately show ?thesis using IH by metis
      qed
    qed
  qed
qed

lemma getline_UB: "undefined_behaviour (RS_sqlite_getline eol file) \<longleftrightarrow> bad_line eol file"
proof (cases "eol = []")
  case False
  have init: "holds_prefix (malloc 1024) 0 []" by (simp add: holds_prefix_def malloc_def)
  have "unended eol []" using False by (simp add: unended_def)
  note loop = getline_loop_cases [OF False init this, where inp = "file", unfolded append_Nil]
  have nul: "\<exists>n. c_strlen (map Some l @ Some (CHR 0x00) # xs) = Inr n" for l xs
    by (induction l) auto
  have suc: "undefined_behaviour (rbind x (\<lambda>n. Inr (Suc n))) = undefined_behaviour x" for x :: "nat res"
    by (cases x) simp_all
  have ends: "undefined_behaviour (c_strlen (map Some l @ replicate (Suc k) None)) = (CHR 0x00 \<notin> set l)" for l k
    by (induction l) (auto simp: suc)
  show ?thesis
  proof (cases "of_char (last eol) < (128 :: nat) \<and> last eol \<in> set (take (length eol - 1) file)")
    case True
    with loop have "undefined_behaviour (getline_loop eol file (malloc 1024) 0)" by simp
    then show ?thesis using True False
      by (cases "getline_loop eol file (malloc 1024) 0") (auto simp: RS_sqlite_getline_def bad_line_def)
  next
    case ok: False
    with loop obtain buf n rest where b: "getline_loop eol file (malloc 1024) 0 = Inr (buf, n, rest)"
      "if of_char (last eol) < (128 :: nat) \<and> sublist eol file then \<exists>l xs. buf = map Some l @ Some (CHR 0x00) # xs
       else n = length file \<and> (\<exists>k. buf = map Some file @ replicate (Suc k) None)"
      by auto
    show ?thesis
    proof (cases "of_char (last eol) < (128 :: nat) \<and> sublist eol file")
      case True
      with b(2) nul obtain m where "c_strlen buf = Inr m" by auto
      then show ?thesis using True ok b(1) False by (auto simp: RS_sqlite_getline_def bad_line_def)
    next
      case no: False
      with b(2) obtain k where k: "n = length file" "buf = map Some file @ replicate (Suc k) None" by auto
      have "undefined_behaviour (c_strlen buf) = (CHR 0x00 \<notin> set file)" unfolding k(2) by (rule ends)
      then show ?thesis using no ok b(1) False k(1)
        by (cases "c_strlen buf") (auto simp: RS_sqlite_getline_def bad_line_def)
    qed
  qed
qed (simp add: RS_sqlite_getline_def bad_line_def)

subsection \<open>When an import goes wrong\<close>

text \<open>Splitting stays in the line, whatever it holds: its NUL stops the scan.\<close>

lemma prefix_before_nul:
  assumes "prefix sep (drop z buf)" "CHR 0x00 \<notin> set sep" "z < length buf" "last buf = CHR 0x00"
  shows "z + length sep < length buf"
proof (rule ccontr)
  obtain rest where rest: "drop z buf = sep @ rest" using assms(1) by (auto simp: prefix_def)
  assume "\<not> z + length sep < length buf"
  moreover have "length buf - z = length sep + length rest" using rest by (metis length_append length_drop)
  ultimately have "rest = []" using assms(3) by (cases rest) auto
  then have "drop z buf = sep" "sep \<noteq> []" using rest assms(3) by auto
  then have "last sep = CHR 0x00" using assms(3,4) by (metis last_drop)
  then show False using assms(2) \<open>sep \<noteq> []\<close> by (metis last_in_set)
qed

lemma scan_defined:
  "sep \<noteq> [] \<Longrightarrow> CHR 0x00 \<notin> set sep \<Longrightarrow> z < length buf \<Longrightarrow> last buf = CHR 0x00 \<Longrightarrow>
     \<exists>y. scan nCol sep buf z i az = Inr y"
proof (induction nCol sep buf z i az rule: scan.induct)
  case (1 nCol sep buf z i az)
  let ?c = "buf ! z"
  show ?case
  proof (cases "?c \<in> stops")
    case True
    then show ?thesis using "1.prems" by (subst scan.simps) (auto simp: stops_def Let_def)
  next
    case go: False
    have nonlast: "Suc z < length buf"
    proof (rule ccontr)
      assume "\<not> Suc z < length buf"
      then have "z = length buf - 1" using "1.prems"(3) by simp
      then have "?c = CHR 0x00" using "1.prems"(3,4) last_conv_nth [of buf] by (cases buf) auto
      then show False using go by (simp add: stops_def)
    qed
    then have last: "last (buf[z := CHR 0x00]) = CHR 0x00" using "1.prems"(3,4) using last_list_update [of buf z "CHR 0x00"] by (cases "buf = []") simp_all
    have go': "\<not> (?c = CHR 0x00 \<or> ?c = CHR 0x0A \<or> ?c = CHR 0x0D)" "\<not> length buf \<le> z"
      using go "1.prems"(3) by (auto simp: stops_def)
    note IH = "1.IH" [OF go'(2) refl go'(1)]
    show ?thesis
    proof (cases "?c = hd sep \<and> prefix sep (drop z buf)")
      case cut: True
      have jump: "z + max 1 (length sep) < length buf"
        using prefix_before_nul [OF conjunct2 [OF cut] "1.prems"(2-4)] "1.prems"(1) nonlast by (simp add: max_def)
      show ?thesis
      proof (cases "Suc i < nCol")
        case True
        from IH(1) [OF cut refl refl True "1.prems"(1,2) _ last] jump show ?thesis
          using go' cut True by (subst scan.simps) (simp add: Let_def)
      next
        case False
        from IH(2) [OF cut refl refl False "1.prems"(1,2) _ last] nonlast show ?thesis
          using go' cut False by (subst scan.simps) (simp add: Let_def)
      qed
    next
      case False
      from IH(3) [OF False "1.prems"(1,2) nonlast "1.prems"(4)] show ?thesis
        using go' False by (subst scan.simps) (auto simp: Let_def)
    qed
  qed
qed

lemma split_line_safe:
  assumes "sep \<noteq> []" "CHR 0x00 \<notin> set sep"
  shows "(\<exists>vals. split_line f n nCol sep line = Inr vals) \<or> (\<exists>m. split_line f n nCol sep line = Inl (RError m))"
proof -
  have "\<exists>y. scan nCol sep (line @ [CHR 0x00]) 0 0 [0] = Inr y" by (rule scan_defined [OF assms]) simp_all
  then show ?thesis by (auto simp: split_line_def)
qed

text \<open>
  The loop, turn by turn: from the rest of the file, the line number and the state it comes to
  others, over lines that are skipped or inserted.
\<close>

inductive import_reaches ::
  "'db import_db \<Rightarrow> string \<Rightarrow> string \<Rightarrow> string \<Rightarrow> nat \<Rightarrow> nat \<Rightarrow> string \<Rightarrow> nat \<Rightarrow> 'db import_state \<Rightarrow>
     string \<Rightarrow> nat \<Rightarrow> 'db import_state \<Rightarrow> bool"
  for D zFile sep eol nCol skip where
  here: "import_reaches D zFile sep eol nCol skip file n st file n st"
| skipped: "RS_sqlite_getline eol file = Inr (Some line, rest) \<Longrightarrow> Suc n \<le> skip \<Longrightarrow>
    import_reaches D zFile sep eol nCol skip rest (Suc n) st pos n' st' \<Longrightarrow>
    import_reaches D zFile sep eol nCol skip file n st pos n' st'"
| inserted: "RS_sqlite_getline eol file = Inr (Some line, rest) \<Longrightarrow> skip < Suc n \<Longrightarrow>
    split_line zFile (Suc n) nCol sep line = Inr vals \<Longrightarrow> import_row D vals st = (Inr (), st1, ws) \<Longrightarrow>
    import_reaches D zFile sep eol nCol skip rest (Suc n) st1 pos n' st' \<Longrightarrow>
    import_reaches D zFile sep eol nCol skip file n st pos n' st'"

lemma import_reaches_end:
  "\<nexists>line rest. RS_sqlite_getline eol bytes = Inr (Some line, rest) \<Longrightarrow>
     import_reaches D f sep eol nCol skip bytes n st pos n' st' \<longleftrightarrow> pos = bytes \<and> n' = n \<and> st' = st"
  by (subst import_reaches.simps) auto

lemma import_reaches_line:
  assumes "RS_sqlite_getline eol bytes = Inr (Some line, rest)"
  shows "import_reaches D f sep eol nCol skip bytes n st pos n' st' \<longleftrightarrow> pos = bytes \<and> n' = n \<and> st' = st \<or>
    (if Suc n \<le> skip then import_reaches D f sep eol nCol skip rest (Suc n) st pos n' st'
     else \<exists>vals st1 ws. split_line f (Suc n) nCol sep line = Inr vals \<and> import_row D vals st = (Inr (), st1, ws) \<and>
       import_reaches D f sep eol nCol skip rest (Suc n) st1 pos n' st')"
  using assms by (subst import_reaches.simps) auto

lemma import_row_outcome:
  "(\<exists>db. import_row D vals st = (Inr (), (db, snd st), []))
   \<or> (\<exists>m db. import_row D vals st = (Inl (RError m), (db, snd st - 1), []))"
  by (auto simp: import_row_def import_error_def import_finalize_def areturn_def athrow_def
      split: prod.split)

lemma import_lines_UB:
  assumes sep: "sep \<noteq> []" "CHR 0x00 \<notin> set sep"
  shows "undefined_behaviour (fst (import_lines D f sep eol nCol skip bytes n st)) \<longleftrightarrow>
    (\<exists>pos n' st'. import_reaches D f sep eol nCol skip bytes n st pos n' st' \<and> bad_line eol pos)"
    (is "_ \<longleftrightarrow> ?bad bytes n st")
proof (induction "length bytes" arbitrary: bytes n st rule: less_induct)
  case less
  let ?bad = "\<lambda>bytes n st. \<exists>pos n' st'. import_reaches D f sep eol nCol skip bytes n st pos n' st' \<and> bad_line eol pos"
  note unfold = import_lines.simps [of D f sep eol nCol skip bytes n st]
  consider (bad) e where "RS_sqlite_getline eol bytes = Inl e"
    | (stop) rest where "RS_sqlite_getline eol bytes = Inr (None, rest)"
    | (line) line rest where "RS_sqlite_getline eol bytes = Inr (Some line, rest)"
    by (metis old.sum.exhaust option.exhaust prod.exhaust)
  then show ?case
  proof cases
    case bad
    then show ?thesis using getline_UB [of eol bytes] by (simp add: unfold athrow_def import_reaches_end)
  next
    case stop
    then show ?thesis using getline_UB [of eol bytes] by (simp add: unfold areturn_def import_reaches_end)
  next
    case line
    have ok: "\<not> bad_line eol bytes" using line getline_UB [of eol bytes] by simp
    note IH = less.hyps [OF getline_shorter [OF line]] and reach = import_reaches_line [OF line]
    show ?thesis
    proof (cases "Suc n \<le> skip")
      case True
      then have "?bad bytes n st \<longleftrightarrow> ?bad rest (Suc n) st" using ok by (subst reach) auto
      with IH show ?thesis using line True by (simp add: unfold)
    next
      case False
      from split_line_safe [OF sep, of f "Suc n" nCol line] show ?thesis
      proof (elim disjE exE)
        fix m
        assume m: "split_line f (Suc n) nCol sep line = Inl (RError m)"
        have "\<not> ?bad bytes n st" using False ok m by (subst reach) auto
        then show ?thesis using line False m by (simp add: unfold athrow_def)
      next
        fix vals
        assume vals: "split_line f (Suc n) nCol sep line = Inr vals"
        from import_row_outcome [of D vals st] show ?thesis
        proof (elim disjE exE)
          fix db
          assume row: "import_row D vals st = (Inr (), (db, snd st), [])"
          have "?bad bytes n st \<longleftrightarrow> ?bad rest (Suc n) (db, snd st)"
            using False ok vals row by (subst reach) auto
          with IH show ?thesis using line False vals row by (simp add: unfold)
        next
          fix m db
          assume row: "import_row D vals st = (Inl (RError m), (db, snd st - 1), [])"
          have "\<not> ?bad bytes n st" using False ok vals row by (subst reach) auto
          then show ?thesis using line False vals row by (simp add: unfold)
        qed
      qed
    qed
  qed
qed

lemma getline_error: "RS_sqlite_getline eol bytes = Inl e \<Longrightarrow> is_UB e"
proof -
  have m: "match_eol eol buf i j = Inl e \<Longrightarrow> is_UB e" for buf i j e
    by (induction j) (auto simp: get_init_def get_cell_def split: if_splits option.splits)
  have l: "getline_loop eol inp buf i = Inl e \<Longrightarrow> is_UB e" for inp buf i e
  proof (induction inp arbitrary: buf i)
    case (Cons c inp)
    then show ?case using m by (auto simp: set_cell_def rbind_def split: if_splits sum.splits)
  qed simp
  have s: "c_strlen buf = Inl e \<Longrightarrow> is_UB e" for buf e
    by (induction buf rule: c_strlen.induct) (auto simp: rbind_def split: if_splits sum.splits)
  show "RS_sqlite_getline eol bytes = Inl e \<Longrightarrow> is_UB e"
    by (auto simp: RS_sqlite_getline_def rbind_def split: if_splits sum.splits dest: l s)
qed

text \<open>A line it comes to, not skipped, has another number of fields than the table has columns.\<close>

definition wrong_at :: "string \<Rightarrow> string \<Rightarrow> string \<Rightarrow> nat \<Rightarrow> nat \<Rightarrow> string \<Rightarrow> nat \<Rightarrow> bool" where
  "wrong_at zFile sep eol nCol skip pos n \<longleftrightarrow>
     (\<exists>line rest. RS_sqlite_getline eol pos = Inr (Some line, rest) \<and> skip < Suc n \<and>
        (\<nexists>vals. split_line zFile (Suc n) nCol sep line = Inr vals))"

definition wrong_line ::
  "'db import_db \<Rightarrow> string \<Rightarrow> string \<Rightarrow> string \<Rightarrow> nat \<Rightarrow> nat \<Rightarrow> string \<Rightarrow> nat \<Rightarrow> 'db import_state \<Rightarrow> bool" where
  "wrong_line D zFile sep eol nCol skip bytes n st \<longleftrightarrow>
     (\<exists>pos n' st'. import_reaches D zFile sep eol nCol skip bytes n st pos n' st' \<and> wrong_at zFile sep eol nCol skip pos n')"

lemma wrong_line_end:
  "\<nexists>line rest. RS_sqlite_getline eol bytes = Inr (Some line, rest) \<Longrightarrow> \<not> wrong_line D f sep eol nCol skip bytes n st"
  by (auto simp: wrong_line_def wrong_at_def import_reaches_end)

lemma import_reaches_some:
  assumes "RS_sqlite_getline eol bytes = Inr (Some line, rest)"
  shows "(\<exists>pos n' st'. import_reaches D f sep eol nCol skip bytes n st pos n' st' \<and> P pos n') \<longleftrightarrow> P bytes n \<or>
    (if Suc n \<le> skip then \<exists>pos n' st'. import_reaches D f sep eol nCol skip rest (Suc n) st pos n' st' \<and> P pos n'
     else \<exists>vals st1 ws. split_line f (Suc n) nCol sep line = Inr vals \<and> import_row D vals st = (Inr (), st1, ws) \<and>
       (\<exists>pos n' st'. import_reaches D f sep eol nCol skip rest (Suc n) st1 pos n' st' \<and> P pos n'))"
  unfolding import_reaches_line [OF assms] by (cases "Suc n \<le> skip") (simp_all only: if_True if_False simp_thms; blast)+

lemma wrong_line_line:
  assumes "RS_sqlite_getline eol bytes = Inr (Some line, rest)"
  shows "wrong_line D f sep eol nCol skip bytes n st \<longleftrightarrow>
    (if Suc n \<le> skip then wrong_line D f sep eol nCol skip rest (Suc n) st
     else \<forall>vals. split_line f (Suc n) nCol sep line = Inr vals \<longrightarrow>
       (\<exists>st1 ws. import_row D vals st = (Inr (), st1, ws) \<and> wrong_line D f sep eol nCol skip rest (Suc n) st1))"
proof -
  have "wrong_at f sep eol nCol skip bytes n \<longleftrightarrow> skip < Suc n \<and> (\<nexists>vals. split_line f (Suc n) nCol sep line = Inr vals)"
    using assms by (simp add: wrong_at_def)
  moreover have "wrong_line D f sep eol nCol skip bytes n st \<longleftrightarrow> wrong_at f sep eol nCol skip bytes n \<or>
    (if Suc n \<le> skip then wrong_line D f sep eol nCol skip rest (Suc n) st
     else \<exists>vals st1 ws. split_line f (Suc n) nCol sep line = Inr vals \<and> import_row D vals st = (Inr (), st1, ws) \<and>
       wrong_line D f sep eol nCol skip rest (Suc n) st1)"
    by (simp only: wrong_line_def import_reaches_some [OF assms])
  ultimately show ?thesis by (cases "\<exists>vals. split_line f (Suc n) nCol sep line = Inr vals") auto
qed

lemma import_lines_left:
  assumes sep: "sep \<noteq> []" "CHR 0x00 \<notin> set sep"
  shows "import_lines D f sep eol nCol skip bytes n (db, Suc 0) = (x, (db', k), ws) \<Longrightarrow> \<not> undefined_behaviour x \<Longrightarrow>
    (case x of Inr _ \<Rightarrow> k = Suc 0 \<and> \<not> wrong_line D f sep eol nCol skip bytes n (db, Suc 0)
     | Inl e \<Rightarrow> k = (if wrong_line D f sep eol nCol skip bytes n (db, Suc 0) then Suc 0 else 0))"
proof (induction "length bytes" arbitrary: bytes n db rule: less_induct)
  case less
  note unfold = import_lines.simps [of D f sep eol nCol skip bytes n "(db, Suc 0)"]
  consider (bad) e where "RS_sqlite_getline eol bytes = Inl e"
    | (stop) rest where "RS_sqlite_getline eol bytes = Inr (None, rest)"
    | (line) line rest where "RS_sqlite_getline eol bytes = Inr (Some line, rest)"
    by (metis old.sum.exhaust option.exhaust prod.exhaust)
  then show ?case
  proof cases
    case bad
    then show ?thesis using less.prems getline_error [OF bad] by (auto simp: unfold athrow_def)
  next
    case stop
    then show ?thesis using less.prems by (auto simp: unfold areturn_def wrong_line_end)
  next
    case line
    note IH = less.hyps [OF getline_shorter [OF line]] and wrong = wrong_line_line [OF line]
    show ?thesis
    proof (cases "Suc n \<le> skip")
      case True
      have "wrong_line D f sep eol nCol skip bytes n (db, Suc 0) = wrong_line D f sep eol nCol skip rest (Suc n) (db, Suc 0)"
        using True by (subst wrong) simp
      moreover have "import_lines D f sep eol nCol skip rest (Suc n) (db, Suc 0) = (x, (db', k), ws)"
        using less.prems(1) line True by (simp add: unfold)
      ultimately show ?thesis using IH less.prems(2) by (cases x) simp_all
    next
      case False
      from split_line_safe [OF sep, of f "Suc n" nCol line] show ?thesis
      proof (elim disjE exE)
        fix m
        assume m: "split_line f (Suc n) nCol sep line = Inl (RError m)"
        have "wrong_line D f sep eol nCol skip bytes n (db, Suc 0)" using False m by (subst wrong) simp
        then show ?thesis using less.prems line False m by (auto simp: unfold athrow_def)
      next
        fix vals
        assume vals: "split_line f (Suc n) nCol sep line = Inr vals"
        from import_row_outcome [of D vals "(db, Suc 0)"] show ?thesis
        proof (elim disjE exE)
          fix db1
          assume row: "import_row D vals (db, Suc 0) = (Inr (), (db1, snd (db, Suc 0)), [])"
          have "wrong_line D f sep eol nCol skip bytes n (db, Suc 0) = wrong_line D f sep eol nCol skip rest (Suc n) (db1, Suc 0)"
            using False vals row by (subst wrong) simp
          moreover have "import_lines D f sep eol nCol skip rest (Suc n) (db1, Suc 0) = (x, (db', k), ws)"
            using less.prems(1) line False vals row by (simp add: unfold)
          ultimately show ?thesis using IH less.prems(2) by (cases x) simp_all
        next
          fix m db1
          assume row: "import_row D vals (db, Suc 0) = (Inl (RError m), (db1, snd (db, Suc 0) - 1), [])"
          have "\<not> wrong_line D f sep eol nCol skip bytes n (db, Suc 0)" using False vals row by (subst wrong) simp
          then show ?thesis using less.prems line False vals row by (auto simp: unfold)
        qed
      qed
    qed
  qed
qed

text \<open>
  The whole import: it starts when both statements can be prepared, with the number of columns and
  the database it then has.
\<close>

definition import_starts :: "'db import_db \<Rightarrow> string \<Rightarrow> 'db \<Rightarrow> (nat \<times> 'db) option" where
  "import_starts D zTable db =
     (case prepare_query D (select_sql zTable) db of
        (None, _) \<Rightarrow> None
      | (Some nCol, db1) \<Rightarrow>
          if nCol = 0 then None
          else (case prepare_query D (insert_sql zTable nCol) (finalize_query D db1) of
              (None, _) \<Rightarrow> None
            | (Some _, db2) \<Rightarrow> Some (nCol, db2)))"

definition import_overruns ::
  "'db import_db \<Rightarrow> string \<Rightarrow> string \<Rightarrow> string option \<Rightarrow> string \<Rightarrow> string \<Rightarrow> int \<Rightarrow> 'db \<Rightarrow> bool" where
  "import_overruns D zTable zFile file sep eol skip db \<longleftrightarrow> sep \<noteq> [] \<and>
     (\<exists>nCol db' bytes pos n st. import_starts D zTable db = Some (nCol, db') \<and> file = Some bytes \<and>
        import_reaches D zFile sep eol nCol (nat skip) bytes 0 (db', 1) pos n st \<and> bad_line eol pos)"

definition import_abandons ::
  "'db import_db \<Rightarrow> string \<Rightarrow> string \<Rightarrow> string option \<Rightarrow> string \<Rightarrow> string \<Rightarrow> int \<Rightarrow> 'db \<Rightarrow> bool" where
  "import_abandons D zTable zFile file sep eol skip db \<longleftrightarrow> sep \<noteq> [] \<and>
     (\<exists>nCol db'. import_starts D zTable db = Some (nCol, db') \<and>
        (\<forall>bytes. file = Some bytes \<longrightarrow> wrong_line D zFile sep eol nCol (nat skip) bytes 0 (db', 1)))"

text \<open>The import, once its statements are prepared.\<close>

lemma import_runs:
  "RS_sqlite_import D zTable zFile file sep eol skip (db, 0) =
     (if sep \<noteq> [] \<and> import_starts D zTable db \<noteq> None
      then (case the (import_starts D zTable db) of (nCol, db') \<Rightarrow>
        (case file of
           None \<Rightarrow> athrow (RError (''RS_sqlite_import: cannot open file '' @ zFile)) (db', 1)
         | Some bytes \<Rightarrow>
             (case import_lines D zFile sep eol nCol (nat skip) bytes 0 (db', 1) of
                (Inl e, st, ws) \<Rightarrow> (Inl e, st, ws)
              | (Inr _, st, ws) \<Rightarrow> (Inr True, import_finalize D st, ws))))
      else (fst (RS_sqlite_import D zTable zFile file sep eol skip (db, 0)),
        (fst (fst (snd (RS_sqlite_import D zTable zFile file sep eol skip (db, 0)))), 0), []))
   \<and> (sep = [] \<or> import_starts D zTable db = None \<longrightarrow>
        \<not> undefined_behaviour (fst (RS_sqlite_import D zTable zFile file sep eol skip (db, 0))))"
proof -
  have w: "0 < nCol \<Longrightarrow> write_insert_sql zTable nCol = Inr (insert_sql zTable nCol)" for nCol
    by (rule write_insert_sql_ok)
  show ?thesis
    by (auto simp: RS_sqlite_import_def import_starts_def abind_def import_prepare_def import_error_def act_defs
        import_finalize_def w split: option.splits prod.splits sum.splits if_splits)
qed

lemma import_UB:
  assumes "CHR 0x00 \<notin> set sep"
  shows "undefined_behaviour (fst (RS_sqlite_import D zTable zFile file sep eol skip (db, 0)))
    = import_overruns D zTable zFile file sep eol skip db"
proof (cases "sep \<noteq> [] \<and> import_starts D zTable db \<noteq> None")
  case True
  then obtain nCol db' where st: "sep \<noteq> []" "import_starts D zTable db = Some (nCol, db')" by auto
  show ?thesis
  proof (cases "file")
    case (Some bytes)
    have "undefined_behaviour (fst (RS_sqlite_import D zTable zFile file sep eol skip (db, 0)))
        = undefined_behaviour (fst (import_lines D zFile sep eol nCol (nat skip) bytes 0 (db', 1)))"
      using st Some by (subst import_runs [THEN conjunct1]) (auto split: prod.split sum.split)
    also have "\<dots> = import_overruns D zTable zFile file sep eol skip db"
      unfolding import_lines_UB [OF st(1) assms] using st Some by (auto simp: import_overruns_def)
    finally show ?thesis .
  qed (use st in \<open>subst import_runs [THEN conjunct1], simp add: athrow_def import_overruns_def\<close>)
next
  case False
  then have "sep = [] \<or> import_starts D zTable db = None" by blast
  with import_runs [THEN conjunct2, of sep D zTable db zFile "file" eol skip] show ?thesis
    by (auto simp: import_overruns_def)
qed

text \<open>
  The statements an import leaves open: one when the file cannot be opened or a line has the wrong
  number of fields, and otherwise none.
\<close>

lemma import_leaves_statement:
  assumes "CHR 0x00 \<notin> set sep" "RS_sqlite_import D zTable zFile file sep eol skip (db, 0) = (x, (db', left), ws)"
    and "\<not> undefined_behaviour x"
  shows "left = (if import_abandons D zTable zFile file sep eol skip db then 1 else 0)
    \<and> (import_abandons D zTable zFile file sep eol skip db \<longrightarrow> (\<exists>e. x = Inl e))"
proof (cases "sep \<noteq> [] \<and> import_starts D zTable db \<noteq> None")
  case True
  then obtain nCol db1 where st: "sep \<noteq> []" "import_starts D zTable db = Some (nCol, db1)" by auto
  show ?thesis
  proof (cases "file")
    case (Some bytes)
    obtain y db2 k ws' where l: "import_lines D zFile sep eol nCol (nat skip) bytes 0 (db1, Suc 0) = (y, (db2, k), ws')"
      by (metis prod.exhaust)
    have run: "(x, (db', left), ws) = (case y of Inl e \<Rightarrow> (Inl e, (db2, k), ws') | Inr _ \<Rightarrow> (Inr True, import_finalize D (db2, k), ws'))"
      using assms(2) st Some l by (subst (asm) import_runs [THEN conjunct1]) (cases y; simp)
    with assms(3) have "\<not> undefined_behaviour y" by (cases y) auto
    note left = import_lines_left [OF st(1) assms(1) l this]
    have "import_abandons D zTable zFile file sep eol skip db = wrong_line D zFile sep eol nCol (nat skip) bytes 0 (db1, Suc 0)"
      using st Some by (simp add: import_abandons_def)
    then show ?thesis using left run by (cases y) (auto simp: import_finalize_def)
  qed (use assms(2) st in \<open>subst (asm) import_runs [THEN conjunct1], auto simp: athrow_def import_abandons_def\<close>)
next
  case False
  have "(x, (db', left), ws) = (x, (db', 0), ws)"
    using assms(2) False by (subst (asm) import_runs [THEN conjunct1]) auto
  then show ?thesis using False by (auto simp: import_abandons_def)
qed

text \<open>A quantity of the database that only preparing and finalizing change, by one.\<close>

lemma import_lines_counts:
  fixes live :: "'db \<Rightarrow> int"
  assumes "\<And>vals db. live (snd (insert_step D vals db)) = live db" "\<And>db. live (snd (insert_reset D db)) = live db"
    and "\<And>db. live (finalize_query D db) = live db - 1"
  shows "live (fst (fst (snd (import_lines D f sep eol nCol skip bytes n (db, Suc 0)))))
    - int (snd (fst (snd (import_lines D f sep eol nCol skip bytes n (db, Suc 0))))) = live db - 1"
proof (induction "length bytes" arbitrary: bytes n db rule: less_induct)
  case less
  have row: "live db' - int k = live d - 1 \<and> (y = Inr () \<longrightarrow> k = Suc 0)"
    if "import_row D vals (d, Suc 0) = (y, (db', k), ws)" for vals d y db' k ws
    using that assms(1) [of vals d] assms(2) [of "snd (insert_step D vals d)"] assms(3)
    by (auto simp: import_row_def import_error_def import_finalize_def areturn_def athrow_def split: prod.splits if_splits)
  have IH: "live (fst (fst (snd (import_lines D f sep eol nCol skip rest m (d, Suc 0)))))
    - int (snd (fst (snd (import_lines D f sep eol nCol skip rest m (d, Suc 0))))) = live d - 1"
    if "RS_sqlite_getline eol bytes = Inr (Some line, rest)" for line rest m d
    using less.hyps [OF getline_shorter [OF that]] .
  show ?case
    by (subst (1 2) import_lines.simps)
      (use row in \<open>fastforce simp: athrow_def areturn_def Let_def IH split: sum.split prod.split option.split\<close>)
qed

subsection \<open>Properties\<close>

text \<open>
  C23: importing a file of nonempty lines inserts, in order, one row for every line after the
  skipped ones, the fields between the separators, reports success and leaves no statement open;
  it stops without an error at the first empty line, whatever follows it.
\<close>

theorem import_inserts_lines:
  assumes eol: "good_eol eol" and sep: "good_sep sep" and n: "0 < nCol"
    and prepared: "prepare_query D (select_sql tbl) db = (Some nCol, db1)"
      "prepare_query D (insert_sql tbl nCol) (finalize_query D db1) = (Some k, db2)"
    and lines: "\<forall>l \<in> set lines. plain_line eol l \<and> l \<noteq> []"
      "\<forall>l \<in> set (drop (nat skip) lines). length (fields sep (body l)) = nCol"
    and ins: "inserts D (map (line_row sep) (drop (nat skip) lines)) db2 db'"
    and tail: "tail = [] \<or> tail = eol @ extra"
  shows "RS_sqlite_import D tbl f (Some (file_of eol lines @ tail)) sep eol skip (db, 0)
    = (Inr True, (finalize_query D db', 0), [])"
proof -
  have "import_lines D f sep eol nCol (nat skip) (file_of eol lines @ tail) 0 (db2, 1) = (Inr (), (db', 1), [])"
    using import_lines_ok [OF eol sep n tail lines(1), of "nat skip" 0 D db2 db' f 1] lines(2) ins by simp
  then show ?thesis
    using sep prepared n
    by (simp add: RS_sqlite_import_def good_sep_def write_insert_sql_ok abind_def import_prepare_def act_defs
        import_finalize_def)
qed

text \<open>A table of one connection: the rows that were inserted.\<close>

definition rows_db :: "nat \<Rightarrow> sqlite_value list list import_db" where
  "rows_db nCol = \<lparr>prepare_query = (\<lambda>_ rows. (Some nCol, rows)), insert_step = (\<lambda>row rows. (InsertDone, rows @ [row])),
     insert_reset = (\<lambda>rows. (True, rows)), finalize_query = id, db_errmsg = (\<lambda>_. ''not an error'')\<rparr>"

theorem import_inserts_lines_witness:
  "RS_sqlite_import (rows_db 2) ''t'' ''f.csv''
     (Some (file_of [CHR 0x0A] [''a,b'', ''1,2'', [CHR 0x5C, CHR ''N'', CHR '','', CHR ''x'']] @ [CHR 0x0A] @ ''3,4''))
     '','' [CHR 0x0A] 1 ([], 0)
   = (Inr True, ([[SqlText ''1'', SqlText ''2''], [SqlNull, SqlText ''x'']], 0), [])"
  by (subst import_inserts_lines [where nCol = 2 and k = 2 and extra = "''3,4''" and ?db1.0 = "[]" and ?db2.0 = "[]"
        and db' = "[[SqlText ''1'', SqlText ''2''], [SqlNull, SqlText ''x'']]"])
    (simp_all add: good_eol_def good_sep_def stops_def rows_db_def plain_line_def body_def rest_of_def
      line_row_def extend_last_def column_value_def)

text \<open>
  A line with another number of fields than the table has columns is an error, and the
  line of the error inserts nothing; the statement stays open.
\<close>

lemma import_wrong_field_count:
  assumes eol: "good_eol eol" and sep: "good_sep sep" and n: "0 < nCol" and s: "skip \<le> lineno"
    and line: "plain_line eol l" "l \<noteq> []" and bad: "length (fields sep (body l)) \<noteq> nCol"
  shows "\<exists>m. import_lines D f sep eol nCol skip (l @ eol @ rest) lineno st = (Inl (RError m), st, [])"
proof -
  have "RS_sqlite_getline eol (l @ eol @ rest) = Inr (Some l, rest)"
    using getline_ok [OF eol line(1), of rest] line(2) by simp
  moreover obtain m where "split_line f (Suc lineno) nCol sep l = Inl (RError m)"
    using split_line_ok [OF sep _ n, of l f "Suc lineno"] line(1) bad by (auto simp: plain_line_def)
  ultimately show ?thesis
    using s by (subst import_lines.simps) (simp add: athrow_def)
qed

lemma import_wrong_field_count_witness:
  "\<exists>m. import_lines (rows_db 2) ''f.csv'' '','' [CHR 0x0A] 2 0 (''a,b,c'' @ [CHR 0x0A] @ []) 0 ([], 1) = (Inl (RError m), ([], 1), [])"
  by (rule import_wrong_field_count)
    (simp_all add: good_eol_def good_sep_def stops_def plain_line_def body_def)

text \<open>
  C40: the buffer allocated for the insert statement is never overrun: every write of its
  construction is inside it, \<open>sqlite3_snprintf\<close> cuts nothing off, and SQLite reads the statement
  with the quoted name of the table and one mark for each column.
\<close>

theorem insert_sql_fits:
  "0 < nCol \<Longrightarrow>
     write_insert_sql tbl nCol = Inr (insert_sql tbl nCol) \<and>
     length (insert_sql tbl nCol) + 1 \<le> insert_sql_space tbl nCol"
  using insert_head_length [of tbl]
  by (simp add: write_insert_sql_ok insert_sql_def insert_sql_space_def length_concat sum_list_replicate)

theorem insert_sql_fits_witness:
  "write_insert_sql [CHR ''t'', CHR 0x27] 3
     = Inr (''INSERT INTO '' @ replicate 1 (CHR 0x27) @ ''t'' @ replicate 3 (CHR 0x27) @ '' VALUES(?,?,?)'')"
  using insert_sql_fits [of 3 "[CHR ''t'', CHR 0x27]"]
  by (simp add: insert_sql_def insert_head_def numeral_eq_Suc)

text \<open>
  A last line without an end of line is returned unterminated: unless the memory past
  it happens to hold a NUL, measuring its length reads cells that were never written.
\<close>

theorem unterminated_last_line:
  assumes eol: "good_eol eol" and line: "plain_line eol l" "l \<noteq> []"
  shows "RS_sqlite_getline eol l = Inl (UB ''strlen of uninitialised memory'')"
proof -
  have init: "holds_prefix (malloc 1024) 0 []" by (simp add: holds_prefix_def malloc_def)
  have "last eol \<notin> set l" using line by (simp add: plain_line_def)
  from getline_loop_push [OF this init, of "[]"] obtain buf where
    b: "getline_loop eol l (malloc 1024) 0 = Inr (grow buf (length l), length l, [])"
    "holds_prefix buf (length l) l"
    unfolding append_Nil append_Nil2 add_0 by auto
  note g = holds_prefix_grow [OF b(2)]
  have "grow buf (length l) = map Some l @ replicate (length (grow buf (length l)) - length l) None"
    using append_take_drop_id [of "length l" "grow buf (length l)"] unfolding g(2,3) by simp
  moreover obtain m where "length (grow buf (length l)) - length l = Suc m"
    using g(1) by (cases "length (grow buf (length l)) - length l") auto
  ultimately have g': "grow buf (length l) = map Some l @ None # replicate m None" by simp
  have "CHR 0x00 \<notin> set l \<Longrightarrow> c_strlen (map Some l @ None # xs) = Inl (UB ''strlen of uninitialised memory'')" for xs
    by (induction l) auto
  then show ?thesis
    using line eol b(1) g' by (simp add: RS_sqlite_getline_def plain_line_def good_eol_def)
qed

theorem unterminated_last_line_witness:
  "RS_sqlite_getline [CHR 0x0A] ''a,b'' = Inl (UB ''strlen of uninitialised memory'')"
  by (rule unterminated_last_line) (simp_all add: good_eol_def plain_line_def)

end
