(* ===== verification/Session.thy ===== *)
theory Session
  imports ResultRun Connection ImportFile
begin

text \<open>
  The objects of the package together, as R reaches them: connections and results behind external
  pointers, results that hold their connection, one SQLite library under all of them.  The
  functions R calls are those of \<open>connection.cpp\<close>, \<open>result.cpp\<close>, \<open>extensions.cpp\<close> and
  \<open>rsqlite.cpp\<close>; each is an action on the session (\<open>r_\<close> and the name of the C++ function),
  composed of the operations of the components.

  SQLite's own state, with the databases behind it, is \<open>'db\<close>, the state of one statement \<open>'st\<close>;
  stepping a statement works on both.  What SQLite and cpp11 do is the record \<open>api\<close>.
\<close>

subsection \<open>The interface of SQLite and cpp11\<close>

type_synonym ('db, 'st) stmt = "'db \<times> 'st"

record ('db, 'st) api =
  api_stmt :: "('db, 'st) stmt stmt_env"
  sqlite3_open_v2 :: "'db \<Rightarrow> nat \<Rightarrow> string \<Rightarrow> i32 \<Rightarrow> string option \<Rightarrow> open_result \<times> 'db"
  sqlite3_close_v2 :: "nat \<Rightarrow> 'db \<Rightarrow> 'db"
  sqlite3_prepare_v2 :: "nat \<Rightarrow> 'db \<Rightarrow> string \<Rightarrow> ('db, 'st) stmt prepared"
  sqlite3_finalize :: "('db, 'st) stmt \<Rightarrow> 'db"
  sqlite3_get_autocommit :: "nat \<Rightarrow> 'db \<Rightarrow> bool"
  sqlite3_backup :: "nat \<Rightarrow> nat \<Rightarrow> 'db \<Rightarrow> (bool \<times> backup_rc \<times> backup_rc \<times> string) \<times> 'db"
  sqlite3_load_extension :: "nat \<Rightarrow> 'db \<Rightarrow> string \<Rightarrow> string \<Rightarrow> bool \<Rightarrow> load_result \<times> 'db"
  import_tables :: "nat \<Rightarrow> 'db import_db"
  read_file :: "string \<Rightarrow> string option"
  sqlite3_libversion :: string
  SQLITE_VERSION :: string
  null_pointer_error :: r_error \<comment> \<open>\<open>external_pointer\<close>'s operators \<open>*\<close> and \<open>->\<close> on a NULL pointer\<close>

subsection \<open>Objects\<close>

text \<open>
  A \<open>DbResult\<close>: the connection it shares, by address, and the implementation, NULL only while
  it is being constructed.
\<close>

record ('db, 'st) db_result =
  dr_conn :: nat
  dr_impl :: "('db, 'st) stmt result_impl option"

record ('db, 'st) session =
  se_sqlite :: 'db
  se_conns :: "nat \<Rightarrow> world option"
  se_results :: "nat \<Rightarrow> ('db, 'st) db_result option"
  se_next :: nat     \<comment> \<open>the next free address\<close>
  se_leaked :: nat   \<comment> \<open>handles of failed connections, never closed\<close>

definition session_start :: "'db \<Rightarrow> ('db, 'st) session" where
  "session_start db = \<lparr>se_sqlite = db, se_conns = (\<lambda>_. None), se_results = (\<lambda>_. None), se_next = 0, se_leaked = 0\<rparr>"

text \<open>
  The address in an external pointer; a pointer read back from a file is NULL.  The pointer of a
  released result is NULL too, which here is an address with no result.
\<close>

type_synonym ptr = "nat option"

text \<open>An operation on the connection object at \<open>c\<close>; SQLite's handle is closed when it says so.\<close>

definition put_conn :: "('db, 'st) api \<Rightarrow> nat \<Rightarrow> world \<Rightarrow> ('db, 'st) session \<Rightarrow> ('db, 'st) session" where
  "put_conn A c w s =
     (let closes = sq_closing w \<and> (\<forall>v. se_conns s c = Some v \<longrightarrow> \<not> sq_closing v) in
      s\<lparr>se_conns := (se_conns s)(c \<mapsto> w),
        se_sqlite := (if closes then sqlite3_close_v2 A c (se_sqlite s) else se_sqlite s)\<rparr>)"

definition with_conn :: "('db, 'st) api \<Rightarrow> nat \<Rightarrow> (world, 'a) act \<Rightarrow> (('db, 'st) session, 'a) act" where
  "with_conn A c m s =
     (case se_conns s c of
        None \<Rightarrow> athrow (UB ''no connection object at this address'') s
      | Some w \<Rightarrow> (case m w of (x, w', ws) \<Rightarrow> (x, put_conn A c w' s, ws)))"

text \<open>\<open>as_cpp\<close> of \<open>RSQLCipher_types.h\<close> for \<open>DbResult*\<close> and \<open>SqliteResult*\<close>.\<close>

definition as_result ::
  "ptr \<Rightarrow> (nat \<Rightarrow> ('db, 'st) db_result \<Rightarrow> (('db, 'st) session, 'a) act) \<Rightarrow> (('db, 'st) session, 'a) act" where
  "as_result p f s =
     (case p of
        None \<Rightarrow> athrow (Stop ''Invalid result set'') s
      | Some k \<Rightarrow> (case se_results s k of
            None \<Rightarrow> athrow (Stop ''Invalid result set'') s
          | Some r \<Rightarrow> f k r s))"

text \<open>A method of the implementation, on SQLite's present state.\<close>

definition attach :: "'db \<Rightarrow> ('db, 'st) stmt result_impl \<Rightarrow> ('db, 'st) stmt result_impl" where
  "attach db i = i\<lparr>ri_stmt := (db, snd (ri_stmt i))\<rparr>"

definition put_impl ::
  "nat \<Rightarrow> ('db, 'st) db_result \<Rightarrow> ('db, 'st) stmt result_impl \<Rightarrow> ('db, 'st) session \<Rightarrow> ('db, 'st) session" where
  "put_impl k r i s =
     s\<lparr>se_sqlite := fst (ri_stmt i), se_results := (se_results s)(k \<mapsto> r\<lparr>dr_impl := Some i\<rparr>)\<rparr>"

definition on_impl ::
  "(('db, 'st) stmt result_impl, 'a) act \<Rightarrow> nat \<Rightarrow> ('db, 'st) db_result \<Rightarrow> (('db, 'st) session, 'a) act" where
  "on_impl m k r s =
     (case dr_impl r of
        None \<Rightarrow> athrow (UB ''method of a null implementation'') s
      | Some i \<Rightarrow> (case m (attach (se_sqlite s) i) of (x, i', ws) \<Rightarrow> (x, put_impl k r i' s, ws)))"

subsection \<open>DbResult and SqliteResult\<close>

definition db_complete :: "('db, 'st) db_result \<Rightarrow> bool" where
  "db_complete r \<longleftrightarrow> (case dr_impl r of None \<Rightarrow> True | Some i \<Rightarrow> result_complete i)"

definition db_is_active :: "('db, 'st) db_result \<Rightarrow> bool" where
  "db_is_active r \<longleftrightarrow> is_current_result"

definition db_n_rows_fetched :: "nat \<Rightarrow> ('db, 'st) db_result \<Rightarrow> (('db, 'st) session, i32) act" where
  "db_n_rows_fetched = on_impl (\<lambda>i. areturn (n_rows_fetched i) i)"

definition db_n_rows_affected :: "('db, 'st) api \<Rightarrow> nat \<Rightarrow> ('db, 'st) db_result \<Rightarrow> (('db, 'st) session, i32) act" where
  "db_n_rows_affected A = on_impl (\<lambda>i. areturn (n_rows_affected (api_stmt A) i) i)"

definition sqlite_get_placeholder_names ::
  "('db, 'st) api \<Rightarrow> nat \<Rightarrow> ('db, 'st) db_result \<Rightarrow> (('db, 'st) session, string list) act" where
  [simp]: "sqlite_get_placeholder_names A = on_impl (\<lambda>i. areturn (get_placeholder_names (api_stmt A) i) i)"

text \<open>\<open>close\<close>, which is meant for the destructor but never called.\<close>

definition db_close :: "nat \<Rightarrow> ('db, 'st) db_result \<Rightarrow> (('db, 'st) session, unit) act" where
  "db_close k r s = (case dr_impl r of None \<Rightarrow> areturn () s | Some i \<Rightarrow> on_impl result_close k r s)"

text \<open>
  The implementation's constructor on the connection \<open>w\<close>: a failure finalizes the statement and
  leaves what its first step did to the database.
\<close>

definition sqlite_result_impl ::
  "('db, 'st) api \<Rightarrow> nat \<Rightarrow> world \<Rightarrow> string \<Rightarrow> 'db \<Rightarrow> (r_error + ('db, 'st) stmt result_impl) \<times> 'db \<times> string list" where
  "sqlite_result_impl A c w sql db =
     (if \<not> is_valid w then (Inl (Stop ''disconnected''), db, [])
      else case prepare (sqlite3_prepare_v2 A c db (c_str sql)) of
        Inl e \<Rightarrow> (Inl e, db, [])
      | Inr (stmt, ws) \<Rightarrow>
          (case result_impl_open (api_stmt A) (result_impl_start (api_stmt A) (with_alt_types w) stmt) of
             (Inl e, i, ws') \<Rightarrow> (Inl e, sqlite3_finalize A (ri_stmt i), ws @ ws')
           | (Inr _, i, ws') \<Rightarrow> (Inr i, fst (ri_stmt i), ws @ ws')))"

text \<open>
  \<open>create_and_send_query\<close>: \<open>DbResult\<close>'s constructor takes the connection, the implementation is
  made, and an exception gives the connection back (\<open>Connection.result_create\<close>).
\<close>

definition create_and_send_query :: "('db, 'st) api \<Rightarrow> nat \<Rightarrow> string \<Rightarrow> (('db, 'st) session, nat) act" where
  "create_and_send_query A c sql s =
     (case se_conns s c of
        None \<Rightarrow> athrow (UB ''no connection object at this address'') s
      | Some w \<Rightarrow>
          (case sqlite_result_impl A c w sql (se_sqlite s) of (out, db, ws) \<Rightarrow>
           case Connection.result_create (rbind out (\<lambda>_. Inr ())) w of (x, w', ws') \<Rightarrow>
             let t = put_conn A c w' (s\<lparr>se_sqlite := db\<rparr>) in
             (case rbind x (\<lambda>_. out) of
                Inl e \<Rightarrow> (Inl e, t, ws @ ws')
              | Inr i \<Rightarrow> (Inr (se_next s),
                  t\<lparr>se_results := (se_results s)(se_next s \<mapsto> \<lparr>dr_conn = c, dr_impl = Some i\<rparr>),
                    se_next := Suc (se_next s)\<rparr>, ws @ ws'))))"

text \<open>
  Deleting a result: the implementation finalizes its statement first, then the connection is
  given back, which closes it when it was held by this result only.
\<close>

definition delete_impl :: "('db, 'st) api \<Rightarrow> ('db, 'st) stmt result_impl \<Rightarrow> 'db" where
  [simp]: "delete_impl A i = sqlite3_finalize A (ri_stmt i)"

definition delete_result :: "('db, 'st) api \<Rightarrow> nat \<Rightarrow> ('db, 'st) db_result \<Rightarrow> (('db, 'st) session, unit) act" where
  "delete_result A k r s =
     (let db = (case dr_impl r of None \<Rightarrow> se_sqlite s | Some i \<Rightarrow> delete_impl A (attach (se_sqlite s) i)) in
      with_conn A (dr_conn r) Connection.result_release
        (s\<lparr>se_sqlite := db, se_results := (se_results s)(k := None)\<rparr>))"

subsection \<open>connection.cpp, extensions.cpp\<close>

text \<open>An external pointer dereferenced with \<open>*\<close> or \<open>->\<close> throws when it is NULL; one read with
  \<open>get\<close> does not.\<close>

definition deref :: "('db, 'st) api \<Rightarrow> ptr \<Rightarrow> (nat \<Rightarrow> (('db, 'st) session, 'a) act) \<Rightarrow> (('db, 'st) session, 'a) act" where
  "deref A p f = (case p of None \<Rightarrow> athrow (null_pointer_error A) | Some c \<Rightarrow> f c)"

definition get_raw :: "ptr \<Rightarrow> (nat \<Rightarrow> (('db, 'st) session, 'a) act) \<Rightarrow> (('db, 'st) session, 'a) act" where
  "get_raw p f = (case p of None \<Rightarrow> athrow (UB ''null connection pointer'') | Some c \<Rightarrow> f c)"

definition r_connection_connect ::
  "('db, 'st) api \<Rightarrow> string \<Rightarrow> bool \<Rightarrow> i32 \<Rightarrow> string \<Rightarrow> bool \<Rightarrow> (('db, 'st) session, nat) act" where
  "r_connection_connect A path allow_ext flags vfs alt s =
     (let c = se_next s; open = sqlite3_open_v2 A (se_sqlite s) c;
          db = snd (open (c_str path) flags (vfs_name vfs)) in
      case connect (\<lambda>p f v. fst (open p f v)) path allow_ext flags vfs alt of
        (Inl e, leaked) \<Rightarrow> (Inl e, s\<lparr>se_sqlite := db, se_leaked := se_leaked s + leaked\<rparr>, [])
      | (Inr w, _) \<Rightarrow> (Inr c, s\<lparr>se_sqlite := db, se_conns := (se_conns s)(c \<mapsto> w), se_next := Suc c\<rparr>, []))"

definition r_connection_valid :: "ptr \<Rightarrow> (('db, 'st) session, bool) act" where
  "r_connection_valid p s =
     areturn (case p of None \<Rightarrow> False
       | Some c \<Rightarrow> (case se_conns s c of None \<Rightarrow> False | Some w \<Rightarrow> connection_valid w)) s"

definition r_connection_release :: "('db, 'st) api \<Rightarrow> ptr \<Rightarrow> (('db, 'st) session, unit) act" where
  "r_connection_release A p s =
     (case p of
        None \<Rightarrow> (Inr (), s, [''Already disconnected''])
      | Some c \<Rightarrow> with_conn A c connection_release s)"

definition r_connection_in_transaction :: "('db, 'st) api \<Rightarrow> ptr \<Rightarrow> (('db, 'st) session, bool) act" where
  "r_connection_in_transaction A p =
     get_raw p (\<lambda>c s. with_conn A c (\<lambda>w. in_transaction
       (if pConn w then w\<lparr>sq_autocommit := sqlite3_get_autocommit A c (se_sqlite s)\<rparr> else w)) s)"

definition r_connection_copy_database :: "('db, 'st) api \<Rightarrow> ptr \<Rightarrow> ptr \<Rightarrow> (('db, 'st) session, unit) act" where
  "r_connection_copy_database A from to =
     get_raw from (\<lambda>a. get_raw to (\<lambda>b s.
       case (se_conns s a, se_conns s b) of
         (Some wa, Some wb) \<Rightarrow>
           (case sqlite3_backup A a b (se_sqlite s) of ((backup, rc_step, rc_finish, errmsg), db) \<Rightarrow>
             (case Connection.copy_to wa wb backup rc_step rc_finish errmsg of (x, finished) \<Rightarrow>
                with_conn A a (\<lambda>w. (x, copied finished w, []))
                  (if is_valid wb \<and> pConn wa then s\<lparr>se_sqlite := db\<rparr> else s)))
       | _ \<Rightarrow> athrow (UB ''no connection object at this address'') s))"

text \<open>The statements that the import has not finalized stay on the connection.\<close>

definition r_connection_import_file ::
  "('db, 'st) api \<Rightarrow> ptr \<Rightarrow> string \<Rightarrow> string \<Rightarrow> string \<Rightarrow> string \<Rightarrow> i32 \<Rightarrow> (('db, 'st) session, bool) act" where
  "r_connection_import_file A p name value sep eol skip =
     deref A p (\<lambda>c. abind (with_conn A c conn) (\<lambda>_ s.
       case RS_sqlite_import (import_tables A c) (c_str name) (c_str value) (read_file A (c_str value))
              (c_str sep) (c_str eol) (sint skip) (se_sqlite s, 0) of
         (x, (db, left), ws) \<Rightarrow> with_conn A c (\<lambda>w. (x, abandon left w, ws)) (s\<lparr>se_sqlite := db\<rparr>)))"

definition r_set_busy_handler :: "('db, 'st) api \<Rightarrow> ptr \<Rightarrow> robject \<Rightarrow> (('db, 'st) session, unit) act" where
  "r_set_busy_handler A p r_callback = deref A p (\<lambda>c. with_conn A c (set_busy_handler r_callback))"

definition r_extension_load :: "('db, 'st) api \<Rightarrow> ptr \<Rightarrow> string \<Rightarrow> string \<Rightarrow> (('db, 'st) session, unit) act" where
  "r_extension_load A p file entry_point =
     deref A p (\<lambda>c s.
       let load = sqlite3_load_extension A c (se_sqlite s) (c_str file) (c_str entry_point);
           db = (case se_conns s c of None \<Rightarrow> se_sqlite s
                 | Some w \<Rightarrow> if is_valid w then snd (load (sq_extensions w)) else se_sqlite s) in
       (case with_conn A c (extension_load (\<lambda>enabled. fst (load enabled))) s of
          (x, t, ws) \<Rightarrow> (x, t\<lparr>se_sqlite := db\<rparr>, ws)))"

subsection \<open>result.cpp\<close>

definition r_result_create :: "('db, 'st) api \<Rightarrow> ptr \<Rightarrow> string \<Rightarrow> (('db, 'st) session, nat) act" where
  "r_result_create A p sql =
     deref A p (\<lambda>c. abind (with_conn A c check_connection) (\<lambda>_. create_and_send_query A c sql))"

definition r_result_release :: "('db, 'st) api \<Rightarrow> ptr \<Rightarrow> (('db, 'st) session, unit) act" where
  "r_result_release A p s =
     (case p of
        None \<Rightarrow> areturn () s
      | Some k \<Rightarrow> (case se_results s k of None \<Rightarrow> areturn () s | Some r \<Rightarrow> delete_result A k r s))"

definition r_result_valid :: "ptr \<Rightarrow> (('db, 'st) session, bool) act" where
  "r_result_valid p s =
     areturn (case p of None \<Rightarrow> False
       | Some k \<Rightarrow> (case se_results s k of None \<Rightarrow> False | Some r \<Rightarrow> db_is_active r)) s"

text \<open>\<open>None\<close> is a fetch that does not return.\<close>

definition r_result_fetch ::
  "('db, 'st) api \<Rightarrow> (nat \<Rightarrow> bool) \<Rightarrow> ptr \<Rightarrow> i32 \<Rightarrow> ('db, 'st) session \<Rightarrow>
     ((r_error + r_data_frame) \<times> ('db, 'st) session \<times> string list) option" where
  "r_result_fetch A intr p n s =
     (case p of
        None \<Rightarrow> Some (athrow (Stop ''Invalid result set'') s)
      | Some k \<Rightarrow> (case se_results s k of
            None \<Rightarrow> Some (athrow (Stop ''Invalid result set'') s)
          | Some r \<Rightarrow> (case dr_impl r of
                None \<Rightarrow> Some (athrow (UB ''method of a null implementation'') s)
              | Some i \<Rightarrow> map_option (\<lambda>(out, i', ws). (out, put_impl k r i' s, ws))
                  (db_fetch (api_stmt A) intr (sint n) (attach (se_sqlite s) i)))))"

definition r_result_bind :: "('db, 'st) api \<Rightarrow> ptr \<Rightarrow> robj list \<Rightarrow> (('db, 'st) session, unit) act" where
  "r_result_bind A p params = as_result p (on_impl (db_bind (api_stmt A) params))"

definition r_result_has_completed :: "ptr \<Rightarrow> (('db, 'st) session, bool) act" where
  "r_result_has_completed p = as_result p (\<lambda>k r. areturn (db_complete r))"

definition r_result_rows_fetched :: "ptr \<Rightarrow> (('db, 'st) session, i32) act" where
  "r_result_rows_fetched p = as_result p db_n_rows_fetched"

definition r_result_rows_affected :: "('db, 'st) api \<Rightarrow> ptr \<Rightarrow> (('db, 'st) session, i32) act" where
  "r_result_rows_affected A p = as_result p (db_n_rows_affected A)"

definition r_result_column_info ::
  "('db, 'st) api \<Rightarrow> ptr \<Rightarrow> (('db, 'st) session, string list \<times> string list \<times> i32 list) act" where
  "r_result_column_info A p = as_result p (on_impl (db_get_column_info (api_stmt A)))"

definition r_result_get_placeholder_names :: "('db, 'st) api \<Rightarrow> ptr \<Rightarrow> (('db, 'st) session, string list) act" where
  "r_result_get_placeholder_names A p =
     as_result p (sqlite_get_placeholder_names A)"

text \<open>\<open>rsqlite.cpp\<close>: the version of the header and of the library, by name.\<close>

definition r_rsqliteVersion :: "('db, 'st) api \<Rightarrow> (('db, 'st) session, (string \<times> string) list) act" where
  "r_rsqliteVersion A = areturn [(''header'', SQLITE_VERSION A), (''library'', sqlite3_libversion A)]"

end
