(* ===== verification/SessionRun.thy ===== *)
theory SessionRun
  imports Session
begin

text \<open>
  A whole R session: any calls into the package in any order, with R's garbage collector and other
  users of the databases in between.  The invariant ties the components together: every
  connection object is in a state \<open>Connection\<close> knows to be reachable and counts exactly the
  results that hold it, and every result is well formed.
\<close>

subsection \<open>The calls\<close>

datatype call =
    Connect string bool i32 string bool
  | ConnectionValid ptr
  | ConnectionRelease ptr
  | InTransaction ptr
  | CopyDatabase ptr ptr
  | ImportCall ptr string string string string i32
  | SetBusyHandler ptr robject
  | ExtensionLoad ptr string string
  | ResultCreate ptr string
  | ResultRelease ptr
  | ResultValid ptr
  | ResultFetch ptr i32
  | ResultBind ptr "robj list"
  | HasCompleted ptr
  | RowsFetched ptr
  | RowsAffected ptr
  | ColumnInfo ptr
  | PlaceholderNames ptr
  | Version

text \<open>What R gets back (\<open>cpp11::as_sexp\<close>).\<close>

datatype rvalue =
    RNilValue | RBool bool | RInt i32 | RConnection nat | RResult nat | RFrame r_data_frame
  | RColumns "string list \<times> string list \<times> i32 list" | RStrings "string list" | RNamed "(string \<times> string) list"

definition avalue :: "('a \<Rightarrow> rvalue) \<Rightarrow> ('s, 'a) act \<Rightarrow> 's \<Rightarrow> ((r_error + rvalue) \<times> 's \<times> string list) option" where
  "avalue f m s = Some (abind m (\<lambda>x. areturn (f x)) s)"

fun run_call ::
  "('db, 'st) api \<Rightarrow> (nat \<Rightarrow> bool) \<Rightarrow> call \<Rightarrow> ('db, 'st) session \<Rightarrow>
     ((r_error + rvalue) \<times> ('db, 'st) session \<times> string list) option" where
  "run_call A intr (Connect path allow_ext flags vfs alt) = avalue RConnection (r_connection_connect A path allow_ext flags vfs alt)"
| "run_call A intr (ConnectionValid p) = avalue RBool (r_connection_valid p)"
| "run_call A intr (ConnectionRelease p) = avalue (\<lambda>_. RNilValue) (r_connection_release A p)"
| "run_call A intr (InTransaction p) = avalue RBool (r_connection_in_transaction A p)"
| "run_call A intr (CopyDatabase from to) = avalue (\<lambda>_. RNilValue) (r_connection_copy_database A from to)"
| "run_call A intr (ImportCall p name value sep eol skip) = avalue RBool (r_connection_import_file A p name value sep eol skip)"
| "run_call A intr (SetBusyHandler p cb) = avalue (\<lambda>_. RNilValue) (r_set_busy_handler A p cb)"
| "run_call A intr (ExtensionLoad p file entry_point) = avalue (\<lambda>_. RNilValue) (r_extension_load A p file entry_point)"
| "run_call A intr (ResultCreate p sql) = avalue RResult (r_result_create A p sql)"
| "run_call A intr (ResultRelease p) = avalue (\<lambda>_. RNilValue) (r_result_release A p)"
| "run_call A intr (ResultValid p) = avalue RBool (r_result_valid p)"
| "run_call A intr (ResultFetch p n) = (\<lambda>s. case r_result_fetch A intr p n s of
      None \<Rightarrow> None | Some y \<Rightarrow> avalue RFrame (\<lambda>_. y) s)"
| "run_call A intr (ResultBind p params) = avalue (\<lambda>_. RNilValue) (r_result_bind A p params)"
| "run_call A intr (HasCompleted p) = avalue RBool (r_result_has_completed p)"
| "run_call A intr (RowsFetched p) = avalue RInt (r_result_rows_fetched p)"
| "run_call A intr (RowsAffected p) = avalue RInt (r_result_rows_affected A p)"
| "run_call A intr (ColumnInfo p) = avalue RColumns (r_result_column_info A p)"
| "run_call A intr (PlaceholderNames p) = avalue RStrings (r_result_get_placeholder_names A p)"
| "run_call A intr Version = avalue RNamed (r_rsqliteVersion A)"

lemma avalue_run:
  "avalue f m s = Some (out, t, ws) \<longleftrightarrow>
     (\<exists>x. m s = (x, t, ws) \<and> out = rbind x (\<lambda>v. Inr (f v)))"
  by (auto simp: avalue_def abind_def areturn_def rbind_def split: prod.splits sum.splits)

subsection \<open>The busy handler\<close>

text \<open>
  The connections whose database a call works on, so that SQLite may find it locked and call
  their busy handler: those it passes to SQLite's functions that read, write or finish a statement.
  Connecting, closing and asking take no lock that a handler waits for.
\<close>

definition open_handle :: "('db, 'st) session \<Rightarrow> ptr \<Rightarrow> nat list" where
  "open_handle s p =
     (case p of None \<Rightarrow> [] | Some c \<Rightarrow> (case se_conns s c of None \<Rightarrow> [] | Some w \<Rightarrow> if is_valid w then [c] else []))"

definition statement_handle :: "('db, 'st) session \<Rightarrow> ptr \<Rightarrow> nat list" where
  "statement_handle s p =
     (case p of None \<Rightarrow> [] | Some k \<Rightarrow> (case se_results s k of None \<Rightarrow> [] | Some r \<Rightarrow> [dr_conn r]))"

fun works_on :: "('db, 'st) session \<Rightarrow> call \<Rightarrow> nat list" where
  "works_on s (CopyDatabase from to) =
     (if open_handle s from = [] \<or> open_handle s to = [] then [] else open_handle s from @ open_handle s to)"
| "works_on s (ImportCall p _ _ _ _ _) = open_handle s p"
| "works_on s (ExtensionLoad p _ _) = open_handle s p"
| "works_on s (ResultCreate p _) = open_handle s p"
| "works_on s (ResultRelease p) = statement_handle s p"
| "works_on s (ResultFetch p _) = statement_handle s p"
| "works_on s (ResultBind p _) = statement_handle s p"
| "works_on s _ = []"

text \<open>
  The busy events of a call, in order: the connection, and what the function that is registered
  answers.  One on a connection the call does not work on cannot happen.
\<close>

fun busy_events :: "nat list \<Rightarrow> (nat \<times> r_answer) list \<Rightarrow> ('db, 'st) session \<Rightarrow> unit res" where
  "busy_events cs [] s = Inr ()"
| "busy_events cs ((c, ans) # busy) s =
     (case se_conns s c of
        None \<Rightarrow> busy_events cs busy s
      | Some w \<Rightarrow> rbind (if c \<in> set cs then busy_event (\<lambda>_. ans) w else Inr 0) (\<lambda>_. busy_events cs busy s))"

text \<open>A call during which SQLite asks the handlers as \<open>busy\<close> says.\<close>

definition run_busy ::
  "('db, 'st) api \<Rightarrow> (nat \<Rightarrow> bool) \<Rightarrow> (nat \<times> r_answer) list \<Rightarrow> call \<Rightarrow> ('db, 'st) session \<Rightarrow>
     ((r_error + rvalue) \<times> ('db, 'st) session \<times> string list) option" where
  "run_busy A intr busy c s =
     (case busy_events (works_on s c) busy s of
        Inl e \<Rightarrow> Some (athrow e s)
      | Inr _ \<Rightarrow> run_call A intr c s)"

lemma run_busy_none [simp]: "run_busy A intr [] c = run_call A intr c"
  by (simp add: run_busy_def fun_eq_iff)

lemma busy_event_error: "busy_event answer w = Inl e \<Longrightarrow> is_UB e"
  by (auto simp: busy_event_def busy_callback_helper_def split: busy_handler.splits option.splits if_splits
      r_answer.splits list.splits)

lemma busy_events_error: "busy_events cs busy s = Inl e \<Longrightarrow> is_UB e"
proof (induction busy)
  case (Cons ev busy)
  then show ?case by (cases ev) (auto simp: rbind_def busy_event_error split: option.splits sum.splits if_splits)
qed simp

text \<open>Events that are answered change nothing.\<close>

lemma run_busy_call:
  "run_busy A intr busy c s = Some (out, t, ws) \<Longrightarrow> \<not> undefined_behaviour out \<Longrightarrow> run_call A intr c s = Some (out, t, ws)"
  using busy_events_error [of "works_on s c" busy s]
  by (auto simp: run_busy_def athrow_def split: sum.splits)

subsection \<open>Sessions\<close>

text \<open>
  R can pass a connection pointer as long as it has not collected it, and vectors whose cells have
  values.
\<close>

definition held :: "('db, 'st) session \<Rightarrow> ptr \<Rightarrow> bool" where
  "held s p \<longleftrightarrow> (\<forall>c. p = Some c \<longrightarrow> (\<exists>w. se_conns s c = Some w \<and> ext_ptr w))"

fun possible :: "('db, 'st) session \<Rightarrow> call \<Rightarrow> bool" where
  "possible s (ConnectionValid p) \<longleftrightarrow> held s p"
| "possible s (ConnectionRelease p) \<longleftrightarrow> held s p"
| "possible s (InTransaction p) \<longleftrightarrow> held s p"
| "possible s (CopyDatabase from to) \<longleftrightarrow> held s from \<and> held s to"
| "possible s (ImportCall p _ _ _ _ _) \<longleftrightarrow> held s p"
| "possible s (SetBusyHandler p _) \<longleftrightarrow> held s p"
| "possible s (ExtensionLoad p _ _) \<longleftrightarrow> held s p"
| "possible s (ResultCreate p _) \<longleftrightarrow> held s p"
| "possible s (ResultBind _ params) \<longleftrightarrow> (\<forall>x \<in> set params. initialised (rdata x))"
| "possible s _ \<longleftrightarrow> True"

text \<open>The finalizers R's collector runs.\<close>

definition collect_connection :: "('db, 'st) api \<Rightarrow> nat \<Rightarrow> ('db, 'st) session \<Rightarrow> ('db, 'st) session" where
  "collect_connection A c s =
     (case se_conns s c of None \<Rightarrow> s | Some w \<Rightarrow> put_conn A c (finalize_pointer w) s)"

definition collect_result :: "('db, 'st) api \<Rightarrow> nat \<Rightarrow> ('db, 'st) session \<Rightarrow> ('db, 'st) session" where
  "collect_result A k s = fst (snd (r_result_release A (Some k) s))"

inductive session_step :: "('db, 'st) api \<Rightarrow> ('db, 'st) session \<Rightarrow> ('db, 'st) session \<Rightarrow> bool" for A where
  call: "possible s c \<Longrightarrow> run_busy A intr busy c s = Some (out, t, ws) \<Longrightarrow> \<not> undefined_behaviour out \<Longrightarrow> session_step A s t"
| collect_con: "session_step A s (collect_connection A c s)"
| collect_res: "session_step A s (collect_result A k s)"
| outside: "session_step A s (s\<lparr>se_sqlite := db\<rparr>)"

inductive session_reachable :: "('db, 'st) api \<Rightarrow> ('db, 'st) session \<Rightarrow> bool" for A where
  start: "session_reachable A (session_start db)"
| step: "session_reachable A s \<Longrightarrow> session_step A s t \<Longrightarrow> session_reachable A t"

subsection \<open>The invariant\<close>

definition results_of :: "('db, 'st) session \<Rightarrow> nat \<Rightarrow> nat set" where
  "results_of s c = {k. \<exists>r. se_results s k = Some r \<and> dr_conn r = c}"

definition session_inv :: "('db, 'st) session \<Rightarrow> bool" where
  "session_inv s \<longleftrightarrow>
     (\<forall>c w. se_conns s c = Some w \<longrightarrow> c < se_next s \<and> reachable w \<and> results w = card (results_of s c)) \<and>
     (\<forall>k r. se_results s k = Some r \<longrightarrow>
        k < se_next s \<and> se_conns s (dr_conn r) \<noteq> None \<and> (\<exists>i. dr_impl r = Some i \<and> result_ok i))"

lemma session_invD:
  assumes "session_inv s"
  shows "se_conns s c = Some w \<Longrightarrow> c < se_next s \<and> reachable w \<and> results w = card (results_of s c)"
    and "se_results s k = Some r \<Longrightarrow>
      k < se_next s \<and> se_conns s (dr_conn r) \<noteq> None \<and> (\<exists>i. dr_impl r = Some i \<and> result_ok i)"
  using assms by (auto simp: session_inv_def)

lemma put_conn_simps [simp]:
  "se_conns (put_conn A c w s) = (se_conns s)(c \<mapsto> w)" "se_results (put_conn A c w s) = se_results s"
  "se_next (put_conn A c w s) = se_next s" "se_leaked (put_conn A c w s) = se_leaked s"
  by (simp_all add: put_conn_def Let_def)

lemma put_impl_simps [simp]:
  "se_conns (put_impl k r i s) = se_conns s"
  "se_results (put_impl k r i s) = (se_results s)(k \<mapsto> r\<lparr>dr_impl := Some i\<rparr>)"
  "se_next (put_impl k r i s) = se_next s" "se_leaked (put_impl k r i s) = se_leaked s"
  by (simp_all add: put_impl_def)

lemma session_inv_frame:
  "session_inv s \<Longrightarrow> se_conns t = se_conns s \<Longrightarrow> se_results t = se_results s \<Longrightarrow> se_next t = se_next s \<Longrightarrow> session_inv t"
  by (simp add: session_inv_def results_of_def)

lemma session_inv_conn:
  assumes "session_inv s" "se_conns s c = Some w" "reachable w'" "results w' = results w"
    and "se_conns t = (se_conns s)(c \<mapsto> w')" "se_results t = se_results s" "se_next t = se_next s"
  shows "session_inv t"
proof -
  have "c < se_next s" "results w = card (results_of s c)" using session_invD(1) [OF assms(1,2)] by simp_all
  with assms show ?thesis by (auto simp: session_inv_def results_of_def)
qed

lemma session_inv_impl:
  assumes "session_inv s" "se_results s k = Some r" "result_ok i"
  shows "session_inv (put_impl k r i s)"
proof -
  have "results_of (put_impl k r i s) c = results_of s c" for c
    using assms(2) by (auto simp: results_of_def)
  with assms show ?thesis by (auto simp: session_inv_def)
qed

lemma finite_results: "session_inv s \<Longrightarrow> finite (results_of s c)"
  by (rule finite_subset [of _ "{..<se_next s}"]) (auto simp: results_of_def session_inv_def)

text \<open>A new result: it gets a fresh address, and the connection counts one more.\<close>

lemma session_inv_new_result:
  assumes inv: "session_inv s" and c: "se_conns s c = Some w" "reachable w'" "results w' = Suc (results w)"
    and i: "result_ok i"
    and t: "se_conns t = (se_conns s)(c \<mapsto> w')" "se_next t = Suc (se_next s)"
      "se_results t = (se_results s)(se_next s \<mapsto> \<lparr>dr_conn = c, dr_impl = Some i\<rparr>)"
  shows "session_inv t"
proof -
  have new: "se_results s (se_next s) = None"
    using session_invD(2) [OF inv, of "se_next s"] by (cases "se_results s (se_next s)") auto
  have "results_of t c = insert (se_next s) (results_of s c)" "se_next s \<notin> results_of s c"
    using t(3) new by (auto simp: results_of_def split: if_splits)
  then have "card (results_of t c) = results w'"
    using finite_results [OF inv] c session_invD(1) [OF inv c(1)] by simp
  moreover have "d \<noteq> c \<Longrightarrow> results_of t d = results_of s d" for d
    using t(3) new by (auto simp: results_of_def split: if_splits)
  ultimately show ?thesis
    using inv c i t session_invD(1) [OF inv c(1)] by (fastforce simp: session_inv_def)
qed

lemma session_inv_delete:
  assumes inv: "session_inv s" and k: "se_results s k = Some r"
    and c: "se_conns s (dr_conn r) = Some w" "reachable w'" "results w' = results w - 1"
    and t: "se_conns t = (se_conns s)(dr_conn r \<mapsto> w')" "se_next t = se_next s"
      "se_results t = (se_results s)(k := None)"
  shows "session_inv t"
proof -
  have "results_of t (dr_conn r) = results_of s (dr_conn r) - {k}"
    using t(3) k by (auto simp: results_of_def)
  moreover have "k \<in> results_of s (dr_conn r)" using k by (simp add: results_of_def)
  ultimately have "card (results_of t (dr_conn r)) = results w'"
    using finite_results [OF inv] c(3) session_invD(1) [OF inv c(1)] by simp
  moreover have "d \<noteq> dr_conn r \<Longrightarrow> results_of t d = results_of s d" for d
    using t(3) k by (auto simp: results_of_def)
  ultimately show ?thesis
    using inv c t session_invD(1) [OF inv c(1)] by (auto simp: session_inv_def)
qed

subsection \<open>The operations on connections\<close>

lemma results_keep [simp]:
  "results (release_callback_data w) = results w" "results (disconnect w) = results w"
  "results (preserve cb w) = results w" "results (destroy w) = results w"
  "results (drop_owner w) = results w" "results (finalize_pointer w) = results w"
proof -
  show r: "results (release_callback_data w) = results w" for w
    by (simp add: release_callback_data_def split: option.split)
  show d: "results (disconnect w) = results w" for w
    by (simp add: disconnect_def r)
  show "results (preserve cb w) = results w" for w
    by (simp add: preserve_def split: option.split)
  show e: "results (destroy w) = results w" for w
    by (simp add: destroy_def r d)
  show f: "results (drop_owner w) = results w" for w
    by (simp add: drop_owner_def e)
  show "results (finalize_pointer w) = results w"
    by (simp add: finalize_pointer_def f)
qed

lemma set_busy_handler_results: "set_busy_handler cb w = (x, w', ws) \<Longrightarrow> results w' = results w"
proof -
  assume a: "set_busy_handler cb w = (x, w', ws)"
  let ?v = "preserve cb (release_callback_data w)"
  have "results ?v = results w" by simp
  then show ?thesis
    using a by (auto simp: set_busy_handler_def check_connection_def abind_def areturn_def athrow_def Let_def
        simp del: results_keep split: robject.splits list.splits if_splits)
qed

lemma connection_release_results: "connection_release w = (x, w', ws) \<Longrightarrow> results w' = results w"
  by (auto simp: connection_release_def Let_def split: if_splits)

lemma checks_keep:
  "conn w = (x, w', ws) \<Longrightarrow> w' = w" "check_connection w = (x, w', ws) \<Longrightarrow> w' = w"
  "extension_load load w = (x, w', ws) \<Longrightarrow> w' = w" "in_transaction w = (b, w', ws) \<Longrightarrow> w' = w"
  by (auto simp: conn_def check_connection_def extension_load_def in_transaction_def abind_def areturn_def
      athrow_def split: if_splits load_result.splits option.splits)

lemma result_create_cases:
  assumes "ext_ptr w" "Connection.result_create prepared w = (x, w', ws)"
  shows "(\<exists>e. x = Inl e) \<and> w' = w \<or> x = Inr () \<and> prepared = Inr () \<and> results w' = Suc (results w)"
proof -
  have "drop_owner w = w" using assms(1) by (simp add: drop_owner_def use_count_def)
  then show ?thesis
    using assms(2) by (auto simp: Connection.result_create_def set_current_result_def check_connection_def
        conn_def abind_def areturn_def athrow_def split: if_splits sum.splits)
qed

lemma result_release_results: "Connection.result_release w = (x, w', ws) \<Longrightarrow> results w' = results w - 1"
  by (auto simp: Connection.result_release_def reset_current_result_def areturn_def split: if_splits)

lemma result_release_ok: "fst (Connection.result_release w) = Inr ()"
  by (simp add: Connection.result_release_def areturn_def)

text \<open>An operation on one connection.\<close>

lemma with_conn_inv:
  assumes inv: "session_inv s" and run: "with_conn A c m s = (x, t, ws)" and x: "\<not> undefined_behaviour x"
    and m: "\<And>w w' ws. se_conns s c = Some w \<Longrightarrow> reachable w \<Longrightarrow> m w = (x, w', ws) \<Longrightarrow> reachable w' \<and> results w' = results w"
  shows "session_inv t \<and> se_next t = se_next s \<and> se_results t = se_results s"
proof -
  obtain w where w: "se_conns s c = Some w"
    using run x by (cases "se_conns s c") (auto simp: with_conn_def athrow_def)
  then obtain w' ws' where w': "m w = (x, w', ws')" "t = put_conn A c w' s"
    using run by (auto simp: with_conn_def split: prod.splits)
  from session_invD(1) [OF inv w] m [OF w _ w'(1)]
  have "reachable w'" "results w' = results w" by simp_all
  from session_inv_conn [OF inv w this, of t] w'(2) show ?thesis by simp
qed

lemma with_conn_check_inv:
  assumes "session_inv s" "with_conn A c m s = (x, t, ws)" "\<not> undefined_behaviour x"
    and "\<And>w x w' ws. m w = (x, w', ws) \<Longrightarrow> w' = w"
  shows "session_inv t \<and> se_conns t = se_conns s \<and> se_results t = se_results s \<and> se_next t = se_next s"
proof -
  have "session_inv t \<and> se_next t = se_next s \<and> se_results t = se_results s"
    by (rule with_conn_inv [OF assms(1-3)]) (use assms(4) in blast)
  moreover have "se_conns t = se_conns s"
    using assms(2,4) by (auto simp: with_conn_def athrow_def split: option.splits prod.splits)
  ultimately show ?thesis by simp
qed

lemma heldD: "held s (Some c) \<Longrightarrow> \<exists>w. se_conns s c = Some w \<and> ext_ptr w"
  by (simp add: held_def)

lemma connect_inv:
  assumes inv: "session_inv s" and run: "r_connection_connect A path allow_ext flags vfs alt s = (x, t, ws)"
  shows "session_inv t"
proof -
  let ?open = "sqlite3_open_v2 A (se_sqlite s) (se_next s)"
  obtain y n where y: "connect (\<lambda>p f v. fst (?open p f v)) path allow_ext flags vfs alt = (y, n)"
    by (cases "connect (\<lambda>p f v. fst (?open p f v)) path allow_ext flags vfs alt") auto
  show ?thesis
  proof (cases y)
    case (Inl e)
    then have "se_conns t = se_conns s" "se_results t = se_results s" "se_next t = se_next s"
      using run y by (auto simp: r_connection_connect_def Let_def)
    then show ?thesis by (rule session_inv_frame [OF inv])
  next
    case (Inr w)
    have w: "reachable w" using y Inr by (blast intro: reachable.connected)
    have "results w = 0" using y Inr by (auto simp: connect_def Let_def split: open_result.splits)
    have none: "se_conns s (se_next s) = None"
      using session_invD(1) [OF inv, of "se_next s"] by (cases "se_conns s (se_next s)") auto
    then have "results_of s (se_next s) = {}"
      using inv by (fastforce simp: session_inv_def results_of_def)
    moreover have "se_conns t = (se_conns s)(se_next s \<mapsto> w)" "se_results t = se_results s" "se_next t = Suc (se_next s)"
      using run y Inr by (auto simp: r_connection_connect_def Let_def)
    moreover from this have "results_of t = results_of s" by (simp add: results_of_def fun_eq_iff)
    ultimately show ?thesis
      using inv w \<open>results w = 0\<close> by (auto simp: session_inv_def less_Suc_eq)
  qed
qed

lemma release_inv:
  assumes "session_inv s" "held s p" "r_connection_release A p s = (x, t, ws)"
  shows "session_inv t"
proof (cases p)
  case (Some c)
  then obtain w where w: "se_conns s c = Some w" "ext_ptr w" using heldD assms(2) by blast
  then have run: "with_conn A c connection_release s = (x, t, ws)"
    using assms(3) Some by (simp add: r_connection_release_def)
  moreover have "\<not> undefined_behaviour x"
    using run w by (auto simp: with_conn_def connection_release_def Let_def split: if_splits)
  ultimately show ?thesis
    using with_conn_inv [OF assms(1), of A c connection_release x t ws] w connection_release_results
      wstep.release reachable.next_call by (metis option.inject)
qed (use assms in \<open>simp add: r_connection_release_def\<close>)

lemma in_transaction_inv:
  assumes "session_inv s" "r_connection_in_transaction A p s = (x, t, ws)" "\<not> undefined_behaviour x"
  shows "session_inv t"
proof (cases p)
  case (Some c)
  let ?u = "\<lambda>w. if pConn w then w\<lparr>sq_autocommit := sqlite3_get_autocommit A c (se_sqlite s)\<rparr> else w"
  have u: "reachable w \<Longrightarrow> reachable (?u w)" "results (?u w) = results w" for w
    by (auto intro: reachable.next_call wstep.transaction)
  have "with_conn A c (\<lambda>w. in_transaction (?u w)) s = (x, t, ws)"
    using assms(2) Some by (simp add: r_connection_in_transaction_def get_raw_def)
  from with_conn_inv [OF assms(1) this assms(3)] show ?thesis
    using checks_keep(4) u by metis
qed (use assms in \<open>simp add: r_connection_in_transaction_def get_raw_def athrow_def\<close>)

lemma set_busy_handler_session_inv:
  assumes "session_inv s" "held s p" "r_set_busy_handler A p cb s = (x, t, ws)" "\<not> undefined_behaviour x"
  shows "session_inv t"
proof (cases p)
  case (Some c)
  then obtain w where w: "se_conns s c = Some w" "ext_ptr w" using heldD assms(2) by blast
  have "with_conn A c (set_busy_handler cb) s = (x, t, ws)"
    using assms(3) Some by (simp add: r_set_busy_handler_def deref_def)
  from with_conn_inv [OF assms(1) this assms(4)] show ?thesis
    using w wstep.busy [OF w(2) _ assms(4)] set_busy_handler_results reachable.next_call
    by (metis option.inject)
qed (use assms in \<open>simp add: r_set_busy_handler_def deref_def athrow_def\<close>)

lemma session_inv_sqlite: "session_inv s \<Longrightarrow> session_inv (s\<lparr>se_sqlite := db\<rparr>)"
  by (rule session_inv_frame) simp_all

lemma copy_inv:
  assumes inv: "session_inv s" and held: "held s p" and run: "r_connection_copy_database A p q s = (x, t, ws)"
    and x: "\<not> undefined_behaviour x"
  shows "session_inv t"
proof -
  obtain a b wa wb where w: "p = Some a" "q = Some b" "se_conns s a = Some wa" "se_conns s b = Some wb"
    using run x by (auto simp: r_connection_copy_database_def get_raw_def athrow_def split: option.splits)
  have ptr: "ext_ptr wa" using held w by (simp add: held_def)
  obtain init rc1 rc2 msg db where bk: "sqlite3_backup A a b (se_sqlite s) = ((init, rc1, rc2, msg), db)"
    by (metis prod.exhaust)
  obtain y finished where y: "Connection.copy_to wa wb init rc1 rc2 msg = (y, finished)" by (metis prod.exhaust)
  let ?s = "if is_valid wb \<and> pConn wa then s\<lparr>se_sqlite := db\<rparr> else s"
  have ran: "with_conn A a (\<lambda>w. (y, copied finished w, [])) ?s = (x, t, ws)"
    using run w bk y by (simp add: r_connection_copy_database_def get_raw_def)
  have s: "session_inv ?s" "se_conns ?s a = Some wa" using w(3) inv session_inv_sqlite [OF inv, of db] by simp_all
  with ran have "x = y" by (auto simp: with_conn_def)
  then have "reachable (copied finished wa)"
    using wstep.copy [OF ptr y] x session_invD(1) [OF s] reachable.next_call by blast
  moreover have "results (copied finished w) = results w" for w by (simp add: copied_def)
  ultimately show ?thesis using with_conn_inv [OF s(1) ran x] s(2) by auto
qed

lemma import_inv:
  assumes "session_inv s" "held s p" "r_connection_import_file A p name value sep eol skip s = (x, t, ws)"
  shows "session_inv t"
proof (cases p)
  case (Some c)
  obtain w where w: "se_conns s c = Some w" "ext_ptr w" using heldD assms(2) Some by blast
  obtain y u ws1 where u: "with_conn A c conn s = (y, u, ws1)" by (cases "with_conn A c conn s") auto
  have "\<not> undefined_behaviour y"
    using u w by (auto simp: with_conn_def conn_def areturn_def athrow_def split: if_splits)
  from with_conn_check_inv [OF assms(1) u this checks_keep(1)] have u': "session_inv u" "se_conns u = se_conns s" by simp_all
  show ?thesis
  proof (cases y)
    case (Inl e)
    then show ?thesis using assms(3) u Some u' by (simp add: r_connection_import_file_def deref_def abind_def)
  next
    case (Inr z)
    obtain out db left ws2 where i: "RS_sqlite_import (import_tables A c) (c_str name) (c_str value) (read_file A (c_str value))
              (c_str sep) (c_str eol) (sint skip) (se_sqlite u, 0) = (out, (db, left), ws2)"
      by (metis prod.exhaust)
    have "t = put_conn A c (abandon left w) (u\<lparr>se_sqlite := db\<rparr>)"
      using assms(3) u Some Inr i w u'(2)
      by (simp add: r_connection_import_file_def deref_def abind_def with_conn_def)
    moreover have "pConn w" using u w Inr by (auto simp: with_conn_def conn_def athrow_def is_valid_def split: if_splits)
    then have "reachable (abandon left w)"
      using session_invD(1) [OF assms(1) w(1)] wstep.import_file [OF w(2)] reachable.next_call by blast
    ultimately show ?thesis
      using session_inv_conn [OF session_inv_sqlite [OF u'(1), of db], where c = c and w = w and w' = "abandon left w" and t = t] w u'(2)
      by (simp add: abandon_def)
  qed
qed (use assms in \<open>simp add: r_connection_import_file_def deref_def athrow_def\<close>)

lemma extension_load_inv:
  assumes "session_inv s" "r_extension_load A p file entry_point s = (x, t, ws)" "\<not> undefined_behaviour x"
  shows "session_inv t"
proof (cases p)
  case (Some c)
  let ?load = "sqlite3_load_extension A c (se_sqlite s) (c_str file) (c_str entry_point)"
  obtain y u ws1 where u: "with_conn A c (extension_load (\<lambda>enabled. fst (?load enabled))) s = (y, u, ws1)"
    by (cases "with_conn A c (extension_load (\<lambda>enabled. fst (?load enabled))) s") auto
  then have t: "x = y" "se_conns t = se_conns u" "se_results t = se_results u" "se_next t = se_next u"
    using assms(2) Some by (auto simp: r_extension_load_def deref_def Let_def)
  then have "\<not> undefined_behaviour y" using assms(3) by simp
  from with_conn_check_inv [OF assms(1) u this checks_keep(3)] have "session_inv u" by simp
  then show ?thesis by (rule session_inv_frame [OF _ t(2-4)])
qed (use assms in \<open>simp add: r_extension_load_def deref_def athrow_def\<close>)

subsection \<open>The operations on results\<close>

lemma result_ok_stmt [simp]: "result_ok (i\<lparr>ri_stmt := x\<rparr>) = result_ok i"
  by (simp add: result_ok_def params_safe_def)

lemma result_ok_attach [simp]: "result_ok (attach db i) = result_ok i"
  by (simp add: attach_def)

lemma sqlite_result_impl_ok: "sqlite_result_impl A c w sql db = (Inr i, db', ws) \<Longrightarrow> result_ok i"
  using result_impl_open_ok
  by (fastforce simp: sqlite_result_impl_def split: if_splits sum.splits prod.splits)

lemma create_and_send_query_inv:
  assumes inv: "session_inv s" and c: "held s (Some c)" and run: "create_and_send_query A c sql s = (x, t, ws)"
  shows "session_inv t"
proof -
  obtain w where w: "se_conns s c = Some w" "ext_ptr w" using heldD [OF c] by blast
  have reach: "reachable w" using session_invD(1) [OF inv w(1)] by simp
  obtain out db ws1 where out: "sqlite_result_impl A c w sql (se_sqlite s) = (out, db, ws1)"
    by (cases "sqlite_result_impl A c w sql (se_sqlite s)") auto
  obtain y w' ws2 where y: "Connection.result_create (rbind out (\<lambda>_. Inr ())) w = (y, w', ws2)"
    by (cases "Connection.result_create (rbind out (\<lambda>_. Inr ())) w") auto
  have reach': "reachable w'" using wstep.create [OF w(2) y] reach by (rule reachable.next_call [rotated])
  from result_create_cases [OF w(2) y] show ?thesis
  proof (elim disjE conjE exE)
    fix e
    assume "y = Inl e" "w' = w"
    then have "se_conns t = (se_conns s)(c \<mapsto> w)" "se_results t = se_results s" "se_next t = se_next s"
      using run w(1) out y by (auto simp: create_and_send_query_def Let_def)
    with session_inv_conn [OF inv w(1) reach, of t] show ?thesis by simp
  next
    assume y': "y = Inr ()" "rbind out (\<lambda>_. Inr ()) = Inr ()" "results w' = Suc (results w)"
    then obtain i where i: "out = Inr i" by (cases out) auto
    have ok: "result_ok i" using sqlite_result_impl_ok [of A c w sql "se_sqlite s" i db ws1] out i by simp
    have "se_conns t = (se_conns s)(c \<mapsto> w')" "se_next t = Suc (se_next s)"
      "se_results t = (se_results s)(se_next s \<mapsto> \<lparr>dr_conn = c, dr_impl = Some i\<rparr>)"
      using run w(1) out y y' i by (auto simp: create_and_send_query_def Let_def)
    then show ?thesis by (rule session_inv_new_result [OF inv w(1) reach' y'(3) ok])
  qed
qed

lemma result_create_inv:
  assumes inv: "session_inv s" and p: "held s p" and run: "r_result_create A p sql s = (x, t, ws)"
  shows "session_inv t"
proof (cases p)
  case (Some c)
  obtain w where w: "se_conns s c = Some w" "ext_ptr w" using heldD p Some by blast
  obtain y u ws1 where u: "with_conn A c check_connection s = (y, u, ws1)"
    by (cases "with_conn A c check_connection s") auto
  have "\<not> undefined_behaviour y"
    using u w by (auto simp: with_conn_def check_connection_def areturn_def athrow_def split: if_splits)
  from with_conn_check_inv [OF inv u this checks_keep(2)]
  have u': "session_inv u" "se_conns u = se_conns s" by simp_all
  have held: "held u (Some c)" using p Some u'(2) by (simp add: held_def)
  show ?thesis
  proof (cases y)
    case (Inl e)
    then have "t = u" using run u Some by (simp add: r_result_create_def deref_def abind_def)
    then show ?thesis using u' by simp
  next
    case (Inr z)
    then obtain ws2 where "create_and_send_query A c sql u = (x, t, ws2)"
      using run u Some by (auto simp: r_result_create_def deref_def abind_def split: prod.splits)
    then show ?thesis by (rule create_and_send_query_inv [OF u'(1) held])
  qed
qed (use inv run in \<open>simp add: r_result_create_def deref_def athrow_def\<close>)

lemma result_release_inv:
  assumes inv: "session_inv s" and run: "r_result_release A p s = (x, t, ws)"
  shows "session_inv t \<and> x = Inr ()"
proof (cases "\<exists>k r. p = Some k \<and> se_results s k = Some r")
  case True
  then obtain k r where k: "p = Some k" "se_results s k = Some r" by blast
  obtain w where w: "se_conns s (dr_conn r) = Some w" using session_invD(2) [OF inv k(2)] by auto
  obtain y w' ws2 where y: "Connection.result_release w = (y, w', ws2)" by (cases "Connection.result_release w") auto
  have "reachable w'" using wstep.close [OF y] session_invD(1) [OF inv w] reachable.next_call by blast
  moreover have "se_conns t = (se_conns s)(dr_conn r \<mapsto> w')" "se_next t = se_next s"
      "se_results t = (se_results s)(k := None)" "x = y"
    using run k w y by (auto simp: r_result_release_def delete_result_def with_conn_def Let_def)
  moreover have "y = Inr ()" using result_release_ok [of w] y by simp
  ultimately show ?thesis
    using session_inv_delete [OF inv k(2) w _ result_release_results [OF y], of t] by simp
qed (use inv run in \<open>auto simp: r_result_release_def areturn_def split: option.splits\<close>)

text \<open>A method of the implementation that keeps results well formed.\<close>

lemma as_result_inv:
  assumes inv: "session_inv s" and run: "as_result p (on_impl m) s = (x, t, ws)"
    and m: "\<And>i x i' ws. result_ok i \<Longrightarrow> m i = (x, i', ws) \<Longrightarrow> result_ok i'"
  shows "session_inv t"
proof (cases "\<exists>k r. p = Some k \<and> se_results s k = Some r")
  case True
  then obtain k r where k: "p = Some k" "se_results s k = Some r" by blast
  obtain i where i: "dr_impl r = Some i" "result_ok i" using session_invD(2) [OF inv k(2)] by auto
  obtain y i' ws' where y: "m (attach (se_sqlite s) i) = (y, i', ws')"
    by (cases "m (attach (se_sqlite s) i)") auto
  have "result_ok i'" using m [OF _ y] i(2) by simp
  from session_inv_impl [OF inv k(2) this] show ?thesis
    using run k i y by (simp add: as_result_def on_impl_def)
qed (use inv run in \<open>auto simp: as_result_def athrow_def split: option.splits\<close>)

lemma fetch_inv:
  assumes P: "packages_keep_data (env_packages (api_stmt A))" and inv: "session_inv s"
    and run: "r_result_fetch A intr p n s = Some (x, t, ws)"
  shows "session_inv t \<and> \<not> undefined_behaviour x"
proof (cases "\<exists>k r. p = Some k \<and> se_results s k = Some r")
  case True
  then obtain k r where k: "p = Some k" "se_results s k = Some r" by blast
  obtain i where i: "dr_impl r = Some i" "result_ok i" using session_invD(2) [OF inv k(2)] by auto
  obtain i' where i': "db_fetch (api_stmt A) intr (sint n) (attach (se_sqlite s) i) = Some (x, i', ws)" "t = put_impl k r i' s"
    using run k i by (auto simp: r_result_fetch_def)
  have "fetch_ok (sint n) (attach (se_sqlite s) i) x i'" using db_fetch_sound [OF P _ i'(1)] i(2) by simp
  then show ?thesis
    using session_inv_impl [OF inv k(2), of i'] i'(2) by (cases x) (auto simp: fetch_ok_def)
qed (use inv run in \<open>auto simp: r_result_fetch_def athrow_def split: option.splits\<close>)

lemma column_info_inv:
  assumes P: "packages_keep_data (env_packages (api_stmt A))" and inv: "session_inv s"
    and run: "r_result_column_info A p s = (x, t, ws)"
  shows "session_inv t"
proof (rule as_result_inv [OF inv run [unfolded r_result_column_info_def]])
  fix i x i' ws
  assume ok: "result_ok i" and "db_get_column_info (api_stmt A) i = (x, i', ws)"
  moreover obtain y j ws1 where "get_column_info (api_stmt A) i = (y, j, ws1)"
    by (cases "get_column_info (api_stmt A) i") auto
  ultimately show "result_ok i'"
    using get_column_info_sound [OF P ok] by (auto simp: db_get_column_info_def abind_def areturn_def)
qed

lemma finalize_inv: "session_inv s \<Longrightarrow> session_inv (collect_connection A c s)"
proof (cases "se_conns s c")
  case (Some w)
  assume inv: "session_inv s"
  have "reachable (finalize_pointer w)"
    using session_invD(1) [OF inv Some] wstep.collect reachable.next_call by blast
  from session_inv_conn [OF inv Some this, of "collect_connection A c s"] Some show ?thesis
    by (simp add: collect_connection_def)
qed (simp add: collect_connection_def)

lemma avalue_UB: "undefined_behaviour (rbind x (\<lambda>v. Inr (f v))) = undefined_behaviour x"
  by (cases x) simp_all

lemma run_call_inv:
  assumes P: "packages_keep_data (env_packages (api_stmt A))" and inv: "session_inv s"
    and c: "possible s c" "run_call A intr c s = Some (out, t, ws)" "\<not> undefined_behaviour out"
  shows "session_inv t"
proof (cases c)
  case (ResultBind p params)
  show ?thesis
  proof (rule as_result_inv [OF inv])
    show "as_result p (on_impl (db_bind (api_stmt A) params)) s = (fst (r_result_bind A p params s), t, ws)"
      using c(2) ResultBind by (auto simp: avalue_run r_result_bind_def)
  next
    fix i x i' ws
    show "result_ok i \<Longrightarrow> db_bind (api_stmt A) params i = (x, i', ws) \<Longrightarrow> result_ok i'"
      using db_bind_ok [of i params "api_stmt A" x i' ws] c(1) ResultBind by simp
  qed
next
  case (ResultFetch p n)
  then obtain x where "r_result_fetch A intr p n s = Some (x, t, ws)"
    using c(2) by (auto simp: avalue_run split: option.splits)
  then show ?thesis using fetch_inv [OF P inv] by blast
next
  case (PlaceholderNames p)
  then obtain x where "as_result p (on_impl (\<lambda>i. areturn (get_placeholder_names (api_stmt A) i) i)) s = (x, t, ws)"
    using c(2) by (auto simp: avalue_run r_result_get_placeholder_names_def)
  then show ?thesis by (rule as_result_inv [OF inv]) (simp add: areturn_def)
next
  case (RowsFetched p)
  then obtain x where "as_result p (on_impl (\<lambda>i. areturn (n_rows_fetched i) i)) s = (x, t, ws)"
    using c(2) by (auto simp: avalue_run r_result_rows_fetched_def db_n_rows_fetched_def)
  then show ?thesis by (rule as_result_inv [OF inv]) (simp add: areturn_def)
next
  case (RowsAffected p)
  then obtain x where "as_result p (on_impl (\<lambda>i. areturn (n_rows_affected (api_stmt A) i) i)) s = (x, t, ws)"
    using c(2) by (auto simp: avalue_run r_result_rows_affected_def db_n_rows_affected_def)
  then show ?thesis by (rule as_result_inv [OF inv]) (simp add: areturn_def)
next
  case (HasCompleted p)
  then show ?thesis
    using c(2) inv by (auto simp: avalue_run r_result_has_completed_def as_result_def areturn_def athrow_def
        split: option.splits)
next
  case (InTransaction p)
  then show ?thesis using c(2,3) in_transaction_inv [OF inv] by (auto simp: avalue_run avalue_UB)
next
  case (SetBusyHandler p cb)
  then show ?thesis using c set_busy_handler_session_inv [OF inv] by (auto simp: avalue_run avalue_UB)
next
  case (ExtensionLoad p lib entry_point)
  then show ?thesis using c(2,3) extension_load_inv [OF inv] by (auto simp: avalue_run avalue_UB)
next
  case (CopyDatabase p q)
  then show ?thesis using c copy_inv [OF inv] by (auto simp: avalue_run avalue_UB)
qed (use c inv connect_inv [OF inv] release_inv [OF inv] import_inv [OF inv]
    result_create_inv [OF inv] result_release_inv [OF inv] column_info_inv [OF P inv]
    in \<open>auto simp: avalue_run r_connection_valid_def r_result_valid_def r_rsqliteVersion_def areturn_def\<close>)

lemma session_step_inv:
  assumes P: "packages_keep_data (env_packages (api_stmt A))"
  shows "session_step A s t \<Longrightarrow> session_inv s \<Longrightarrow> session_inv t"
proof (induction rule: session_step.induct)
  case (call s c intr busy out t ws)
  then show ?case using run_call_inv [OF P] run_busy_call by blast
next
  case (collect_con s c)
  then show ?case by (rule finalize_inv)
next
  case (collect_res s k)
  then show ?case
    using result_release_inv [of s A "Some k"] by (auto simp: collect_result_def prod_eq_iff)
next
  case (outside s db)
  then show ?case using session_inv_frame by fastforce
qed

lemma session_reachable_inv:
  assumes P: "packages_keep_data (env_packages (api_stmt A))"
  shows "session_reachable A s \<Longrightarrow> session_inv s"
proof (induction rule: session_reachable.induct)
  case (start db)
  then show ?case by (simp add: session_start_def session_inv_def)
next
  case (step s t)
  then show ?case using session_step_inv [OF P] by blast
qed

end
