(* ===== verification/SessionProps.thy ===== *)
theory SessionProps
  imports SessionRun ResultRunProps
begin

text \<open>
  Properties of whole sessions: a result always holds a live connection; which calls can be
  undefined, and only those; a released result is refused by every call.
\<close>

subsection \<open>A concrete session\<close>

text \<open>
  The database is the number of prepared statements not finalized; every statement gives one
  row, its state is whether it did.
\<close>

definition demo_stmt :: "(int, bool) stmt stmt_env" where
  "demo_stmt =
     \<lparr>sqlite3_step = (\<lambda>(db, b). if b then (SQLITE_DONE, (db, b)) else (SQLITE_ROW, (db, True))),
      sqlite3_reset = (\<lambda>(db, _). (db, False)), sqlite3_clear_bindings = id, sqlite3_bind = (\<lambda>s _ _. s),
      stmt_row = (\<lambda>_. int_row 1), sqlite3_column_count = (\<lambda>_. 1), sqlite3_column_name = (\<lambda>_ _. ''x''), sqlite3_bind_parameter_count = (\<lambda>_. 0),
      sqlite3_bind_parameter_name = (\<lambda>_ _. None), sqlite3_total_changes = (\<lambda>_. 0),
      sqlite3_errmsg = (\<lambda>_. ''not an error''), env_packages = std_packages, env_text = undefined,
      env_dates = undefined\<rparr>"

definition demo_api :: "(int, bool) api" where
  "demo_api =
     \<lparr>api_stmt = demo_stmt, sqlite3_open_v2 = (\<lambda>db c path flags vfs. (OpenOk, db)), sqlite3_close_v2 = (\<lambda>_. id),
      sqlite3_prepare_v2 = (\<lambda>c db sql. Prepared (db + 1, False) None), sqlite3_finalize = (\<lambda>(db, _). db - 1),
      sqlite3_get_autocommit = (\<lambda>_ _. True),
      sqlite3_backup = (\<lambda>a b db. ((a \<noteq> b, BackupDone, BackupOk, ''not an error''), db)),
      sqlite3_load_extension = (\<lambda>c db file entry enabled. (if enabled then LoadOk else LoadFailed (Some ''not authorized''), db)),
      import_tables = (\<lambda>_. \<lparr>prepare_query = (\<lambda>_ db. (Some 1, db + 1)), insert_step = (\<lambda>_ db. (InsertDone, db)),
        insert_reset = (\<lambda>db. (True, db)), finalize_query = (\<lambda>db. db - 1), db_errmsg = (\<lambda>_. ''no such table'')\<rparr>),
      read_file = (\<lambda>_. None), sqlite3_libversion = ''3'', SQLITE_VERSION = ''3'',
      null_pointer_error = Stop ''bad_weak_ptr''\<rparr>"

definition demo_connected :: "(int, bool) session" where
  "demo_connected = (session_start 0)\<lparr>se_conns := (\<lambda>_. None)(0 \<mapsto> world0), se_next := 1\<rparr>"

definition demo_impl :: "(int, bool) stmt result_impl" where
  "demo_impl =
     \<lparr>ri_stmt = (1, True), ri_names = [''x''], ri_nparams = 0, ri_complete = False, ri_ready = True, ri_nrows = 0,
      ri_total_changes_start = 0, ri_params = [], ri_group = 0, ri_groups = 0, ri_types = [DT_UNKNOWN],
      ri_with_alt_types = False\<rparr>"

definition demo_queried :: "(int, bool) session" where
  "demo_queried =
     \<lparr>se_sqlite = 1, se_conns = (\<lambda>_. None)(0 \<mapsto> world0\<lparr>results := 1, sq_stmts := 1\<rparr>),
      se_results = (\<lambda>_. None)(1 \<mapsto> \<lparr>dr_conn = 0, dr_impl = Some demo_impl\<rparr>), se_next = 2, se_leaked = 0\<rparr>"

lemma demo_keeps [simp]: "packages_keep_data (env_packages (api_stmt demo_api))"
  by (simp add: demo_api_def demo_stmt_def)

lemma demo_connect:
  "run_call demo_api intr (Connect ''db'' False 0 [] False) (session_start 0) = Some (Inr (RConnection 0), demo_connected, [])"
  by (simp add: avalue_def r_connection_connect_def connect_def demo_api_def session_start_def abind_def areturn_def
      demo_connected_def world0_def fun_eq_iff Let_def)

lemma demo_connected_fields [simp]:
  "se_conns demo_connected = (\<lambda>_. None)(0 \<mapsto> world0)" "se_results demo_connected = (\<lambda>_. None)"
  "se_sqlite demo_connected = 0" "se_next demo_connected = 1" "se_leaked demo_connected = 0"
  by (simp_all add: demo_connected_def session_start_def)

lemma demo_result: "sqlite_result_impl demo_api 0 world0 ''SELECT 1 AS x'' 0 = (Inr demo_impl, 1, [])"
proof -
  have st: "result_impl_start demo_stmt False (1, False) =
      demo_impl\<lparr>ri_stmt := (1, False), ri_ready := False\<rparr>"
    by (simp add: result_impl_start_def demo_impl_def demo_stmt_def get_initial_field_types_def
        get_column_names_def Let_def)
  have "step demo_stmt (demo_impl\<lparr>ri_stmt := (1, False)\<rparr>) = (Inr (), demo_impl, [])"
    by (subst step_row [of _ _ "(1, True)"]) (simp_all add: demo_stmt_def demo_impl_def)
  then have "result_impl_open demo_stmt (result_impl_start demo_stmt False (1, False)) = (Inr (), demo_impl, [])"
    unfolding st
    by (simp add: result_impl_open_def after_bind_def result_init_def amodify_def abind_def demo_impl_def)
  then show ?thesis
    by (simp add: sqlite_result_impl_def is_valid_def world0_def demo_api_def prepare_def ret_def)
      (simp add: demo_impl_def)
qed

lemma create_and_send_query_ok:
  assumes "se_conns s c = Some w" "sqlite_result_impl A c w sql (se_sqlite s) = (Inr i, db, ws)"
    and "Connection.result_create (Inr ()) w = (Inr (), w', [])" "\<not> sq_closing w'"
  shows "create_and_send_query A c sql s = (Inr (se_next s),
    s\<lparr>se_sqlite := db, se_conns := (se_conns s)(c \<mapsto> w'), se_next := Suc (se_next s),
      se_results := (se_results s)(se_next s \<mapsto> \<lparr>dr_conn = c, dr_impl = Some i\<rparr>)\<rparr>, ws)"
  using assms by (simp add: create_and_send_query_def put_conn_def)

lemma demo_query:
  "run_call demo_api intr (ResultCreate (Some 0) ''SELECT 1 AS x'') demo_connected = Some (Inr (RResult 1), demo_queried, [])"
proof -
  have w: "Connection.result_create (Inr ()) world0 = (Inr (), world0\<lparr>results := 1, sq_stmts := 1\<rparr>, [])"
    "\<not> sq_closing (world0\<lparr>results := 1, sq_stmts := 1\<rparr>)" "check_connection world0 = (Inr (), world0, [])"
    by (simp_all add: Connection.result_create_def check_connection_def conn_def is_valid_def
        set_current_result_def world0_def abind_def areturn_def)
  have "with_conn demo_api 0 check_connection demo_connected = (Inr (), demo_connected, [])"
    using w(2,3) by (simp add: with_conn_def put_conn_def)
  moreover have "create_and_send_query demo_api 0 ''SELECT 1 AS x'' demo_connected = (Inr 1, demo_queried, [])"
    by (subst create_and_send_query_ok [OF _ _ w(1,2)])
      (simp_all add: demo_result demo_queried_def demo_connected_def session_start_def numeral_2_eq_2)
  ultimately show ?thesis
    by (simp add: avalue_run r_result_create_def deref_def abind_def del: One_nat_def)
qed

lemma demo_reachable: "session_reachable demo_api demo_connected" "session_reachable demo_api demo_queried"
proof -
  have "session_step demo_api (session_start 0) demo_connected"
    by (rule session_step.call [where busy = "[]", OF _ demo_connect [folded run_busy_none]]) simp_all
  then show 1: "session_reachable demo_api demo_connected"
    by (rule session_reachable.step [OF session_reachable.start])
  have "session_step demo_api demo_connected demo_queried"
    by (rule session_step.call [where busy = "[]", OF _ demo_query [folded run_busy_none]])
      (simp_all add: held_def demo_connected_def world0_def)
  then show "session_reachable demo_api demo_queried"
    by (rule session_reachable.step [OF 1])
qed

subsection \<open>Results hold their connection\<close>

text \<open>
  C12: whatever R does, a result it has holds a connection object that exists, in a state the
  connection can reach, that counts exactly the results holding it; so the object is not
  deleted and SQLite's handle, which the result uses, is not freed.
\<close>

theorem live_result_holds_connection:
  assumes "packages_keep_data (env_packages (api_stmt A))" "session_reachable A s" "se_results s k = Some r"
  shows "\<exists>w. se_conns s (dr_conn r) = Some w \<and> reachable w
    \<and> results w = card {j. \<exists>r'. se_results s j = Some r' \<and> dr_conn r' = dr_conn r}
    \<and> 0 < use_count w \<and> \<not> sqlite_freed w"
proof -
  note inv = session_reachable_inv [OF assms(1,2)]
  obtain w where w: "se_conns s (dr_conn r) = Some w" using session_invD(2) [OF inv assms(3)] by auto
  note c = session_invD(1) [OF inv w]
  have "k \<in> results_of s (dr_conn r)" using assms(3) by (simp add: results_of_def)
  then have "0 < results w" using c finite_results [OF inv] by (auto simp: card_gt_0_iff)
  moreover have "world_inv w" using c reachable_inv by blast
  ultimately show ?thesis
    using w c by (auto simp: use_count_def sqlite_freed_def world_inv_def results_of_def)
qed

theorem live_result_holds_connection_witness:
  "\<exists>w. se_conns demo_queried 0 = Some w \<and> 0 < use_count w \<and> \<not> sqlite_freed w"
  using live_result_holds_connection [OF demo_keeps demo_reachable(2), of 1 "\<lparr>dr_conn = 0, dr_impl = Some demo_impl\<rparr>"]
  by (auto simp: demo_queried_def)


subsection \<open>Which calls can be undefined\<close>

definition open_at :: "('db, 'st) session \<Rightarrow> ptr \<Rightarrow> bool" where
  "open_at s p \<longleftrightarrow> (\<exists>c w. p = Some c \<and> se_conns s c = Some w \<and> is_valid w)"

text \<open>
  The calls the code does not guard: a raw pointer that is NULL, a closed connection asked for its
  transaction or copied from, a backup SQLite refuses to start, an import that comes to a line its
  reader leaves the buffer on, an empty timeout vector, an extension that fails without a message.
\<close>

fun risky :: "('db, 'st) api \<Rightarrow> ('db, 'st) session \<Rightarrow> call \<Rightarrow> bool" where
  "risky A s (InTransaction p) \<longleftrightarrow> \<not> open_at s p"
| "risky A s (CopyDatabase from to) \<longleftrightarrow> from = None \<or> to = None \<or>
     open_at s to \<and> (\<not> open_at s from \<or> \<not> fst (fst (sqlite3_backup A (the from) (the to) (se_sqlite s))))"
| "risky A s (ImportCall p name value sep eol skip) \<longleftrightarrow> open_at s p \<and>
     import_overruns (import_tables A (the p)) (c_str name) (c_str value) (read_file A (c_str value))
       (c_str sep) (c_str eol) (sint skip) (se_sqlite s)"
| "risky A s (SetBusyHandler p cb) \<longleftrightarrow> open_at s p \<and> (\<exists>a. cb = RIntegers a [])"
| "risky A s (ExtensionLoad p lib entry_point) \<longleftrightarrow> open_at s p \<and>
     (\<exists>w. se_conns s (the p) = Some w \<and>
       fst (sqlite3_load_extension A (the p) (se_sqlite s) (c_str lib) (c_str entry_point) (sq_extensions w)) = LoadFailed None)"
| "risky A s _ \<longleftrightarrow> False"

text \<open>
  And the calls during which SQLite finds a database locked and asks a handler that is not safe: a
  NULL one, that of a connection that was disconnected, one that fails to answer with an integer.
\<close>

definition risky_handler :: "(nat \<times> r_answer) list \<Rightarrow> nat list \<Rightarrow> ('db, 'st) session \<Rightarrow> bool" where
  "risky_handler busy cs s \<longleftrightarrow>
     (\<exists>(c, ans) \<in> set busy. c \<in> set cs \<and> (\<exists>w. se_conns s c = Some w \<and> unsafe_handler w ans))"

lemma risky_handler_simps [simp]:
  "\<not> risky_handler [] cs s" "\<not> risky_handler busy [] s"
  "risky_handler ((c, ans) # busy) cs s \<longleftrightarrow>
     c \<in> set cs \<and> (\<exists>w. se_conns s c = Some w \<and> unsafe_handler w ans) \<or> risky_handler busy cs s"
  by (auto simp: risky_handler_def)

lemma busy_events_UB:
  assumes inv: "session_inv s"
  shows "undefined_behaviour (busy_events cs busy s) \<longleftrightarrow> risky_handler busy cs s"
proof (induction busy)
  case (Cons ev busy)
  obtain c ans where ev: "ev = (c, ans)" by (cases ev) auto
  show ?case
  proof (cases "se_conns s c")
    case (Some w)
    then have "undefined_behaviour (busy_event (\<lambda>_. ans) w) \<longleftrightarrow> unsafe_handler w ans"
      using session_invD(1) [OF inv Some] by (simp add: busy_event_unsafe)
    then show ?thesis
      using Cons Some ev busy_event_error [of "\<lambda>_. ans" w] by (cases "busy_event (\<lambda>_. ans) w") auto
  qed (use Cons ev in simp)
qed simp

lemma held_cases:
  assumes "held s p"
  obtains "p = None" | c w where "p = Some c" "se_conns s c = Some w" "ext_ptr w" "open_at s p = pConn w"
  using assms by (cases p) (auto simp: held_def open_at_def is_valid_def)

lemma with_conn_fst:
  "se_conns s c = Some w \<Longrightarrow> fst (with_conn A c m s) = fst (m w)"
  by (simp add: with_conn_def split: prod.split)

lemma in_transaction_UB:
  assumes "held s p"
  shows "undefined_behaviour (fst (r_connection_in_transaction A p s)) = (\<not> open_at s p)"
  using assms
  by (cases rule: held_cases)
    (auto simp: r_connection_in_transaction_def get_raw_def athrow_def with_conn_def in_transaction_def
      areturn_def open_at_def)

lemma copy_to_UB:
  "undefined_behaviour (fst (Connection.copy_to wa wb init rc1 rc2 msg)) \<longleftrightarrow> pConn wb \<and> (\<not> pConn wa \<or> \<not> init)"
  by (simp add: Connection.copy_to_def is_valid_def)

lemma copy_database_UB:
  assumes "held s p" "held s q"
  shows "undefined_behaviour (fst (r_connection_copy_database A p q s)) = risky A s (CopyDatabase p q)"
  using assms(1)
proof (cases rule: held_cases)
  case (2 a wa)
  note source = this
  from assms(2) show ?thesis
  proof (cases rule: held_cases)
    case (2 b wb)
    obtain init rc1 rc2 msg db where "sqlite3_backup A a b (se_sqlite s) = ((init, rc1, rc2, msg), db)"
      by (metis prod.exhaust)
    with source 2 copy_to_UB [of wa wb init rc1 rc2 msg] show ?thesis
      by (cases "Connection.copy_to wa wb init rc1 rc2 msg")
        (auto simp: r_connection_copy_database_def get_raw_def with_conn_def is_valid_def)
  qed (use source in \<open>simp add: r_connection_copy_database_def get_raw_def athrow_def\<close>)
qed (simp add: r_connection_copy_database_def get_raw_def athrow_def)

lemma set_busy_handler_UB:
  "undefined_behaviour (fst (set_busy_handler cb w)) \<longleftrightarrow> pConn w \<and> (\<exists>a. cb = RIntegers a [])"
proof (cases cb)
  case RNull
  have "busy_callback (release_callback_data w) = RNull"
    by (cases "busy_callback w") (simp_all add: release_callback_data_def)
  then show ?thesis
    using RNull by (auto simp: set_busy_handler_def check_connection_def abind_def areturn_def athrow_def
        is_valid_def preserve_def Let_def)
qed (auto simp: set_busy_handler_def check_connection_def abind_def areturn_def athrow_def is_valid_def
    preserve_def Let_def split: list.split)

lemma extension_load_UB:
  "undefined_behaviour (fst (extension_load load w)) \<longleftrightarrow> pConn w \<and> load (sq_extensions w) = LoadFailed None"
  by (auto simp: extension_load_def conn_def abind_def areturn_def athrow_def is_valid_def
      split: load_result.split option.split)


lemma with_conn_checked:
  assumes "se_conns s c = Some w" "m = conn \<or> m = check_connection"
  shows "\<exists>u ws. with_conn A c m s = (fst (m w), u, ws) \<and> se_conns u = se_conns s \<and> se_sqlite u = se_sqlite s"
proof -
  obtain x w' ws where m: "m w = (x, w', ws)" by (cases "m w") auto
  with assms(2) checks_keep(1,2) have "w' = w" by auto
  with m assms(1) show ?thesis by (auto simp: with_conn_def put_conn_def Let_def)
qed

lemma import_file_UB:
  assumes "held s p" "\<not> is_UB (null_pointer_error A)"
  shows "undefined_behaviour (fst (r_connection_import_file A p name value sep eol skip s))
    = risky A s (ImportCall p name value sep eol skip)"
  using assms(1)
proof (cases rule: held_cases)
  case (2 c w)
  from with_conn_checked [OF 2(2), of conn A] obtain u ws
    where "with_conn A c conn s = (fst (conn w), u, ws)" "se_sqlite u = se_sqlite s" "se_conns u = se_conns s" by blast
  with 2 show ?thesis
    by (simp add: r_connection_import_file_def deref_def abind_def conn_def is_valid_def areturn_def athrow_def
        with_conn_def flip: import_UB [of "c_str sep" "import_tables A c"] split: prod.split)
qed (use assms in \<open>simp add: r_connection_import_file_def deref_def athrow_def open_at_def\<close>)

lemma sqlite_result_impl_safe: "\<not> undefined_behaviour (fst (sqlite_result_impl A c w sql db))"
proof -
  have "prepare p = Inl e \<Longrightarrow> \<not> is_UB e" for p :: "('a \<times> 'b) prepared" and e
    by (auto simp: prepare_def ret_def warning_def ebind_def Let_def split: prepared.splits option.splits if_splits)
  moreover have "result_impl_open env (result_impl_start env alt vm) = (Inl e, r, ws) \<Longrightarrow> \<not> is_UB e"
    for env alt e r ws and vm :: "'a \<times> 'b"
    using result_impl_open_safe [of env alt vm] by simp
  ultimately show ?thesis
    by (auto simp: sqlite_result_impl_def split: sum.split prod.split)
qed

lemma result_create_safe:
  assumes "held s p" "\<not> is_UB (null_pointer_error A)"
  shows "\<not> undefined_behaviour (fst (r_result_create A p sql s))"
  using assms(1)
proof (cases rule: held_cases)
  case (2 c w)
  from with_conn_checked [OF 2(2), of check_connection A] obtain u ws
    where u: "with_conn A c check_connection s = (fst (check_connection w), u, ws)" "se_conns u = se_conns s" by blast
  obtain out db ws1 where out: "sqlite_result_impl A c w sql (se_sqlite u) = (out, db, ws1)"
    by (metis prod.exhaust)
  then have "\<not> undefined_behaviour out" using sqlite_result_impl_safe [of A c w sql "se_sqlite u"] by simp
  then have "\<not> undefined_behaviour (fst (create_and_send_query A c sql u))"
    using out u(2) 2
    by (cases out) (auto simp: create_and_send_query_def Connection.result_create_def check_connection_def conn_def
        abind_def areturn_def athrow_def Let_def split: prod.split)
  then show ?thesis
    using u 2 by (auto simp: r_result_create_def deref_def abind_def check_connection_def areturn_def athrow_def
        split: prod.split)
qed (use assms in \<open>simp add: r_result_create_def deref_def athrow_def\<close>)

lemma connect_safe: "\<not> undefined_behaviour (fst (r_connection_connect A path allow_ext flags vfs alt s))"
  by (simp add: r_connection_connect_def connect_def Let_def split: open_result.split option.split)

lemma release_safe: "held s p \<Longrightarrow> \<not> undefined_behaviour (fst (r_connection_release A p s))"
  by (erule held_cases) (simp_all add: r_connection_release_def with_conn_def connection_release_def Let_def
      split: prod.split)

lemma as_result_safe:
  assumes "session_inv s" "\<And>i. result_ok i \<Longrightarrow> \<not> undefined_behaviour (fst (m i))"
  shows "\<not> undefined_behaviour (fst (as_result p (on_impl m) s))"
proof (cases "\<exists>k r. p = Some k \<and> se_results s k = Some r")
  case True
  then obtain k r where k: "p = Some k" "se_results s k = Some r" by blast
  obtain i where "dr_impl r = Some i" "result_ok i" using session_invD(2) [OF assms(1) k(2)] by auto
  with k assms(2) [of "attach (se_sqlite s) i"] show ?thesis
    by (auto simp: as_result_def on_impl_def split: prod.split)
qed (auto simp: as_result_def athrow_def split: option.split)

lemma column_info_safe:
  assumes P: "packages_keep_data (env_packages env)" and ok: "result_ok i"
  shows "\<not> undefined_behaviour (fst (db_get_column_info env i))"
proof -
  obtain x t ws where t: "get_column_info env i = (x, t, ws)" by (cases "get_column_info env i") auto
  from get_column_info_sound [OF P ok t] t show ?thesis
    by (auto simp: db_get_column_info_def abind_def areturn_def)
qed


lemma run_call_UB:
  assumes inv: "session_inv s" and c: "possible s c"
    and A: "packages_keep_data (env_packages (api_stmt A))" "\<not> is_UB (null_pointer_error A)"
    and run: "run_call A intr c s = Some (out, t, ws)"
  shows "undefined_behaviour out \<longleftrightarrow> risky A s c"
proof (cases c)
  case (InTransaction p)
  then show ?thesis using run c in_transaction_UB [of s p A] by (auto simp: avalue_run avalue_UB)
next
  case (CopyDatabase p q)
  then have "held s p" "held s q" using c by simp_all
  from copy_database_UB [OF this, of A] CopyDatabase run show ?thesis
    by (auto simp: avalue_run avalue_UB simp del: risky.simps)
next
  case (ImportCall p name val sep eol skip)
  then have "held s p" using c by simp
  from import_file_UB [OF this A(2), of name val sep eol skip] ImportCall run show ?thesis
    by (auto simp: avalue_run avalue_UB simp del: risky.simps)
next
  case (SetBusyHandler p cb)
  then have "held s p" using c by simp
  then show ?thesis
  proof (cases rule: held_cases)
    case (2 b w)
    with SetBusyHandler run with_conn_fst [OF 2(2), where A = A and m = "set_busy_handler cb"] show ?thesis
      by (auto simp: avalue_run avalue_UB r_set_busy_handler_def deref_def set_busy_handler_UB [symmetric])
  qed (use SetBusyHandler run A in \<open>auto simp: avalue_run r_set_busy_handler_def deref_def athrow_def open_at_def\<close>)
next
  case (ExtensionLoad p lib entry_point)
  then have "held s p" using c by simp
  then show ?thesis
  proof (cases rule: held_cases)
    case (2 b w)
    let ?load = "\<lambda>e. fst (sqlite3_load_extension A b (se_sqlite s) (c_str lib) (c_str entry_point) e)"
    obtain x where "r_extension_load A p lib entry_point s = (x, t, ws)" "undefined_behaviour out = undefined_behaviour x"
      using ExtensionLoad run by (auto simp: avalue_run avalue_UB)
    then have "undefined_behaviour out = undefined_behaviour (fst (extension_load ?load w))"
      using 2 with_conn_fst [OF 2(2), where A = A and m = "extension_load ?load"]
      by (auto simp: r_extension_load_def deref_def Let_def split: prod.splits)
    with 2 ExtensionLoad show ?thesis by (simp add: extension_load_UB)
  qed (use ExtensionLoad run A in \<open>auto simp: avalue_run r_extension_load_def deref_def athrow_def open_at_def\<close>)
next
  case (ResultFetch p n)
  then obtain x where "r_result_fetch A intr p n s = Some (x, t, ws)" "undefined_behaviour out = undefined_behaviour x"
    using run by (auto simp: avalue_run avalue_UB split: option.splits)
  with fetch_inv [OF A(1) inv, of intr p n] ResultFetch show ?thesis by auto
next
  case (ResultBind p params)
  then have "\<not> undefined_behaviour (fst (r_result_bind A p params s))"
    using c by (auto simp: r_result_bind_def intro!: as_result_safe [OF inv] db_bind_safe)
  then show ?thesis using ResultBind run by (auto simp: avalue_run avalue_UB)
next
  case (ColumnInfo p)
  then have "\<not> undefined_behaviour (fst (r_result_column_info A p s))"
    by (auto simp: r_result_column_info_def intro!: as_result_safe [OF inv] column_info_safe [OF A(1)])
  then show ?thesis using ColumnInfo run by (auto simp: avalue_run avalue_UB)
next
  case (PlaceholderNames p)
  then have "\<not> undefined_behaviour (fst (r_result_get_placeholder_names A p s))"
    by (auto simp: r_result_get_placeholder_names_def areturn_def intro!: as_result_safe [OF inv])
  then show ?thesis using PlaceholderNames run by (auto simp: avalue_run avalue_UB)
next
  case (RowsFetched p)
  then have "\<not> undefined_behaviour (fst (r_result_rows_fetched p s))"
    by (auto simp: r_result_rows_fetched_def db_n_rows_fetched_def areturn_def intro!: as_result_safe [OF inv])
  then show ?thesis using RowsFetched run by (auto simp: avalue_run avalue_UB)
next
  case (RowsAffected p)
  then have "\<not> undefined_behaviour (fst (r_result_rows_affected A p s))"
    by (auto simp: r_result_rows_affected_def db_n_rows_affected_def areturn_def intro!: as_result_safe [OF inv])
  then show ?thesis using RowsAffected run by (auto simp: avalue_run avalue_UB)
next
  case (ResultCreate p sql)
  then have "held s p" using c by simp
  from result_create_safe [OF this A(2), of sql] show ?thesis
    using ResultCreate run by (auto simp: avalue_run avalue_UB)
next
  case (Connect path allow_ext flags vfs alt)
  with run connect_safe [of A path allow_ext flags vfs alt s] show ?thesis by (auto simp: avalue_run avalue_UB)
next
  case (ConnectionRelease p)
  then show ?thesis using run c release_safe [of s p A] by (auto simp: avalue_run avalue_UB)
next
  case (ResultRelease p)
  then show ?thesis using run by (auto simp: avalue_run avalue_UB dest: result_release_inv [OF inv])
qed (use run in \<open>auto simp: avalue_run avalue_UB r_connection_valid_def r_result_valid_def r_rsqliteVersion_def
      r_result_has_completed_def as_result_def athrow_def areturn_def split: option.splits\<close>)

lemma run_busy_UB:
  assumes inv: "session_inv s" and c: "possible s c"
    and A: "packages_keep_data (env_packages (api_stmt A))" "\<not> is_UB (null_pointer_error A)"
    and run: "run_busy A intr busy c s = Some (out, t, ws)"
  shows "undefined_behaviour out \<longleftrightarrow> risky A s c \<or> risky_handler busy (works_on s c) s"
  using run_call_UB [OF inv c A, of intr out t ws] busy_events_UB [OF inv, of "works_on s c" busy]
    busy_events_error [of "works_on s c" busy s] run
  by (cases "busy_events (works_on s c) busy s") (auto simp: run_busy_def athrow_def)

text \<open>
  C13: in any session, whatever R calls with whatever arguments, and whatever locks SQLite finds and
  handlers it asks meanwhile, a call that returns is undefined exactly when it is one of the calls
  the code leaves unguarded (\<open>risky\<close>), or a handler SQLite asks is NULL, belongs to a disconnected
  connection or does not answer with an integer (\<open>risky_handler\<close>).  So creating, binding, fetching and
  releasing results never is unless an unsafe handler is asked, and connecting, disconnecting and
  asking about results never is at all.
\<close>

theorem undefined_calls:
  assumes "packages_keep_data (env_packages (api_stmt A))" "\<not> is_UB (null_pointer_error A)"
    and "session_reachable A s" "possible s c" "run_busy A intr busy c s = Some (out, t, ws)"
  shows "undefined_behaviour out \<longleftrightarrow> risky A s c \<or> risky_handler busy (works_on s c) s"
  by (rule run_busy_UB [OF session_reachable_inv [OF assms(1,3)] assms(4,1,2,5)])

text \<open>After \<open>sqliteSetBusyHandler(con, NULL)\<close>, the connection with its result.\<close>

definition demo_null :: "(int, bool) session" where
  "demo_null = demo_queried\<lparr>se_conns := (\<lambda>_. None)(0 \<mapsto> world0\<lparr>results := 1, sq_stmts := 1, sq_handler := BusyCallback None\<rparr>)\<rparr>"

lemma demo_set_null: "run_call demo_api intr (SetBusyHandler (Some 0) RNull) demo_queried = Some (Inr RNilValue, demo_null, [])"
  by (simp add: avalue_run r_set_busy_handler_def deref_def with_conn_def set_busy_handler_def check_connection_def
      is_valid_def abind_def areturn_def Let_def release_callback_data_def preserve_def put_conn_def
      demo_null_def demo_queried_def world0_def fun_eq_iff)

lemma demo_null_reachable: "session_reachable demo_api demo_null"
proof -
  have "session_step demo_api demo_queried demo_null"
    by (rule session_step.call [where busy = "[]", OF _ demo_set_null [folded run_busy_none]])
      (simp_all add: held_def demo_queried_def world0_def)
  then show ?thesis by (rule session_reachable.step [OF demo_reachable(2)])
qed

theorem undefined_calls_witness:
  "risky demo_api demo_queried (InTransaction None) \<and>
   \<not> risky demo_api demo_connected (ResultCreate (Some 0) ''SELECT 1 AS x'') \<and>
   risky_handler [(0, Answers [0])] (works_on demo_null (ResultFetch (Some 1) 5)) demo_null"
proof (intro conjI)
  have null: "\<not> is_UB (null_pointer_error demo_api)" by (simp add: demo_api_def)
  have "run_busy demo_api (\<lambda>_. False) [] (InTransaction None) demo_queried =
      Some (Inl (UB ''null connection pointer''), demo_queried, [])"
    by (simp add: avalue_run r_connection_in_transaction_def get_raw_def athrow_def)
  from undefined_calls [OF demo_keeps null demo_reachable(2) _ this]
  show "risky demo_api demo_queried (InTransaction None)" by (simp add: held_def)
  have "run_busy demo_api (\<lambda>_. False) [] (ResultCreate (Some 0) ''SELECT 1 AS x'') demo_connected = Some (Inr (RResult 1), demo_queried, [])"
    using demo_query by simp
  from undefined_calls [OF demo_keeps null demo_reachable(1) _ this]
  show "\<not> risky demo_api demo_connected (ResultCreate (Some 0) ''SELECT 1 AS x'')"
    by (simp add: held_def world0_def)
  have run: "run_busy demo_api (\<lambda>_. False) [(0, Answers [0])] (ResultFetch (Some 1) 5) demo_null
      = Some (Inl (UB ''cpp11::function of a null pointer''), demo_null, [])"
    by (simp add: run_busy_def statement_handle_def busy_event_def demo_null_def demo_queried_def athrow_def)
  from undefined_calls [OF demo_keeps null demo_null_reachable _ this]
  show "risky_handler [(0, Answers [0])] (works_on demo_null (ResultFetch (Some 1) 5)) demo_null" by simp
qed


subsection \<open>A released result\<close>

fun result_argument :: "call \<Rightarrow> ptr option" where
  "result_argument (ResultFetch p _) = Some p"
| "result_argument (ResultBind p _) = Some p"
| "result_argument (HasCompleted p) = Some p"
| "result_argument (RowsFetched p) = Some p"
| "result_argument (RowsAffected p) = Some p"
| "result_argument (ColumnInfo p) = Some p"
| "result_argument (PlaceholderNames p) = Some p"
| "result_argument _ = None"

lemma release_results:
  assumes "run_call A intr (ResultRelease (Some k)) s = Some (out, t, ws)" "session_inv s"
  shows "out = Inr RNilValue \<and> se_results t = (se_results s)(k := None)"
proof -
  obtain x where x: "r_result_release A (Some k) s = (x, t, ws)" "out = rbind x (\<lambda>v. Inr RNilValue)"
    using assms(1) by (auto simp: avalue_run)
  moreover have "se_results t = (se_results s)(k := None)"
  proof (cases "se_results s k")
    case (Some r)
    then show ?thesis using x(1) session_invD(2) [OF assms(2) Some]
      by (auto simp: r_result_release_def delete_result_def with_conn_def athrow_def Let_def split: prod.splits)
  qed (use x in \<open>auto simp: r_result_release_def areturn_def\<close>)
  ultimately show ?thesis using result_release_inv [OF assms(2) x(1)] by simp
qed

lemma no_result_refused:
  assumes "result_argument c = Some (Some k)" "se_results s k = None"
  shows "run_call A intr c s = Some (Inl (Stop ''Invalid result set''), s, [])"
  using assms
  by (cases c) (simp_all add: avalue_run as_result_def athrow_def r_result_fetch_def r_result_bind_def r_result_has_completed_def
      r_result_rows_fetched_def r_result_rows_affected_def r_result_column_info_def r_result_get_placeholder_names_def)

text \<open>
  Releasing a result always succeeds and removes that result only.  From then on every
  operation on it is refused with \<open>Invalid result set\<close> and changes nothing, it is not valid, and
  releasing it again does nothing.
\<close>

lemma released_result:
  assumes "packages_keep_data (env_packages (api_stmt A))" "session_reachable A s"
    and "run_call A intr (ResultRelease (Some k)) s = Some (out, t, ws)"
  shows "out = Inr RNilValue \<and> se_results t = (se_results s)(k := None)
    \<and> (\<forall>c. result_argument c = Some (Some k) \<longrightarrow> run_call A intr c t = Some (Inl (Stop ''Invalid result set''), t, []))
    \<and> run_call A intr (ResultValid (Some k)) t = Some (Inr (RBool False), t, [])
    \<and> run_call A intr (ResultRelease (Some k)) t = Some (Inr RNilValue, t, [])"
proof -
  note r = release_results [OF assms(3) session_reachable_inv [OF assms(1,2)]]
  then have "se_results t k = None" by simp
  with r no_result_refused [of _ k t] show ?thesis
    by (auto simp: avalue_run r_result_valid_def r_result_release_def areturn_def)
qed

lemma released_result_witness:
  "\<exists>t. run_call demo_api (\<lambda>_. False) (RowsFetched (Some 1)) t = Some (Inl (Stop ''Invalid result set''), t, [])
    \<and> run_call demo_api (\<lambda>_. False) (RowsFetched (Some 1)) demo_queried = Some (Inr (RInt 0), demo_queried, [])"
proof -
  obtain out t ws where t: "run_call demo_api (\<lambda>_. False) (ResultRelease (Some 1)) demo_queried = Some (out, t, ws)"
    by (simp add: avalue_def) (metis prod.exhaust)
  have "run_call demo_api (\<lambda>_. False) (RowsFetched (Some 1)) t = Some (Inl (Stop ''Invalid result set''), t, [])"
    using released_result [OF demo_keeps demo_reachable(2) t] by (metis result_argument.simps(4))
  moreover have "run_call demo_api (\<lambda>_. False) (RowsFetched (Some 1)) demo_queried = Some (Inr (RInt 0), demo_queried, [])"
    by (simp add: avalue_run r_result_rows_fetched_def db_n_rows_fetched_def as_result_def on_impl_def areturn_def
        put_impl_def attach_def n_rows_fetched_def demo_queried_def demo_impl_def)
  ultimately show ?thesis by blast
qed

end
