(* ===== verification/SessionLeaks.thy ===== *)
theory SessionLeaks
  imports SessionProps
begin

text \<open>
  Which prepared statements leak: over a whole session the statements that are prepared and not
  finalized are those of the results R has and those that failed imports left on a connection.
  What SQLite's functions do to their number is assumed (\<open>counts_statements\<close>); that every other path
  through the code, failures included, finalizes what it prepared is proved.
\<close>

subsection \<open>Actions that leave a quantity alone\<close>

definition leaves :: "('s \<Rightarrow> 'q) \<Rightarrow> ('s, 'a) act \<Rightarrow> bool" where
  "leaves q m \<longleftrightarrow> (\<forall>s x t ws. m s = (x, t, ws) \<longrightarrow> q t = q s)"

lemma leavesI:
  assumes "\<And>s. q (fst (snd (m s))) = q s"
  shows "leaves q m"
  unfolding leaves_def
proof (intro allI impI)
  fix s x t ws
  assume "m s = (x, t, ws)"
  then show "q t = q s" using assms [of s] by simp
qed

lemma leavesD: "leaves q m \<Longrightarrow> m s = (x, t, ws) \<Longrightarrow> q t = q s"
  by (simp add: leaves_def)

lemma leaves_run: "leaves q m \<Longrightarrow> q (fst (snd (m s))) = q s"
  by (cases "m s") (auto simp: leaves_def)

lemma leaves_basic: "leaves q (areturn x)" "leaves q (athrow e)" "leaves q (alift m)"
  by (auto simp: leaves_def areturn_def athrow_def alift_def split: sum.splits prod.splits)

lemma leaves_abind: "leaves q m \<Longrightarrow> (\<And>x. leaves q (k x)) \<Longrightarrow> leaves q (abind m k)"
  unfolding leaves_def abind_def by (fastforce split: prod.splits sum.splits)

lemma leaves_afor: "(\<And>x. x \<in> set xs \<Longrightarrow> leaves q (m x)) \<Longrightarrow> leaves q (afor m xs)"
proof (induction xs)
  case (Cons x xs)
  then have "leaves q (abind (m x) (\<lambda>_. afor m xs))" by (intro leaves_abind) simp_all
  then show ?case by (simp add: leaves_def)
qed (simp add: leaves_def)

lemma leaves_if: "leaves q m \<Longrightarrow> leaves q k \<Longrightarrow> leaves q (if b then m else k)"
  by simp

lemma leaves_cond: "leaves q m \<Longrightarrow> leaves q k \<Longrightarrow> leaves q (\<lambda>s. if b s then m s else k s)"
  by (simp add: leaves_def)

lemma leaves_after: "leaves q m \<Longrightarrow> (\<And>s. q (u s) = q s) \<Longrightarrow> leaves q (\<lambda>s. m (u s))"
  by (simp add: leaves_def)

subsection \<open>A result and its statement\<close>

text \<open>\<open>f\<close> is a quantity of the statement that SQLite's functions on it leave alone.\<close>

definition statement_keeps :: "'vm stmt_env \<Rightarrow> ('vm \<Rightarrow> 'q) \<Rightarrow> bool" where
  "statement_keeps env f \<longleftrightarrow>
     (\<forall>vm. f (snd (sqlite3_step env vm)) = f vm) \<and> (\<forall>vm. f (sqlite3_reset env vm) = f vm) \<and>
     (\<forall>vm. f (sqlite3_clear_bindings env vm) = f vm) \<and> (\<forall>vm j v. f (sqlite3_bind env vm j v) = f vm)"

abbreviation of_stmt :: "('vm \<Rightarrow> 'q) \<Rightarrow> 'vm result_impl \<Rightarrow> 'q" where
  "of_stmt f r \<equiv> f (ri_stmt r)"

lemma bind_row_leaves:
  assumes "statement_keeps env f"
  shows "leaves (of_stmt f) (bind_row env)"
proof -
  have "leaves (of_stmt f) (bind_parameter_pos env p)" for p
    using assms by (auto simp: leaves_def bind_parameter_pos_def statement_keeps_def split: sum.splits)
  then have "leaves (of_stmt f) (abind (afor (bind_parameter_pos env) ps) (\<lambda>_. areturn True))" for ps
    by (intro leaves_abind leaves_afor leaves_basic)
  from leaves_run [OF this] show ?thesis
    using assms by (intro leavesI) (simp add: bind_row_def areturn_def statement_keeps_def Let_def)
qed

lemma step_run_leaves:
  fixes f :: "'vm \<Rightarrow> 'q"
  assumes "statement_keeps env f"
  shows "leaves (of_stmt f) (step_run env)"
proof (rule leavesI)
  fix r :: "'vm result_impl"
  have fin: "of_stmt f (fst (snd (step_done env s))) = of_stmt f s" for s
    using leavesD [OF bind_row_leaves [OF assms], of "s\<lparr>ri_group := Suc (ri_group s)\<rparr>"]
    by (auto simp: step_done_def abind_def split: prod.splits sum.splits)
  obtain rc stmt where "sqlite3_step env (ri_stmt r) = (rc, stmt)" by (cases "sqlite3_step env (ri_stmt r)") auto
  moreover from this have "f stmt = of_stmt f r"
    using assms unfolding statement_keeps_def by (metis snd_conv)
  ultimately show "of_stmt f (fst (snd (step_run env r))) = of_stmt f r"
    using fin by (cases rc) (simp_all add: step_run_def areturn_def athrow_def Let_def)
qed

lemma step_leaves: "statement_keeps env f \<Longrightarrow> leaves (of_stmt f) (step env)"
proof (rule leavesI)
  fix r
  show "statement_keeps env f \<Longrightarrow> of_stmt f (fst (snd (step env r))) = of_stmt f r"
  proof (induction env r rule: step.induct)
    case (1 env r)
    obtain x s ws where s: "step_run env r = (x, s, ws)" by (cases "step_run env r") auto
    have "of_stmt f s = of_stmt f r" by (rule leavesD [OF step_run_leaves [OF "1.prems"] s])
    moreover have "x = Inr True \<Longrightarrow> of_stmt f (fst (snd (step env s))) = of_stmt f s"
      using 1(1) [OF s [symmetric], of True] "1.prems" by simp
    ultimately show ?case
      using s by (subst step.simps) (auto split: sum.split prod.splits)
  qed
qed

lemma after_bind_leaves: "statement_keeps env f \<Longrightarrow> leaves (of_stmt f) (after_bind env b)"
  unfolding after_bind_def result_init_def
  by (intro leaves_abind leaves_if step_leaves leaves_basic) (auto simp: leaves_def amodify_def)

lemma result_impl_open_leaves: "statement_keeps env f \<Longrightarrow> leaves (of_stmt f) (result_impl_open env)"
  using leaves_run [OF after_bind_leaves [of env f True]]
  by (intro leavesI) (simp add: result_impl_open_def areturn_def)

lemma db_bind_leaves:
  assumes "statement_keeps env f"
  shows "leaves (of_stmt f) (db_bind env params)"
proof -
  have "leaves (of_stmt f) (abind (bind_row env) (after_bind env))"
    by (intro leaves_abind bind_row_leaves after_bind_leaves assms)
  from leaves_run [OF this] have "leaves (of_stmt f) (result_bind env params)"
    by (intro leavesI) (simp add: result_bind_def athrow_def)
  then show ?thesis unfolding db_bind_def by (intro leaves_abind leaves_basic)
qed

lemma take_data_leaves: "leaves (of_stmt f) (take_data env df)"
  by (auto simp: leaves_def take_data_def abind_def alift_def split: sum.splits prod.splits)

lemma peek_first_row_leaves: "leaves (of_stmt f) (peek_first_row env)"
proof -
  have "leaves (of_stmt f) (abind (alift m) (take_data env))" for m :: "data_frame eff"
    by (intro leaves_abind leaves_basic take_data_leaves)
  from leaves_run [OF this] show ?thesis
    by (intro leavesI) (simp add: peek_first_row_def Let_def)
qed

lemma column_info_leaves: "leaves (of_stmt f) (db_get_column_info env)"
  unfolding db_get_column_info_def get_column_info_def
  by (intro leaves_abind peek_first_row_leaves) (auto simp: leaves_def areturn_def)

lemma fetch_loop_leaves:
  fixes f :: "'vm \<Rightarrow> 'q" and r u :: "'vm result_impl"
  assumes "statement_keeps env f" "fetch_loop env intr df ws r = Some (out, u, ws')"
  shows "of_stmt f u = of_stmt f r"
proof -
  let ?P = "\<lambda>env (intr :: nat \<Rightarrow> bool) (df :: data_frame) (ws :: string list) (r :: 'vm result_impl)
      (y :: (r_error + data_frame) \<times> 'vm result_impl \<times> string list).
    statement_keeps env f \<longrightarrow> of_stmt f (fst (snd y)) = of_stmt f r"
  have "?P env intr df ws r (out, u, ws')"
  proof (rule fetch_loop.raw_induct [of ?P, OF _ assms(2)], intro impI)
    fix fl env intr df ws r y
    assume IH: "\<And>env intr df ws r y. fl env intr df ws r = Some y \<Longrightarrow> ?P env intr df ws r y"
      and turn: "(if ri_complete r then Some (Inr df, r, ws)
      else case set_col_values (env_packages env) (stmt_source env r) df of
        Inl e \<Rightarrow> Some (Inl e, r, ws)
      | Inr (df1, ws1) \<Rightarrow> (case step env r of
            (Inl e, s, ws2) \<Rightarrow> Some (Inl e, s, ws @ ws1 @ ws2)
          | (Inr _, s, ws2) \<Rightarrow>
              let t = s\<lparr>ri_nrows := Suc (ri_nrows s)\<rparr> in
              (case advance (intr (Suc (df_i df1))) df1 of
                 Inl e \<Rightarrow> Some (Inl e, t, ws @ ws1 @ ws2)
               | Inr (again, df2) \<Rightarrow>
                   if again then fl env intr df2 (ws @ ws1 @ ws2) t
                   else Some (Inr df2, t, ws @ ws1 @ ws2)))) = Some y"
      and keeps: "statement_keeps env f"
    obtain x s ws2 where s: "step env r = (x, s, ws2)" by (cases "step env r") auto
    then have "of_stmt f s = of_stmt f r" by (rule leavesD [OF step_leaves [OF keeps]])
    then show "of_stmt f (fst (snd y)) = of_stmt f r"
      using turn s by (auto simp: Let_def dest!: IH simp: keeps split: if_splits sum.splits prod.splits)
  qed
  then show ?thesis using assms(1) by simp
qed

lemma db_fetch_leaves:
  assumes "statement_keeps env f" "db_fetch env intr n r = Some (out, s, ws)"
  shows "of_stmt f s = of_stmt f r"
proof -
  have "fetch_rows env intr n r = Some (out, s, ws) \<Longrightarrow> ?thesis"
    using leavesD [OF take_data_leaves [of f env]] fetch_loop_leaves [OF assms(1), of intr _ _ r]
    by (fastforce simp: fetch_rows_def Let_def split: option.splits sum.splits prod.splits)
  then show ?thesis
    using assms(2) leavesD [OF peek_first_row_leaves [of f env]]
    by (auto simp: db_fetch_def result_fetch_def athrow_def split: if_splits)
qed


subsection \<open>The statements of a session\<close>

text \<open>
  \<open>f\<close> is a quantity of a database that nothing but preparing and finalizing statements changes.
\<close>

definition db_keeps :: "('db, 'st) api \<Rightarrow> ('db \<Rightarrow> 'q) \<Rightarrow> bool" where
  "db_keeps A f \<longleftrightarrow>
     statement_keeps (api_stmt A) (\<lambda>vm. f (fst vm)) \<and>
     (\<forall>db c path flags vfs. f (snd (sqlite3_open_v2 A db c path flags vfs)) = f db) \<and>
     (\<forall>c db. f (sqlite3_close_v2 A c db) = f db) \<and>
     (\<forall>a b db. f (snd (sqlite3_backup A a b db)) = f db) \<and>
     (\<forall>c db lib e b. f (snd (sqlite3_load_extension A c db lib e b)) = f db) \<and>
     (\<forall>c vals db. f (snd (insert_step (import_tables A c) vals db)) = f db) \<and>
     (\<forall>c db. f (snd (insert_reset (import_tables A c) db)) = f db)"

text \<open>
  \<open>live\<close> is the number of statements on a database that are prepared and not finalized (the
  empty one that SQLite gives for an empty query counts too).
\<close>

definition counts_statements :: "('db, 'st) api \<Rightarrow> ('db \<Rightarrow> int) \<Rightarrow> bool" where
  "counts_statements A live \<longleftrightarrow>
     db_keeps A live \<and>
     (\<forall>c db sql vm tail. sqlite3_prepare_v2 A c db sql = Prepared vm tail \<longrightarrow> live (fst vm) = live db + 1) \<and>
     (\<forall>vm. live (sqlite3_finalize A vm) = live (fst vm) - 1) \<and>
     (\<forall>c db sql. live (snd (prepare_query (import_tables A c) sql db))
        = live db + (if fst (prepare_query (import_tables A c) sql db) = None then 0 else 1)) \<and>
     (\<forall>c db. live (finalize_query (import_tables A c) db) = live db - 1)"

lemma db_keeps_stmt: "db_keeps A f \<Longrightarrow> statement_keeps (api_stmt A) (\<lambda>vm. f (fst vm))"
  unfolding db_keeps_def by (elim conjE)

lemma counts_statementsD:
  assumes "counts_statements A live"
  shows "db_keeps A live"
    and "sqlite3_prepare_v2 A c db sql = Prepared vm tail \<Longrightarrow> live (fst vm) = live db + 1"
    and "live (sqlite3_finalize A vm) = live (fst vm) - 1"
    and "live (snd (prepare_query (import_tables A d) sql db))
        = live db + (if fst (prepare_query (import_tables A d) sql db) = None then 0 else 1)"
    and "live (finalize_query (import_tables A d) db) = live db - 1"
  using assms unfolding counts_statements_def by blast+

text \<open>The connection that each result holds.\<close>

definition holder :: "('db, 'st) session \<Rightarrow> nat \<Rightarrow> nat option" where
  "holder s k = map_option dr_conn (se_results s k)"

lemma dom_holder [simp]: "dom (holder s) = dom (se_results s)"
  by (auto simp: holder_def dom_def)

lemma holder_dom: "holder t = holder s \<Longrightarrow> dom (se_results t) = dom (se_results s)"
  by (metis dom_holder)

lemma holder_upd [simp]:
  "holder (s\<lparr>se_sqlite := db\<rparr>) = holder s" "holder (s\<lparr>se_conns := cs\<rparr>) = holder s"
  "holder (s\<lparr>se_next := n\<rparr>) = holder s" "holder (s\<lparr>se_leaked := n\<rparr>) = holder s"
  "holder (put_conn A c w s) = holder s"
  "holder (s\<lparr>se_results := m\<rparr>) = (\<lambda>k. map_option dr_conn (m k))"
  by (simp_all add: holder_def fun_eq_iff)

lemma holder_put_impl: "se_results s k = Some r \<Longrightarrow> holder (put_impl k r i s) = holder s"
  by (simp add: holder_def fun_eq_iff)

text \<open>The statements that imports have left on each connection, and on all of them.\<close>

definition abandoned_at :: "('db, 'st) session \<Rightarrow> nat \<Rightarrow> nat" where
  "abandoned_at s c = (case se_conns s c of None \<Rightarrow> 0 | Some w \<Rightarrow> sq_abandoned w)"

definition abandoned :: "('db, 'st) session \<Rightarrow> nat" where
  "abandoned s = (\<Sum>c < se_next s. abandoned_at s c)"

abbreviation tally :: "('db \<Rightarrow> 'q) \<Rightarrow> ('db, 'st) session \<Rightarrow> 'q \<times> (nat \<Rightarrow> nat option) \<times> nat \<times> (nat \<Rightarrow> nat)" where
  "tally f s \<equiv> (f (se_sqlite s), holder s, se_next s, abandoned_at s)"

lemma abandoned_at_upd [simp]:
  "abandoned_at (s\<lparr>se_sqlite := db\<rparr>) = abandoned_at s" "abandoned_at (s\<lparr>se_results := m\<rparr>) = abandoned_at s"
  "abandoned_at (s\<lparr>se_next := n\<rparr>) = abandoned_at s" "abandoned_at (put_impl k r i s) = abandoned_at s"
  by (simp_all add: abandoned_at_def fun_eq_iff)

lemma abandoned_at_put: "abandoned_at (put_conn A c w s) = (abandoned_at s)(c := sq_abandoned w)"
  by (auto simp: abandoned_at_def fun_eq_iff)

text \<open>An operation on the connection object that leaves none.\<close>

definition abandons_none :: "(world, 'a) act \<Rightarrow> bool" where
  "abandons_none m \<longleftrightarrow> (\<forall>w. sq_abandoned (fst (snd (m w))) = sq_abandoned w)"

lemma abandoned_keep [simp]:
  "sq_abandoned (release_callback_data w) = sq_abandoned w" "sq_abandoned (disconnect w) = sq_abandoned w"
  "sq_abandoned (preserve cb w) = sq_abandoned w" "sq_abandoned (destroy w) = sq_abandoned w"
  "sq_abandoned (drop_owner w) = sq_abandoned w" "sq_abandoned (finalize_pointer w) = sq_abandoned w"
proof -
  show r: "sq_abandoned (release_callback_data w) = sq_abandoned w" for w
    by (simp add: release_callback_data_def split: option.split)
  show d: "sq_abandoned (disconnect w) = sq_abandoned w" for w
    by (simp add: disconnect_def r)
  show "sq_abandoned (preserve cb w) = sq_abandoned w" for w
    by (simp add: preserve_def split: option.split)
  show e: "sq_abandoned (destroy w) = sq_abandoned w" for w
    by (simp add: destroy_def r d)
  show f: "sq_abandoned (drop_owner w) = sq_abandoned w" for w
    by (simp add: drop_owner_def e)
  show "sq_abandoned (finalize_pointer w) = sq_abandoned w"
    by (simp add: finalize_pointer_def f)
qed

lemma abandons_none:
  "abandons_none conn" "abandons_none check_connection" "abandons_none (extension_load load)"
  "abandons_none in_transaction" "abandons_none connection_release" "abandons_none (set_busy_handler cb)"
  "abandons_none (Connection.result_create prepared)" "abandons_none Connection.result_release"
  "abandons_none (\<lambda>w. (x, copied finished w, ws))"
proof -
  show "abandons_none (set_busy_handler cb)"
    unfolding abandons_none_def
  proof
    fix w
    let ?v = "preserve cb (release_callback_data w)"
    have "sq_abandoned ?v = sq_abandoned w" by simp
    then show "sq_abandoned (fst (snd (set_busy_handler cb w))) = sq_abandoned w"
      by (simp add: set_busy_handler_def check_connection_def abind_def areturn_def athrow_def Let_def
          del: abandoned_keep split: robject.split list.split)
  qed
qed (simp_all add: abandons_none_def conn_def check_connection_def extension_load_def in_transaction_def
    connection_release_def Connection.result_create_def Connection.result_release_def copied_def
    set_current_result_def reset_current_result_def abind_def areturn_def athrow_def Let_def
    split: load_result.split option.split sum.split)

lemma put_conn_live: "db_keeps A live \<Longrightarrow> live (se_sqlite (put_conn A c w s)) = live (se_sqlite s)"
  by (simp add: put_conn_def db_keeps_def Let_def)

lemma with_conn_leaves:
  assumes "db_keeps A live" "abandons_none m"
  shows "leaves (tally live) (with_conn A c m)"
proof (rule leavesI)
  fix s
  show "tally live (fst (snd (with_conn A c m s))) = tally live s"
  proof (cases "se_conns s c")
    case (Some w)
    obtain x w' ws where m: "m w = (x, w', ws)" by (metis prod.exhaust)
    then have "sq_abandoned w' = abandoned_at s c"
      using assms(2) Some unfolding abandons_none_def abandoned_at_def by (metis fst_conv option.simps(5) snd_conv)
    with Some m show ?thesis
      by (simp add: with_conn_def put_conn_live [OF assms(1)] abandoned_at_put fun_upd_idem)
  qed (simp add: with_conn_def athrow_def)
qed

lemma deref_leaves: "(\<And>c. leaves q (m c)) \<Longrightarrow> leaves q (deref A p m)"
  by (cases p) (simp_all add: deref_def leaves_basic)

lemma get_raw_leaves: "(\<And>c. leaves q (m c)) \<Longrightarrow> leaves q (get_raw p m)"
  by (cases p) (simp_all add: get_raw_def leaves_basic)

lemma on_impl_leaves:
  fixes m :: "(('db, 'st) stmt result_impl, 'a) act"
  assumes "leaves (of_stmt (\<lambda>vm. live (fst vm))) m"
  shows "leaves (tally live) (as_result p (on_impl m))"
proof (rule leavesI)
  fix s :: "('db, 'st) session"
  show "tally live (fst (snd (as_result p (on_impl m) s))) = tally live s"
  proof (cases "\<exists>k r i. p = Some k \<and> se_results s k = Some r \<and> dr_impl r = Some i")
    case True
    then obtain k r i where k: "p = Some k" "se_results s k = Some r" "dr_impl r = Some i" by blast
    obtain x i' ws where m: "m (attach (se_sqlite s) i) = (x, i', ws)" by (cases "m (attach (se_sqlite s) i)") auto
    from leavesD [OF assms m] have "live (fst (ri_stmt i')) = live (se_sqlite s)" by (simp add: attach_def)
    with k m show ?thesis by (simp add: as_result_def on_impl_def holder_put_impl) (simp add: put_impl_def)
  qed (auto simp: as_result_def on_impl_def athrow_def split: option.split)
qed

text \<open>What an import does to the number of statements is what it says it leaves.\<close>

lemma import_counts:
  fixes live :: "'db \<Rightarrow> int"
  assumes A: "counts_statements A live" and sep: "CHR 0x00 \<notin> set sep"
    and run: "RS_sqlite_import (import_tables A c) zTable zFile bytes sep eol skip (db, 0) = (x, (db', left), ws)"
    and x: "\<not> undefined_behaviour x"
  shows "live db' = live db + int left"
proof -
  let ?D = "import_tables A c"
  note prep = counts_statementsD(4) [OF A] and fin = counts_statementsD(5) [OF A]
  have steps: "live (snd (insert_step ?D vals d)) = live d" "live (snd (insert_reset ?D d)) = live d" for vals d
    using counts_statementsD(1) [OF A] by (simp_all add: db_keeps_def)
  obtain n1 d1 where sel: "prepare_query ?D (select_sql zTable) db = (n1, d1)" by (metis prod.exhaust)
  obtain n2 d2 where ins: "prepare_query ?D (insert_sql zTable (the n1)) (finalize_query ?D d1) = (n2, d2)" by (metis prod.exhaust)
  have live1: "live d1 = live db + (if n1 = None then 0 else 1)" using prep [where d = c and sql = "select_sql zTable" and db = db] sel by simp
  have live2: "live d2 = live (finalize_query ?D d1) + (if n2 = None then 0 else 1)"
    using prep [where d = c and sql = "insert_sql zTable (the n1)" and db = "finalize_query ?D d1"] ins by simp
  show ?thesis
  proof (cases "sep \<noteq> [] \<and> n1 \<noteq> None \<and> n1 \<noteq> Some 0 \<and> n2 \<noteq> None")
    case True
    then obtain nCol k2 where n: "sep \<noteq> []" "n1 = Some nCol" "0 < nCol" "n2 = Some k2" by auto
    have st: "import_starts ?D zTable db = Some (nCol, d2)" using sel ins n by (simp add: import_starts_def)
    have d2: "live d2 = live db + 1" using live1 live2 fin n by simp
    show ?thesis
    proof (cases bytes)
      case None
      then show ?thesis using run n(1) st d2 by (subst (asm) import_runs [THEN conjunct1]) (simp add: athrow_def)
    next
      case (Some input)
      obtain y d3 k ws' where l: "import_lines ?D zFile sep eol nCol (nat skip) input 0 (d2, Suc 0) = (y, (d3, k), ws')"
        by (metis prod.exhaust)
      have "live d3 - int k = live d2 - 1"
        using import_lines_counts [of live ?D, OF steps fin, of zFile sep eol nCol "nat skip" input 0 d2] l by simp
      moreover have ran: "(x, (db', left), ws) = (case y of Inl e \<Rightarrow> (Inl e, (d3, k), ws') | Inr _ \<Rightarrow> (Inr True, import_finalize ?D (d3, k), ws'))"
        using run st n(1) Some l by (subst (asm) import_runs [THEN conjunct1]) (cases y; simp)
      moreover from ran x have "\<not> undefined_behaviour y" by (cases y) auto
      note import_lines_left [OF n(1) sep l this]
      ultimately show ?thesis using d2 fin by (cases y) (auto simp: import_finalize_def)
    qed
  next
    case False
    then show ?thesis
      using run sel ins live1 live2 fin write_insert_sql_ok [of _ zTable]
      by (auto simp: RS_sqlite_import_def abind_def import_prepare_def import_error_def act_defs import_finalize_def
          split: option.splits if_splits)
  qed
qed

lemma session_tally:
  assumes "session_inv s"
  shows "finite (dom (se_results s))" "se_next s \<notin> dom (se_results s)"
proof -
  have "dom (se_results s) \<subseteq> {..<se_next s}" using assms by (auto simp: session_inv_def)
  then show "finite (dom (se_results s))" "se_next s \<notin> dom (se_results s)"
    by (auto intro: finite_subset)
qed

lemma sqlite_result_impl_live:
  assumes A: "counts_statements A live" and run: "sqlite_result_impl A c w sql db = (out, db', ws)"
  shows "live db' = live db + (case out of Inl e \<Rightarrow> 0 | Inr i \<Rightarrow> 1)"
proof (cases "\<exists>vm ws0. is_valid w \<and> prepare (sqlite3_prepare_v2 A c db (c_str sql)) = Inr (vm, ws0)")
  case True
  then obtain vm ws0 where vm: "is_valid w" "prepare (sqlite3_prepare_v2 A c db (c_str sql)) = Inr (vm, ws0)" by blast
  then have fresh: "live (fst vm) = live db + 1"
    using counts_statementsD(2) [OF A]
    by (auto simp: prepare_def ret_def warning_def ebind_def Let_def split: prepared.splits option.splits if_splits)
  let ?r = "result_impl_start (api_stmt A) (with_alt_types w) vm"
  obtain y i ws1 where y: "result_impl_open (api_stmt A) ?r = (y, i, ws1)"
    by (cases "result_impl_open (api_stmt A) ?r") auto
  have "live (fst (ri_stmt i)) = live (fst (ri_stmt ?r))"
    by (rule leavesD [OF result_impl_open_leaves [OF db_keeps_stmt [OF counts_statementsD(1) [OF A]]] y])
  also have "\<dots> = live db + 1" using fresh by (simp add: result_impl_start_def Let_def)
  finally show ?thesis
    using run vm y counts_statementsD(3) [OF A, of "ri_stmt i"] by (cases y) (auto simp: sqlite_result_impl_def)
next
  case False
  then show ?thesis using run by (auto simp: sqlite_result_impl_def split: if_splits sum.splits)
qed

lemma fresh_abandoned: "session_inv s \<Longrightarrow> abandoned_at s (se_next s) = 0"
  using session_invD(1) [of s "se_next s"] by (cases "se_conns s (se_next s)") (auto simp: abandoned_at_def)

lemma abandoned_same: "abandoned_at t = abandoned_at s \<Longrightarrow> se_next t = se_next s \<Longrightarrow> abandoned t = abandoned s"
  by (simp add: abandoned_def)

lemma abandoned_next:
  "session_inv s \<Longrightarrow> abandoned_at t = abandoned_at s \<Longrightarrow> se_next t = Suc (se_next s) \<Longrightarrow> abandoned t = abandoned s"
  by (simp add: abandoned_def fresh_abandoned)

text \<open>The statements that are not those of results.\<close>

definition balance :: "('db \<Rightarrow> int) \<Rightarrow> ('db, 'st) session \<Rightarrow> int" where
  "balance live s = live (se_sqlite s) - int (card (dom (se_results s)))"

lemma create_tally:
  assumes A: "counts_statements A live" and inv: "session_inv s" and p: "held s p"
    and run: "r_result_create A p sql s = (x, t, ws)"
  shows "balance live t = balance live s \<and> abandoned t = abandoned s"
proof (cases p)
  case (Some c)
  obtain w where w: "se_conns s c = Some w" "ext_ptr w" using heldD p Some by blast
  from with_conn_checked [OF w(1), of check_connection A] obtain u ws1
    where u: "with_conn A c check_connection s = (fst (check_connection w), u, ws1)" "se_conns u = se_conns s"
    by blast
  have same: "tally live u = tally live s" "se_next u = se_next s" "se_results u = se_results s"
    using leavesD [OF with_conn_leaves [OF counts_statementsD(1) [OF A] abandons_none(2)] u(1)] u(1) by (auto simp: with_conn_def w split: prod.splits)
  obtain out db ws2 where out: "sqlite_result_impl A c w sql (se_sqlite u) = (out, db, ws2)" by (metis prod.exhaust)
  note db = sqlite_result_impl_live [OF A out]
  show ?thesis
  proof (cases "is_valid w \<and> (\<exists>i. out = Inr i)")
    case True
    then obtain i where i: "is_valid w" "out = Inr i" by blast
    then obtain w' where w': "Connection.result_create (Inr ()) w = (Inr (), w', [])"
      "sq_abandoned w' = abandoned_at s c"
      using w abandons_none(7) [of "Inr ()"] unfolding abandons_none_def
      by (auto simp: Connection.result_create_def check_connection_def conn_def abind_def areturn_def set_current_result_def
          abandoned_at_def)
    then have "abandoned_at t = abandoned_at s" "se_next t = Suc (se_next s)"
      using run u Some w i out same
      by (auto simp: r_result_create_def deref_def abind_def check_connection_def areturn_def
          create_and_send_query_def Let_def abandoned_at_put fun_upd_idem split: prod.splits)
    then have "abandoned t = abandoned s" by (rule abandoned_next [OF inv])
    moreover have "se_sqlite t = se_sqlite (put_conn A c w' (u\<lparr>se_sqlite := db\<rparr>))"
        "se_results t = (se_results s)(se_next s \<mapsto> \<lparr>dr_conn = c, dr_impl = Some i\<rparr>)"
      using run u Some w i out same w'
      by (auto simp: r_result_create_def deref_def abind_def check_connection_def areturn_def
          create_and_send_query_def Let_def split: prod.splits)
    moreover have "se_next s \<notin> dom (se_results s)" "finite (dom (se_results s))"
      using session_tally [OF inv] by simp_all
    ultimately show ?thesis using db i same(1) put_conn_live [OF counts_statementsD(1) [OF A]] by (simp add: balance_def)
  next
    case False
    have "live (se_sqlite t) = live (se_sqlite s) \<and> se_results t = se_results s \<and> abandoned t = abandoned s"
    proof (cases "is_valid w")
      case True
      with False obtain e where e: "out = Inl e" by (cases out) auto
      then have "Connection.result_create (Inl e) w = (Inl e, w, [])"
        using True w(2) by (simp add: Connection.result_create_def check_connection_def conn_def abind_def areturn_def
            athrow_def drop_owner_def use_count_def)
      then have "t = put_conn A c w (u\<lparr>se_sqlite := db\<rparr>)"
        using run u Some w e out True
        by (auto simp: r_result_create_def deref_def abind_def check_connection_def areturn_def
            create_and_send_query_def Let_def split: prod.splits)
      moreover from this have "abandoned t = abandoned s"
        using same w(1) by (intro abandoned_same) (simp_all add: abandoned_at_put abandoned_at_def fun_eq_iff)
      ultimately show ?thesis using same db e put_conn_live [OF counts_statementsD(1) [OF A]] by simp
    next
      case False
      then have "t = u"
        using run u Some by (auto simp: r_result_create_def deref_def abind_def check_connection_def athrow_def)
      then show ?thesis using same abandoned_same [of u s] by simp
    qed
    then show ?thesis by (simp add: balance_def)
  qed
qed (use run in \<open>simp add: r_result_create_def deref_def athrow_def\<close>)


lemma release_tally:
  assumes A: "counts_statements A live" and inv: "session_inv s"
    and run: "r_result_release A p s = (x, t, ws)"
  shows "balance live t = balance live s \<and> abandoned t = abandoned s"
proof (cases "\<exists>k r. p = Some k \<and> se_results s k = Some r")
  case True
  then obtain k r where k: "p = Some k" "se_results s k = Some r" by blast
  obtain i where i: "dr_impl r = Some i" using session_invD(2) [OF inv k(2)] by auto
  let ?s = "s\<lparr>se_sqlite := sqlite3_finalize A (ri_stmt (attach (se_sqlite s) i)), se_results := (se_results s)(k := None)\<rparr>"
  have "with_conn A (dr_conn r) Connection.result_release ?s = (x, t, ws)"
    using run k i by (simp add: r_result_release_def delete_result_def)
  from leavesD [OF with_conn_leaves [OF counts_statementsD(1) [OF A] abandons_none(8)] this]
  have left: "tally live t = tally live ?s" .
  then have "live (se_sqlite t) = live (se_sqlite s) - 1" "dom (holder t) = dom (holder s) - {k}"
    using counts_statementsD(3) [OF A, of "ri_stmt (attach (se_sqlite s) i)"]
    by (auto simp: attach_def dom_def holder_def split: if_splits)
  moreover have "abandoned t = abandoned s" using left by (intro abandoned_same) simp_all
  moreover have "k \<in> dom (se_results s)" "finite (dom (se_results s))" using k session_tally [OF inv] by auto
  moreover from this have "0 < card (dom (se_results s))" by (auto simp: card_gt_0_iff)
  ultimately show ?thesis by (simp add: balance_def)
qed (use run in \<open>auto simp: r_result_release_def areturn_def split: option.splits\<close>)

lemma connection_calls_leave:
  fixes A :: "('db, 'st) api"
  assumes "db_keeps A live"
  shows "leaves (\<lambda>s. (live (se_sqlite s), holder s)) (r_connection_connect A path allow_ext flags vfs alt)"
    and "leaves (tally live) (r_connection_release A p)"
    and "leaves (tally live) (r_connection_in_transaction A p)"
    and "leaves (tally live) (r_connection_copy_database A p q)"
    and "leaves (tally live) (r_set_busy_handler A p cb)"
    and "leaves (tally live) (r_extension_load A p lib entry_point)"
proof -
  note w = with_conn_leaves [OF assms] and none = abandons_none
  have opens: "live (snd (sqlite3_open_v2 A db c z f v)) = live db" "live (snd (sqlite3_backup A a c db)) = live db"
    "live (snd (sqlite3_load_extension A c db z z' b)) = live db" for db c z f v a z' b
    using assms by (simp_all add: db_keeps_def)
  show "leaves (\<lambda>s. (live (se_sqlite s), holder s)) (r_connection_connect A path allow_ext flags vfs alt)"
    by (rule leavesI) (simp add: r_connection_connect_def opens Let_def split: sum.split prod.split)
  show "leaves (tally live) (r_connection_release A p)"
    using leaves_run [OF w [OF none(5)]]
    by (intro leavesI) (simp add: r_connection_release_def split: option.split)
  have "abandons_none (\<lambda>w. in_transaction (if pConn w then w\<lparr>sq_autocommit := b\<rparr> else w))" for b
    by (simp add: abandons_none_def in_transaction_def areturn_def athrow_def)
  from leaves_run [OF w [OF this]] show "leaves (tally live) (r_connection_in_transaction A p)"
    unfolding r_connection_in_transaction_def by (intro get_raw_leaves leavesI)
  show "leaves (tally live) (r_connection_copy_database A p q)"
    unfolding r_connection_copy_database_def
  proof (intro get_raw_leaves leavesI)
    fix a b and s :: "('db, 'st) session"
    let ?copy = "\<lambda>wa wb. case sqlite3_backup A a b (se_sqlite s) of ((backup, rc_step, rc_finish, errmsg), db) \<Rightarrow>
             (case Connection.copy_to wa wb backup rc_step rc_finish errmsg of (x, finished) \<Rightarrow>
                with_conn A a (\<lambda>w. (x, copied finished w, []))
                  (if is_valid wb \<and> pConn wa then s\<lparr>se_sqlite := db\<rparr> else s))"
    have "tally live (fst (snd (?copy wa wb))) = tally live s" for wa wb
    proof -
      obtain i r f e db where bk: "sqlite3_backup A a b (se_sqlite s) = ((i, r, f, e), db)" by (metis prod.exhaust)
      obtain x fin where x: "Connection.copy_to wa wb i r f e = (x, fin)" by (metis prod.exhaust)
      have "live db = live (se_sqlite s)" using opens(2) [of a b "se_sqlite s"] bk by simp
      with leaves_run [OF w [OF none(9) [of x fin "[]"]], of a] bk x show ?thesis by simp
    qed
    then show "tally live (fst (snd (case (se_conns s a, se_conns s b) of
         (Some wa, Some wb) \<Rightarrow> ?copy wa wb
       | _ \<Rightarrow> athrow (UB ''no connection object at this address'') s))) = tally live s"
      by (simp add: athrow_def split: option.split)
  qed
  show "leaves (tally live) (r_set_busy_handler A p cb)"
    unfolding r_set_busy_handler_def by (intro deref_leaves w none)
  show "leaves (tally live) (r_extension_load A p lib entry_point)"
    unfolding r_extension_load_def
  proof (intro deref_leaves leavesI)
    fix c and s :: "('db, 'st) session"
    let ?load = "sqlite3_load_extension A c (se_sqlite s) (c_str lib) (c_str entry_point)"
    obtain x t ws where t: "with_conn A c (extension_load (\<lambda>b. fst (?load b))) s = (x, t, ws)" by (metis prod.exhaust)
    show "tally live (fst (snd (let load = ?load;
           db = (case se_conns s c of None \<Rightarrow> se_sqlite s
                 | Some w \<Rightarrow> if is_valid w then snd (load (sq_extensions w)) else se_sqlite s) in
       (case with_conn A c (extension_load (\<lambda>enabled. fst (load enabled))) s of
          (x, t, ws) \<Rightarrow> (x, t\<lparr>se_sqlite := db\<rparr>, ws))))) = tally live s"
      using leavesD [OF w [OF none(3)] t] by (simp add: t opens Let_def split: option.split)
  qed
qed


lemma result_calls_leave:
  assumes "db_keeps A live"
  shows "leaves (tally live) (r_result_bind A p params)"
    and "leaves (tally live) (r_result_column_info A p)"
    and "leaves (tally live) (r_result_rows_fetched p)"
    and "leaves (tally live) (r_result_rows_affected A p)"
    and "leaves (tally live) (r_result_get_placeholder_names A p)"
    and "leaves (tally live) (r_result_has_completed p)"
proof -
  note keeps = db_keeps_stmt [OF assms]
  show "leaves (tally live) (r_result_bind A p params)"
    unfolding r_result_bind_def by (intro on_impl_leaves db_bind_leaves keeps)
  show "leaves (tally live) (r_result_column_info A p)"
    unfolding r_result_column_info_def by (intro on_impl_leaves column_info_leaves)
  show "leaves (tally live) (r_result_rows_fetched p)"
    unfolding r_result_rows_fetched_def db_n_rows_fetched_def
    by (intro on_impl_leaves) (simp add: leaves_def areturn_def)
  show "leaves (tally live) (r_result_rows_affected A p)"
    unfolding r_result_rows_affected_def db_n_rows_affected_def
    by (intro on_impl_leaves) (simp add: leaves_def areturn_def)
  show "leaves (tally live) (r_result_get_placeholder_names A p)"
    unfolding r_result_get_placeholder_names_def sqlite_get_placeholder_names_def by (intro on_impl_leaves) (simp add: leaves_def areturn_def)
  show "leaves (tally live) (r_result_has_completed p)"
    by (auto simp: leaves_def r_result_has_completed_def as_result_def areturn_def athrow_def split: option.splits)
qed

lemma fetch_leaves:
  assumes A: "db_keeps A live" and run: "r_result_fetch A intr p n s = Some (x, t, ws)"
  shows "tally live t = tally live s"
proof (cases "\<exists>k r i. p = Some k \<and> se_results s k = Some r \<and> dr_impl r = Some i")
  case True
  then obtain k r i where k: "p = Some k" "se_results s k = Some r" "dr_impl r = Some i" by blast
  obtain i' where i': "db_fetch (api_stmt A) intr (sint n) (attach (se_sqlite s) i) = Some (x, i', ws)" "t = put_impl k r i' s"
    using run k by (auto simp: r_result_fetch_def)
  have "live (fst (ri_stmt i')) = live (se_sqlite s)"
    using db_fetch_leaves [OF db_keeps_stmt [OF A] i'(1)] by (simp add: attach_def)
  with i'(2) k show ?thesis by (simp add: holder_put_impl) (simp add: put_impl_def)
qed (use run in \<open>auto simp: r_result_fetch_def athrow_def split: option.splits\<close>)

lemma avalue_leaves: "avalue g m s = Some (out, t, ws) \<Longrightarrow> leaves q m \<Longrightarrow> q t = q s"
  by (auto simp: avalue_run dest: leavesD)

lemma run_call_leaves:
  fixes s t :: "('db, 'st) session"
  assumes A: "db_keeps A f" and run: "run_call A intr c s = Some (out, t, ws)"
    and c: "\<And>p sql. c \<noteq> ResultCreate p sql" "\<And>p. c \<noteq> ResultRelease p"
      "\<And>path ext flags vfs alt. c \<noteq> Connect path ext flags vfs alt"
      "\<And>p tbl vfile sep eol skip. c \<noteq> ImportCall p tbl vfile sep eol skip"
  shows "tally f t = tally f s"
proof -
  have basic: "leaves (tally f) (r_connection_valid p)" "leaves (tally f) (r_result_valid p)"
    "leaves (tally f) (r_rsqliteVersion A)" for p
    by (simp_all add: leaves_def r_connection_valid_def r_result_valid_def r_rsqliteVersion_def areturn_def)
  show ?thesis
  proof (cases c)
    case (ResultFetch p k)
    with run obtain x where "r_result_fetch A intr p k s = Some (x, t, ws)"
      by (auto simp: avalue_run split: option.splits)
    then show ?thesis by (rule fetch_leaves [OF A])
  next
    case (ResultCreate p sql)
    then show ?thesis using c(1) by blast
  next
    case (ResultRelease p)
    then show ?thesis using c(2) by blast
  next
    case (Connect path ext flags vfs alt)
    then show ?thesis using c(3) by blast
  next
    case (ImportCall p tbl vfile sep eol skip)
    then show ?thesis using c(4) by blast
  qed (insert run, simp_all only: run_call.simps,
      (erule avalue_leaves [where q = "tally f"], rule basic connection_calls_leave [OF A] result_calls_leave [OF A])+)
qed

text \<open>An import adds to both what it leaves.\<close>

lemma import_run:
  assumes run: "r_connection_import_file A p tbl vfile sep eol skip s = (x, t, ws)"
  shows "t = s \<and> \<not> open_at s p \<or> (\<exists>c w y db left ws1. p = Some c \<and> se_conns s c = Some w \<and> is_valid w \<and>
    RS_sqlite_import (import_tables A c) (c_str tbl) (c_str vfile) (read_file A (c_str vfile))
      (c_str sep) (c_str eol) (sint skip) (se_sqlite s, 0) = (y, (db, left), ws1) \<and> x = y \<and>
    t = put_conn A c (abandon left w) (s\<lparr>se_sqlite := db\<rparr>))"
proof (cases p)
  case (Some c)
  show ?thesis
  proof (cases "se_conns s c")
    case (Some w)
    have u: "with_conn A c conn s = (fst (conn w), s, [])"
      using Some by (simp add: with_conn_def conn_def areturn_def athrow_def put_conn_def Let_def fun_upd_idem)
    obtain y db left ws1 where "RS_sqlite_import (import_tables A c) (c_str tbl) (c_str vfile) (read_file A (c_str vfile))
      (c_str sep) (c_str eol) (sint skip) (se_sqlite s, 0) = (y, (db, left), ws1)" by (metis prod.exhaust)
    with Some \<open>p = Some c\<close> u run show ?thesis
      by (cases "is_valid w") (auto simp: open_at_def r_connection_import_file_def deref_def abind_def conn_def areturn_def athrow_def with_conn_def)
  qed (use run Some in \<open>simp add: open_at_def r_connection_import_file_def deref_def abind_def with_conn_def athrow_def\<close>)
qed (use run in \<open>simp add: open_at_def r_connection_import_file_def deref_def athrow_def\<close>)

lemma import_holder:
  assumes "r_connection_import_file A p tbl vfile sep eol skip s = (x, t, ws)"
  shows "holder t = holder s \<and> se_next t = se_next s"
  using import_run [OF assms] by auto

text \<open>The only calls that leave one.\<close>

fun leaves_statement :: "('db, 'st) api \<Rightarrow> ('db, 'st) session \<Rightarrow> call \<Rightarrow> bool" where
  "leaves_statement A s (ImportCall p name value sep eol skip) \<longleftrightarrow> open_at s p \<and>
     import_abandons (import_tables A (the p)) (c_str name) (c_str value) (read_file A (c_str value))
       (c_str sep) (c_str eol) (sint skip) (se_sqlite s)"
| "leaves_statement A s _ \<longleftrightarrow> False"

lemma import_tally:
  assumes A: "counts_statements A live" and inv: "session_inv s"
    and run: "r_connection_import_file A p tbl vfile sep eol skip s = (x, t, ws)" "\<not> undefined_behaviour x"
  shows "balance live t - balance live s = int (abandoned t) - int (abandoned s)
    \<and> abandoned t = abandoned s + (if leaves_statement A s (ImportCall p tbl vfile sep eol skip) then 1 else 0)"
  using import_run [OF run(1)]
proof (elim disjE exE conjE)
  fix c w y db left ws1
  assume w: "p = Some c" "se_conns s c = Some w" "is_valid w"
    and i: "RS_sqlite_import (import_tables A c) (c_str tbl) (c_str vfile)
      (read_file A (c_str vfile)) (c_str sep) (c_str eol) (sint skip) (se_sqlite s, 0) = (y, (db, left), ws1)"
    and x: "x = y" and t: "t = put_conn A c (abandon left w) (s\<lparr>se_sqlite := db\<rparr>)"
  have "live db = live (se_sqlite s) + int left" using import_counts [OF A c_str_nul i] run(2) x by simp
  moreover have "live (se_sqlite t) = live db" using t put_conn_live [OF counts_statementsD(1) [OF A]] by simp
  moreover have "abandoned t = abandoned s + left"
  proof -
    have c: "c < se_next s" using session_invD(1) [OF inv w(2)] by simp
    have "abandoned_at t = (abandoned_at s)(c := abandoned_at s c + left)"
      using t w by (simp add: abandoned_at_put abandon_def) (simp add: abandoned_at_def)
    then have "abandoned t = (\<Sum>d < se_next s. abandoned_at s d + (if d = c then left else 0))"
      using t unfolding abandoned_def by (intro sum.cong) auto
    then show ?thesis using c by (simp add: sum.distrib abandoned_def)
  qed
  moreover have "left = (if leaves_statement A s (ImportCall p tbl vfile sep eol skip) then 1 else 0)"
    using import_leaves_statement [OF c_str_nul i] run(2) x w by (simp add: open_at_def)
  ultimately show ?thesis using t by (simp add: balance_def)
qed simp

lemma connect_tally:
  assumes A: "db_keeps A live" and inv: "session_inv s"
    and run: "r_connection_connect A path ext flags vfs alt s = (x, t, ws)"
  shows "live (se_sqlite t) = live (se_sqlite s) \<and> holder t = holder s \<and> abandoned t = abandoned s"
proof -
  let ?open = "sqlite3_open_v2 A (se_sqlite s) (se_next s)"
  obtain y n where y: "connect (\<lambda>p f v. fst (?open p f v)) path ext flags vfs alt = (y, n)" by (metis prod.exhaust)
  have "abandoned t = abandoned s"
  proof (cases y)
    case (Inl e)
    then show ?thesis using run y
      by (intro abandoned_same) (auto simp: r_connection_connect_def abandoned_at_def fun_eq_iff Let_def)
  next
    case (Inr w)
    then have "sq_abandoned w = 0" using y by (auto simp: connect_def Let_def split: open_result.splits)
    then show ?thesis using run y Inr fresh_abandoned [OF inv]
      by (intro abandoned_next [OF inv]) (auto simp: r_connection_connect_def abandoned_at_def fun_eq_iff Let_def)
  qed
  then show ?thesis using leavesD [OF connection_calls_leave(1) [OF A] run] by simp
qed

lemma run_call_tally:
  assumes A: "counts_statements A live" and inv: "session_inv s"
    and c: "possible s c" "run_call A intr c s = Some (out, t, ws)" "\<not> undefined_behaviour out"
  shows "balance live t - balance live s = int (abandoned t) - int (abandoned s)
    \<and> abandoned t = abandoned s + (if leaves_statement A s c then 1 else 0)"
proof (cases "(\<exists>p sql. c = ResultCreate p sql) \<or> (\<exists>p. c = ResultRelease p) \<or>
    (\<exists>path ext flags vfs alt. c = Connect path ext flags vfs alt) \<or>
    (\<exists>p tbl vfile sep eol skip. c = ImportCall p tbl vfile sep eol skip)")
  case True
  then show ?thesis
  proof (elim disjE exE)
    fix p sql
    assume "c = ResultCreate p sql"
    with c obtain x where "held s p" "r_result_create A p sql s = (x, t, ws)" by (auto simp: avalue_run)
    from create_tally [OF A inv this] \<open>c = _\<close> show ?thesis by simp
  next
    fix p
    assume "c = ResultRelease p"
    with c obtain x where "r_result_release A p s = (x, t, ws)" by (auto simp: avalue_run)
    from release_tally [OF A inv this] \<open>c = _\<close> show ?thesis by simp
  next
    fix path ext flags vfs alt
    assume "c = Connect path ext flags vfs alt"
    with c obtain x where "r_connection_connect A path ext flags vfs alt s = (x, t, ws)" by (auto simp: avalue_run)
    from connect_tally [OF counts_statementsD(1) [OF A] inv this] holder_dom [of t s] \<open>c = _\<close> show ?thesis by (simp add: balance_def)
  next
    fix p tbl vfile sep eol skip
    assume "c = ImportCall p tbl vfile sep eol skip"
    with c obtain x where "r_connection_import_file A p tbl vfile sep eol skip s = (x, t, ws)" "\<not> undefined_behaviour x"
      by (auto simp: avalue_run avalue_UB)
    from import_tally [OF A inv this] \<open>c = _\<close> show ?thesis by simp
  qed
next
  case False
  then have "tally live t = tally live s"
    by (intro run_call_leaves [OF counts_statementsD(1) [OF A] c(2)]) blast+
  moreover from False have "\<not> leaves_statement A s c" by (cases c) auto
  ultimately show ?thesis using holder_dom [of t s] abandoned_same [of t s] by (simp add: balance_def)
qed

text \<open>
  Sessions in which nobody else prepares or finalizes statements on these databases, from one
  without statements.
\<close>

inductive own_session :: "('db, 'st) api \<Rightarrow> ('db \<Rightarrow> int) \<Rightarrow> ('db, 'st) session \<Rightarrow> bool" for A live where
  start: "live db = 0 \<Longrightarrow> own_session A live (session_start db)"
| call: "own_session A live s \<Longrightarrow> possible s c \<Longrightarrow> run_busy A intr busy c s = Some (out, t, ws) \<Longrightarrow>
    \<not> undefined_behaviour out \<Longrightarrow> own_session A live t"
| collect_con: "own_session A live s \<Longrightarrow> own_session A live (collect_connection A c s)"
| collect_res: "own_session A live s \<Longrightarrow> own_session A live (collect_result A k s)"
| outside: "own_session A live s \<Longrightarrow> live db = live (se_sqlite s) \<Longrightarrow> own_session A live (s\<lparr>se_sqlite := db\<rparr>)"

lemma own_session_reachable: "own_session A live s \<Longrightarrow> session_reachable A s"
proof (induction rule: own_session.induct)
  case (call s c intr busy out t ws)
  from session_step.call [OF call(2-4)] call(5) show ?case by (rule session_reachable.step [rotated])
qed (blast intro: session_reachable.start session_reachable.step session_step.intros)+

lemma own_session_tally:
  assumes P: "packages_keep_data (env_packages (api_stmt A))" and A: "counts_statements A live"
  shows "own_session A live s \<Longrightarrow> live (se_sqlite s) = int (card (dom (se_results s))) + int (abandoned s)"
proof (induction rule: own_session.induct)
  case (start db)
  then show ?case by (simp add: session_start_def abandoned_def)
next
  case (call s c intr busy out t ws)
  note inv = session_reachable_inv [OF P own_session_reachable [OF call(1)]]
  from run_call_tally [OF A inv call(2) run_busy_call [OF call(3,4)] call(4)] call(5) show ?case
    by (simp add: balance_def)
next
  case (collect_con s c)
  have "abandoned (collect_connection A c s) = abandoned s"
    by (rule abandoned_same) (auto simp: collect_connection_def abandoned_at_put abandoned_at_def fun_eq_iff split: option.split)
  with collect_con show ?case
    by (simp add: collect_connection_def put_conn_live [OF counts_statementsD(1) [OF A]] split: option.split)
next
  case (collect_res s k)
  note inv = session_reachable_inv [OF P own_session_reachable [OF collect_res(1)]]
  obtain x t ws where t: "r_result_release A (Some k) s = (x, t, ws)" by (metis prod.exhaust)
  from release_tally [OF A inv t] collect_res(2) t show ?case by (simp add: collect_result_def balance_def)
next
  case (outside s db)
  then show ?case using abandoned_same [of "s\<lparr>se_sqlite := db\<rparr>" s] by simp
qed

text \<open>
  C14: in a session whose databases nobody else prepares statements on, at every moment the
  statements prepared and not finalized are exactly as many as the results R has and the
  statements that imports have left behind.  A call leaves one behind exactly when it is an import,
  on an open connection, that prepares its insert and then fails because the file cannot be
  opened or a line it comes to has the wrong number of fields; a failing query, a failing first
  step, releasing, collecting, disconnecting and everything else leak none and finalize none twice.
\<close>

theorem no_statement_leaks:
  assumes "packages_keep_data (env_packages (api_stmt A))" "counts_statements A live" "own_session A live s"
  shows "finite {k. se_results s k \<noteq> None}
    \<and> live (se_sqlite s) = int (card {k. se_results s k \<noteq> None}) + int (abandoned s)
    \<and> (\<forall>c intr busy out t ws. possible s c \<longrightarrow> run_busy A intr busy c s = Some (out, t, ws) \<longrightarrow> \<not> undefined_behaviour out \<longrightarrow>
        abandoned t = abandoned s + (if leaves_statement A s c then 1 else 0))"
proof (intro conjI allI impI)
  have inv: "session_inv s" by (rule session_reachable_inv [OF assms(1) own_session_reachable [OF assms(3)]])
  show "finite {k. se_results s k \<noteq> None}" using session_tally(1) [OF inv] by (simp add: dom_def)
  show "live (se_sqlite s) = int (card {k. se_results s k \<noteq> None}) + int (abandoned s)"
    using own_session_tally [OF assms] by (simp add: dom_def)
  show "abandoned t = abandoned s + (if leaves_statement A s c then 1 else 0)"
    if "possible s c" "run_busy A intr busy c s = Some (out, t, ws)" "\<not> undefined_behaviour out" for c intr busy out t ws
    using run_call_tally [OF assms(2) inv that(1) run_busy_call [OF that(2,3)] that(3)] by simp
qed

lemma demo_counts: "counts_statements demo_api id"
  by (auto simp: counts_statements_def db_keeps_def statement_keeps_def demo_api_def demo_stmt_def)

theorem no_statement_leaks_witness:
  "own_session demo_api id demo_queried \<and> se_sqlite demo_queried = 1 \<and> card {k. se_results demo_queried k \<noteq> None} = 1
   \<and> (\<exists>t. own_session demo_api id t \<and> abandoned t = 1 \<and> se_sqlite t = int (card {k. se_results t k \<noteq> None}) + 1)"
proof -
  have "own_session demo_api id (session_start 0)" by (rule own_session.start) simp
  then have conn: "own_session demo_api id demo_connected"
    by (rule own_session.call [where busy = "[]", OF _ _ demo_connect [folded run_busy_none]]) simp_all
  then have own: "own_session demo_api id demo_queried"
    by (rule own_session.call [where busy = "[]", OF _ _ demo_query [folded run_busy_none]]) (simp_all add: held_def world0_def)
  let ?import = "ImportCall (Some 0) ''t'' ''f.csv'' '','' [CHR 0x0A] 0"
  obtain out t ws where run: "run_busy demo_api (\<lambda>_. False) [] ?import demo_connected = Some (out, t, ws)"
    by (simp add: avalue_def) (metis prod.exhaust)
  have held: "possible demo_connected ?import" by (simp add: held_def world0_def)
  have "\<not> risky demo_api demo_connected ?import" by (simp add: import_overruns_def demo_api_def)
  moreover have "\<not> is_UB (null_pointer_error demo_api)" by (simp add: demo_api_def)
  ultimately have ok: "\<not> undefined_behaviour out"
    using run_call_UB [OF session_reachable_inv [OF demo_keeps own_session_reachable [OF conn]] held demo_keeps] run by simp
  have "open_at demo_connected (Some 0)" by (simp add: open_at_def is_valid_def world0_def)
  then have left: "leaves_statement demo_api demo_connected ?import"
    by (simp add: import_abandons_def import_starts_def demo_api_def c_str_def)
  have "abandoned demo_connected = 0" by (simp add: abandoned_def abandoned_at_def world0_def)
  with no_statement_leaks [OF demo_keeps demo_counts conn] held run ok left have "abandoned t = 1" by fastforce
  moreover have "own_session demo_api id t" by (rule own_session.call [OF conn held run ok])
  moreover from no_statement_leaks [OF demo_keeps demo_counts this] calculation
  have "se_sqlite t = int (card {k. se_results t k \<noteq> None}) + 1" by simp
  ultimately show ?thesis using no_statement_leaks [OF demo_keeps demo_counts own] own by (auto simp: demo_queried_def)
qed

end
