(* ===== verification/Glue.thy ===== *)
theory Glue
  imports SessionRun
begin

text \<open>
  \<open>cpp11.cpp\<close>, the generated entry points, and \<open>R/cpp11.R\<close>, the R functions that call them: an R
  function passes its arguments on by position, \<open>.Call\<close> finds the routine in the registered table
  and checks how many arguments there are, the routine converts each argument and calls the C++
  function, whose exceptions become R errors.

  What cpp11 accepts for a C++ type is the record \<open>conversion\<close>.  The arguments of a C++ call are
  evaluated in an order the compiler chooses; here it is left to right, which decides only which
  of several errors is reported.
\<close>

subsection \<open>R objects as arguments\<close>

text \<open>An external pointer carries no type the code checks; it is to a connection, a result, or
  something else.\<close>

datatype kind = ConnectionKind | ResultKind | OtherKind

datatype argument = AVector nat robj | AList nat "robj list" | AClosure nat | APointer nat kind ptr

record conversion =
  as_string :: "argument \<Rightarrow> string res"
  as_bool :: "argument \<Rightarrow> bool res"
  as_int :: "argument \<Rightarrow> i32 res"
  as_list :: "argument \<Rightarrow> robj list res"
  as_external_pointer :: "argument \<Rightarrow> (kind \<times> ptr) res"

text \<open>A pointer used as one to \<open>k\<close>: NULL is NULL for every type.\<close>

definition pointer_to :: "kind \<Rightarrow> kind \<times> ptr \<Rightarrow> ptr res" where
  "pointer_to k = (\<lambda>(k', p). if p = None \<or> k' = k then Inr p else Inl (UB ''pointer to an object of another type''))"

definition as_connection :: "conversion \<Rightarrow> argument \<Rightarrow> ptr res" where
  "as_connection cv x = rbind (as_external_pointer cv x) (pointer_to ConnectionKind)"

definition as_result_pointer :: "conversion \<Rightarrow> argument \<Rightarrow> ptr res" where
  "as_result_pointer cv x = rbind (as_external_pointer cv x) (pointer_to ResultKind)"

text \<open>
  \<open>as_cpp\<close> of \<open>RSQLCipher_types.h\<close> reads the address of any object; the test for NULL is
  \<open>as_result\<close>'s.
\<close>

fun R_ExternalPtrAddr :: "argument \<Rightarrow> (kind \<times> ptr) res" where
  "R_ExternalPtrAddr (APointer a k p) = Inr (k, p)"
| "R_ExternalPtrAddr _ = Inl (UB ''R_ExternalPtrAddr of another R object'')"

definition as_DbResult :: "argument \<Rightarrow> ptr res" where
  "as_DbResult x = rbind (R_ExternalPtrAddr x) (pointer_to ResultKind)"

text \<open>The same pointer, read as one to the class of the results there are.\<close>

definition as_SqliteResult :: "argument \<Rightarrow> ptr res" where
  [simp]: "as_SqliteResult x = as_DbResult x"

text \<open>A callback is passed as it is; a factor is no integer vector for \<open>Rf_isInteger\<close>.\<close>

fun as_callback :: "argument \<Rightarrow> robject" where
  "as_callback (AVector a x) =
     (case rdata x of
        NilSXP \<Rightarrow> RNull
      | IntSXP xs \<Rightarrow> if ''factor'' \<in> set (rclass x) then RFunction a else RIntegers a (map the xs)
      | _ \<Rightarrow> RFunction a)"
| "as_callback (AList a _) = RFunction a"
| "as_callback (AClosure a) = RFunction a"
| "as_callback (APointer a _ _) = RFunction a"

subsection \<open>The entry points\<close>

type_synonym ('db, 'st) routine =
  "('db, 'st) session \<Rightarrow> ((r_error + rvalue) \<times> ('db, 'st) session \<times> string list) option"

text \<open>Between \<open>BEGIN_CPP11\<close> and \<open>END_CPP11\<close>: the converted call, or the error of a conversion.\<close>

definition cpp_body :: "('db, 'st) api \<Rightarrow> (nat \<Rightarrow> bool) \<Rightarrow> (nat \<times> r_answer) list \<Rightarrow> call res \<Rightarrow> ('db, 'st) routine" where
  "cpp_body A intr busy c s = (case c of Inl e \<Rightarrow> Some (athrow e s) | Inr c \<Rightarrow> run_busy A intr busy c s)"

definition RSQLCipher_connection_connect ::
  "('db, 'st) api \<Rightarrow> (nat \<Rightarrow> bool) \<Rightarrow> (nat \<times> r_answer) list \<Rightarrow> conversion \<Rightarrow> argument \<Rightarrow> argument \<Rightarrow> argument \<Rightarrow> argument \<Rightarrow> argument \<Rightarrow> ('db, 'st) routine" where
  "RSQLCipher_connection_connect A intr busy cv path allow_ext flags vfs with_alt = cpp_body A intr busy (rbind (as_string cv path) (\<lambda>path.
     rbind (as_bool cv allow_ext) (\<lambda>allow_ext.
     rbind (as_int cv flags) (\<lambda>flags.
     rbind (as_string cv vfs) (\<lambda>vfs.
     rbind (as_bool cv with_alt) (\<lambda>with_alt.
     Inr (Connect path allow_ext flags vfs with_alt)))))))"

definition RSQLCipher_connection_valid ::
  "('db, 'st) api \<Rightarrow> (nat \<Rightarrow> bool) \<Rightarrow> (nat \<times> r_answer) list \<Rightarrow> conversion \<Rightarrow> argument \<Rightarrow> ('db, 'st) routine" where
  "RSQLCipher_connection_valid A intr busy cv con = cpp_body A intr busy (rbind (as_connection cv con) (\<lambda>con.
     Inr (ConnectionValid con)))"

definition RSQLCipher_connection_release ::
  "('db, 'st) api \<Rightarrow> (nat \<Rightarrow> bool) \<Rightarrow> (nat \<times> r_answer) list \<Rightarrow> conversion \<Rightarrow> argument \<Rightarrow> ('db, 'st) routine" where
  "RSQLCipher_connection_release A intr busy cv con = cpp_body A intr busy (rbind (as_connection cv con) (\<lambda>con.
     Inr (ConnectionRelease con)))"

definition RSQLCipher_connection_in_transaction ::
  "('db, 'st) api \<Rightarrow> (nat \<Rightarrow> bool) \<Rightarrow> (nat \<times> r_answer) list \<Rightarrow> conversion \<Rightarrow> argument \<Rightarrow> ('db, 'st) routine" where
  "RSQLCipher_connection_in_transaction A intr busy cv con = cpp_body A intr busy (rbind (as_connection cv con) (\<lambda>con.
     Inr (InTransaction con)))"

definition RSQLCipher_connection_copy_database ::
  "('db, 'st) api \<Rightarrow> (nat \<Rightarrow> bool) \<Rightarrow> (nat \<times> r_answer) list \<Rightarrow> conversion \<Rightarrow> argument \<Rightarrow> argument \<Rightarrow> ('db, 'st) routine" where
  "RSQLCipher_connection_copy_database A intr busy cv source target = cpp_body A intr busy (rbind (as_connection cv source) (\<lambda>source.
     rbind (as_connection cv target) (\<lambda>target.
     Inr (CopyDatabase source target))))"

definition RSQLCipher_connection_import_file ::
  "('db, 'st) api \<Rightarrow> (nat \<Rightarrow> bool) \<Rightarrow> (nat \<times> r_answer) list \<Rightarrow> conversion \<Rightarrow> argument \<Rightarrow> argument \<Rightarrow> argument \<Rightarrow> argument \<Rightarrow> argument \<Rightarrow> argument \<Rightarrow> ('db, 'st) routine" where
  "RSQLCipher_connection_import_file A intr busy cv con name file sep eol skip = cpp_body A intr busy (rbind (as_connection cv con) (\<lambda>con.
     rbind (as_string cv name) (\<lambda>name.
     rbind (as_string cv file) (\<lambda>file.
     rbind (as_string cv sep) (\<lambda>sep.
     rbind (as_string cv eol) (\<lambda>eol.
     rbind (as_int cv skip) (\<lambda>skip.
     Inr (ImportCall con name file sep eol skip))))))))"

definition RSQLCipher_set_busy_handler ::
  "('db, 'st) api \<Rightarrow> (nat \<Rightarrow> bool) \<Rightarrow> (nat \<times> r_answer) list \<Rightarrow> conversion \<Rightarrow> argument \<Rightarrow> argument \<Rightarrow> ('db, 'st) routine" where
  "RSQLCipher_set_busy_handler A intr busy cv con r_callback = cpp_body A intr busy (rbind (as_connection cv con) (\<lambda>con.
     Inr (SetBusyHandler con (as_callback r_callback))))"

definition RSQLCipher_extension_load ::
  "('db, 'st) api \<Rightarrow> (nat \<Rightarrow> bool) \<Rightarrow> (nat \<times> r_answer) list \<Rightarrow> conversion \<Rightarrow> argument \<Rightarrow> argument \<Rightarrow> argument \<Rightarrow> ('db, 'st) routine" where
  "RSQLCipher_extension_load A intr busy cv con file entry_point = cpp_body A intr busy (rbind (as_connection cv con) (\<lambda>con.
     rbind (as_string cv file) (\<lambda>file.
     rbind (as_string cv entry_point) (\<lambda>entry_point.
     Inr (ExtensionLoad con file entry_point)))))"

definition RSQLCipher_result_create ::
  "('db, 'st) api \<Rightarrow> (nat \<Rightarrow> bool) \<Rightarrow> (nat \<times> r_answer) list \<Rightarrow> conversion \<Rightarrow> argument \<Rightarrow> argument \<Rightarrow> ('db, 'st) routine" where
  "RSQLCipher_result_create A intr busy cv con sql = cpp_body A intr busy (rbind (as_connection cv con) (\<lambda>con.
     rbind (as_string cv sql) (\<lambda>sql.
     Inr (ResultCreate con sql))))"

definition RSQLCipher_result_release ::
  "('db, 'st) api \<Rightarrow> (nat \<Rightarrow> bool) \<Rightarrow> (nat \<times> r_answer) list \<Rightarrow> conversion \<Rightarrow> argument \<Rightarrow> ('db, 'st) routine" where
  "RSQLCipher_result_release A intr busy cv res = cpp_body A intr busy (rbind (as_result_pointer cv res) (\<lambda>res.
     Inr (ResultRelease res)))"

definition RSQLCipher_result_valid ::
  "('db, 'st) api \<Rightarrow> (nat \<Rightarrow> bool) \<Rightarrow> (nat \<times> r_answer) list \<Rightarrow> conversion \<Rightarrow> argument \<Rightarrow> ('db, 'st) routine" where
  "RSQLCipher_result_valid A intr busy cv res = cpp_body A intr busy (rbind (as_result_pointer cv res) (\<lambda>res.
     Inr (ResultValid res)))"

definition RSQLCipher_result_fetch ::
  "('db, 'st) api \<Rightarrow> (nat \<Rightarrow> bool) \<Rightarrow> (nat \<times> r_answer) list \<Rightarrow> conversion \<Rightarrow> argument \<Rightarrow> argument \<Rightarrow> ('db, 'st) routine" where
  "RSQLCipher_result_fetch A intr busy cv res n = cpp_body A intr busy (rbind (as_DbResult res) (\<lambda>res.
     rbind (as_int cv n) (\<lambda>n.
     Inr (ResultFetch res n))))"

definition RSQLCipher_result_bind ::
  "('db, 'st) api \<Rightarrow> (nat \<Rightarrow> bool) \<Rightarrow> (nat \<times> r_answer) list \<Rightarrow> conversion \<Rightarrow> argument \<Rightarrow> argument \<Rightarrow> ('db, 'st) routine" where
  "RSQLCipher_result_bind A intr busy cv res params = cpp_body A intr busy (rbind (as_DbResult res) (\<lambda>res.
     rbind (as_list cv params) (\<lambda>params.
     Inr (ResultBind res params))))"

definition RSQLCipher_result_has_completed ::
  "('db, 'st) api \<Rightarrow> (nat \<Rightarrow> bool) \<Rightarrow> (nat \<times> r_answer) list \<Rightarrow> conversion \<Rightarrow> argument \<Rightarrow> ('db, 'st) routine" where
  "RSQLCipher_result_has_completed A intr busy cv res = cpp_body A intr busy (rbind (as_DbResult res) (\<lambda>res.
     Inr (HasCompleted res)))"

definition RSQLCipher_result_rows_fetched ::
  "('db, 'st) api \<Rightarrow> (nat \<Rightarrow> bool) \<Rightarrow> (nat \<times> r_answer) list \<Rightarrow> conversion \<Rightarrow> argument \<Rightarrow> ('db, 'st) routine" where
  "RSQLCipher_result_rows_fetched A intr busy cv res = cpp_body A intr busy (rbind (as_DbResult res) (\<lambda>res.
     Inr (RowsFetched res)))"

definition RSQLCipher_result_rows_affected ::
  "('db, 'st) api \<Rightarrow> (nat \<Rightarrow> bool) \<Rightarrow> (nat \<times> r_answer) list \<Rightarrow> conversion \<Rightarrow> argument \<Rightarrow> ('db, 'st) routine" where
  "RSQLCipher_result_rows_affected A intr busy cv res = cpp_body A intr busy (rbind (as_DbResult res) (\<lambda>res.
     Inr (RowsAffected res)))"

definition RSQLCipher_result_column_info ::
  "('db, 'st) api \<Rightarrow> (nat \<Rightarrow> bool) \<Rightarrow> (nat \<times> r_answer) list \<Rightarrow> conversion \<Rightarrow> argument \<Rightarrow> ('db, 'st) routine" where
  "RSQLCipher_result_column_info A intr busy cv res = cpp_body A intr busy (rbind (as_DbResult res) (\<lambda>res.
     Inr (ColumnInfo res)))"

definition RSQLCipher_result_get_placeholder_names ::
  "('db, 'st) api \<Rightarrow> (nat \<Rightarrow> bool) \<Rightarrow> (nat \<times> r_answer) list \<Rightarrow> conversion \<Rightarrow> argument \<Rightarrow> ('db, 'st) routine" where
  "RSQLCipher_result_get_placeholder_names A intr busy cv res = cpp_body A intr busy (rbind (as_SqliteResult res) (\<lambda>res.
     Inr (PlaceholderNames res)))"

definition RSQLCipher_rsqliteVersion ::
  "('db, 'st) api \<Rightarrow> (nat \<Rightarrow> bool) \<Rightarrow> (nat \<times> r_answer) list \<Rightarrow> conversion \<Rightarrow> ('db, 'st) routine" where
  "RSQLCipher_rsqliteVersion A intr busy cv = cpp_body A intr busy (Inr Version)"

subsection \<open>The registered table\<close>

text \<open>A \<open>DL_FUNC\<close> is a function of as many arguments as it is defined with.\<close>

datatype ('db, 'st) dl_func =
    DL0 "('db, 'st) routine"
  | DL1 "argument \<Rightarrow> ('db, 'st) routine"
  | DL2 "argument \<Rightarrow> argument \<Rightarrow> ('db, 'st) routine"
  | DL3 "argument \<Rightarrow> argument \<Rightarrow> argument \<Rightarrow> ('db, 'st) routine"
  | DL5 "argument \<Rightarrow> argument \<Rightarrow> argument \<Rightarrow> argument \<Rightarrow> argument \<Rightarrow> ('db, 'st) routine"
  | DL6 "argument \<Rightarrow> argument \<Rightarrow> argument \<Rightarrow> argument \<Rightarrow> argument \<Rightarrow> argument \<Rightarrow> ('db, 'st) routine"

definition wrong_arguments :: "('db, 'st) routine" where
  "wrong_arguments s = Some (athrow (UB ''C function called with another number of arguments'') s)"

fun apply_dl :: "('db, 'st) dl_func \<Rightarrow> argument list \<Rightarrow> ('db, 'st) routine" where
  "apply_dl (DL0 f) xs = (case xs of [] \<Rightarrow> f | _ \<Rightarrow> wrong_arguments)"
| "apply_dl (DL1 f) xs = (case xs of [a] \<Rightarrow> f a | _ \<Rightarrow> wrong_arguments)"
| "apply_dl (DL2 f) xs = (case xs of [a, b] \<Rightarrow> f a b | _ \<Rightarrow> wrong_arguments)"
| "apply_dl (DL3 f) xs = (case xs of [a, b, c] \<Rightarrow> f a b c | _ \<Rightarrow> wrong_arguments)"
| "apply_dl (DL5 f) xs = (case xs of [a, b, c, d, e] \<Rightarrow> f a b c d e | _ \<Rightarrow> wrong_arguments)"
| "apply_dl (DL6 f) xs = (case xs of [a, b, c, d, e, g] \<Rightarrow> f a b c d e g | _ \<Rightarrow> wrong_arguments)"

type_synonym ('db, 'st) call_methods = "(string \<times> ('db, 'st) dl_func \<times> nat) list"

definition CallEntries :: "('db, 'st) api \<Rightarrow> (nat \<Rightarrow> bool) \<Rightarrow> (nat \<times> r_answer) list \<Rightarrow> conversion \<Rightarrow> ('db, 'st) call_methods" where
  "CallEntries A intr busy cv =
    [(''_RSQLCipher_connection_connect'', DL5 (RSQLCipher_connection_connect A intr busy cv), 5),
     (''_RSQLCipher_connection_copy_database'', DL2 (RSQLCipher_connection_copy_database A intr busy cv), 2),
     (''_RSQLCipher_connection_import_file'', DL6 (RSQLCipher_connection_import_file A intr busy cv), 6),
     (''_RSQLCipher_connection_in_transaction'', DL1 (RSQLCipher_connection_in_transaction A intr busy cv), 1),
     (''_RSQLCipher_connection_release'', DL1 (RSQLCipher_connection_release A intr busy cv), 1),
     (''_RSQLCipher_connection_valid'', DL1 (RSQLCipher_connection_valid A intr busy cv), 1),
     (''_RSQLCipher_extension_load'', DL3 (RSQLCipher_extension_load A intr busy cv), 3),
     (''_RSQLCipher_result_bind'', DL2 (RSQLCipher_result_bind A intr busy cv), 2),
     (''_RSQLCipher_result_column_info'', DL1 (RSQLCipher_result_column_info A intr busy cv), 1),
     (''_RSQLCipher_result_create'', DL2 (RSQLCipher_result_create A intr busy cv), 2),
     (''_RSQLCipher_result_fetch'', DL2 (RSQLCipher_result_fetch A intr busy cv), 2),
     (''_RSQLCipher_result_get_placeholder_names'', DL1 (RSQLCipher_result_get_placeholder_names A intr busy cv), 1),
     (''_RSQLCipher_result_has_completed'', DL1 (RSQLCipher_result_has_completed A intr busy cv), 1),
     (''_RSQLCipher_result_release'', DL1 (RSQLCipher_result_release A intr busy cv), 1),
     (''_RSQLCipher_result_rows_affected'', DL1 (RSQLCipher_result_rows_affected A intr busy cv), 1),
     (''_RSQLCipher_result_rows_fetched'', DL1 (RSQLCipher_result_rows_fetched A intr busy cv), 1),
     (''_RSQLCipher_result_valid'', DL1 (RSQLCipher_result_valid A intr busy cv), 1),
     (''_RSQLCipher_rsqliteVersion'', DL0 (RSQLCipher_rsqliteVersion A intr busy cv), 0),
     (''_RSQLCipher_set_busy_handler'', DL2 (RSQLCipher_set_busy_handler A intr busy cv), 2)]"

text \<open>What \<open>R_init_RSQLCipher\<close> tells R of the library.\<close>

record ('db, 'st) dll_info =
  call_routines :: "('db, 'st) call_methods"
  dynamic_symbols :: bool
  force_symbols :: bool

definition R_init_RSQLCipher ::
  "('db, 'st) api \<Rightarrow> (nat \<Rightarrow> bool) \<Rightarrow> (nat \<times> r_answer) list \<Rightarrow> conversion \<Rightarrow> ('db, 'st) dll_info \<Rightarrow> ('db, 'st) dll_info" where
  "R_init_RSQLCipher A intr busy cv dll =
     dll\<lparr>call_routines := CallEntries A intr busy cv, dynamic_symbols := False, force_symbols := True\<rparr>"

text \<open>\<open>.Call\<close> with a registered routine: R compares the number of arguments.\<close>

definition dot_call :: "('db, 'st) dll_info \<Rightarrow> string \<Rightarrow> argument list \<Rightarrow> ('db, 'st) routine" where
  "dot_call dll symbol args s =
     (case map_of (call_routines dll) symbol of
        None \<Rightarrow> Some (athrow (RError ''object not found'') s)
      | Some (f, n) \<Rightarrow>
          if length args \<noteq> n then Some (athrow (RError ''Incorrect number of arguments'') s)
          else apply_dl f args s)"

subsection \<open>The R functions\<close>

text \<open>Each function of \<open>R/cpp11.R\<close>: its name, its formal arguments, the routine, what it passes.\<close>

definition cpp11_functions :: "(string \<times> string list \<times> string \<times> string list) list" where
  "cpp11_functions =
    [(''connection_connect'', [''path'', ''allow_ext'', ''flags'', ''vfs'', ''with_alt_types''], ''_RSQLCipher_connection_connect'', [''path'', ''allow_ext'', ''flags'', ''vfs'', ''with_alt_types'']),
     (''connection_valid'', [''con_''], ''_RSQLCipher_connection_valid'', [''con_'']),
     (''connection_release'', [''con_''], ''_RSQLCipher_connection_release'', [''con_'']),
     (''connection_in_transaction'', [''con_''], ''_RSQLCipher_connection_in_transaction'', [''con_'']),
     (''connection_copy_database'', [''from'', ''to''], ''_RSQLCipher_connection_copy_database'', [''from'', ''to'']),
     (''connection_import_file'', [''con'', ''name'', ''value'', ''sep'', ''eol'', ''skip''], ''_RSQLCipher_connection_import_file'', [''con'', ''name'', ''value'', ''sep'', ''eol'', ''skip'']),
     (''set_busy_handler'', [''con'', ''r_callback''], ''_RSQLCipher_set_busy_handler'', [''con'', ''r_callback'']),
     (''extension_load'', [''con'', ''file'', ''entry_point''], ''_RSQLCipher_extension_load'', [''con'', ''file'', ''entry_point'']),
     (''result_create'', [''con'', ''sql''], ''_RSQLCipher_result_create'', [''con'', ''sql'']),
     (''result_release'', [''res''], ''_RSQLCipher_result_release'', [''res'']),
     (''result_valid'', [''res_''], ''_RSQLCipher_result_valid'', [''res_'']),
     (''result_fetch'', [''res'', ''n''], ''_RSQLCipher_result_fetch'', [''res'', ''n'']),
     (''result_bind'', [''res'', ''params''], ''_RSQLCipher_result_bind'', [''res'', ''params'']),
     (''result_has_completed'', [''res''], ''_RSQLCipher_result_has_completed'', [''res'']),
     (''result_rows_fetched'', [''res''], ''_RSQLCipher_result_rows_fetched'', [''res'']),
     (''result_rows_affected'', [''res''], ''_RSQLCipher_result_rows_affected'', [''res'']),
     (''result_column_info'', [''res''], ''_RSQLCipher_result_column_info'', [''res'']),
     (''result_get_placeholder_names'', [''res''], ''_RSQLCipher_result_get_placeholder_names'', [''res'']),
     (''rsqliteVersion'', [], ''_RSQLCipher_rsqliteVersion'', [])]"

definition r_call :: "('db, 'st) dll_info \<Rightarrow> string \<Rightarrow> argument list \<Rightarrow> ('db, 'st) routine" where
  "r_call dll f args s =
     (case map_of cpp11_functions f of
        None \<Rightarrow> Some (athrow (RError ''could not find function'') s)
      | Some (formals, symbol, actuals) \<Rightarrow>
          if length args \<noteq> length formals then Some (athrow (RError ''missing or unused argument'') s)
          else dot_call dll symbol (map (\<lambda>x. the (map_of (zip formals args) x)) actuals) s)"

end
