(* ===== verification/GlueProps.thy ===== *)
theory GlueProps
  imports Glue SessionProps
begin

text \<open>
  Properties of the way from R into the C++ code: every R function runs the call it stands for,
  with its arguments in their places; whatever arguments R passes, nothing undefined happens that
  is not known of the call, pointers to objects of other types apart.
\<close>

subsection \<open>Arguments that convert\<close>

text \<open>What cpp11 documents of its conversions: vectors of length one, lists, external pointers.\<close>

definition conversions_ok :: "conversion \<Rightarrow> bool" where
  "conversions_ok cv \<longleftrightarrow>
     (\<forall>a z. as_string cv (AVector a (plain (StrSXP [RString z]))) = Inr z) \<and>
     (\<forall>a b. as_bool cv (AVector a (plain (LglSXP [Some (if b then 1 else 0)]))) = Inr b) \<and>
     (\<forall>a n. as_int cv (AVector a (plain (IntSXP [Some n]))) = Inr n) \<and>
     (\<forall>a xs. as_list cv (AList a xs) = Inr xs) \<and>
     (\<forall>a k p. as_external_pointer cv (APointer a k p) = Inr (k, p))"

fun r_string :: "string \<Rightarrow> argument" where
  "r_string z = AVector 0 (plain (StrSXP [RString z]))"

fun r_logical :: "bool \<Rightarrow> argument" where
  "r_logical b = AVector 0 (plain (LglSXP [Some (if b then 1 else 0)]))"

fun r_integer :: "i32 \<Rightarrow> argument" where
  "r_integer n = AVector 0 (plain (IntSXP [Some n]))"

fun r_connection :: "ptr \<Rightarrow> argument" where
  "r_connection p = APointer 0 ConnectionKind p"

fun r_result :: "ptr \<Rightarrow> argument" where
  "r_result p = APointer 0 ResultKind p"

fun r_callback :: "robject \<Rightarrow> argument" where
  "r_callback RNull = AVector 0 (plain NilSXP)"
| "r_callback (RIntegers a ms) = AVector a (plain (IntSXP (map Some ms)))"
| "r_callback (RFunction a) = AClosure a"

text \<open>The R function of a call and its arguments.\<close>

fun r_function :: "call \<Rightarrow> string \<times> argument list" where
  "r_function (Connect path allow_ext flags vfs alt) =
     (''connection_connect'', [r_string path, r_logical allow_ext, r_integer flags, r_string vfs, r_logical alt])"
| "r_function (ConnectionValid p) = (''connection_valid'', [r_connection p])"
| "r_function (ConnectionRelease p) = (''connection_release'', [r_connection p])"
| "r_function (InTransaction p) = (''connection_in_transaction'', [r_connection p])"
| "r_function (CopyDatabase p q) = (''connection_copy_database'', [r_connection p, r_connection q])"
| "r_function (ImportCall p name lib sep eol skip) =
     (''connection_import_file'', [r_connection p, r_string name, r_string lib, r_string sep, r_string eol, r_integer skip])"
| "r_function (SetBusyHandler p cb) = (''set_busy_handler'', [r_connection p, r_callback cb])"
| "r_function (ExtensionLoad p lib entry_point) =
     (''extension_load'', [r_connection p, r_string lib, r_string entry_point])"
| "r_function (ResultCreate p sql) = (''result_create'', [r_connection p, r_string sql])"
| "r_function (ResultRelease p) = (''result_release'', [r_result p])"
| "r_function (ResultValid p) = (''result_valid'', [r_result p])"
| "r_function (ResultFetch p n) = (''result_fetch'', [r_result p, r_integer n])"
| "r_function (ResultBind p params) = (''result_bind'', [r_result p, AList 0 params])"
| "r_function (HasCompleted p) = (''result_has_completed'', [r_result p])"
| "r_function (RowsFetched p) = (''result_rows_fetched'', [r_result p])"
| "r_function (RowsAffected p) = (''result_rows_affected'', [r_result p])"
| "r_function (ColumnInfo p) = (''result_column_info'', [r_result p])"
| "r_function (PlaceholderNames p) = (''result_get_placeholder_names'', [r_result p])"
| "r_function Version = (''rsqliteVersion'', [])"

lemmas entry_points =
  RSQLCipher_connection_connect_def RSQLCipher_connection_valid_def RSQLCipher_connection_release_def
  RSQLCipher_connection_in_transaction_def RSQLCipher_connection_copy_database_def
  RSQLCipher_connection_import_file_def RSQLCipher_set_busy_handler_def RSQLCipher_extension_load_def
  RSQLCipher_result_create_def RSQLCipher_result_release_def RSQLCipher_result_valid_def
  RSQLCipher_result_fetch_def RSQLCipher_result_bind_def RSQLCipher_result_has_completed_def
  RSQLCipher_result_rows_fetched_def RSQLCipher_result_rows_affected_def RSQLCipher_result_column_info_def
  RSQLCipher_result_get_placeholder_names_def RSQLCipher_rsqliteVersion_def

lemma as_callback_inverse: "as_callback (r_callback cb) = cb"
  by (cases cb) (simp_all add: plain_def comp_def)

lemma conversions_inverse:
  assumes "conversions_ok cv"
  shows "as_string cv (r_string z) = Inr z" "as_bool cv (r_logical b) = Inr b" "as_int cv (r_integer n) = Inr n"
    "as_list cv (AList a xs) = Inr xs" "as_connection cv (r_connection p) = Inr p"
    "as_result_pointer cv (r_result p) = Inr p" "as_DbResult (r_result p) = Inr p"
  using assms
  by (simp_all add: conversions_ok_def as_connection_def as_result_pointer_def as_DbResult_def pointer_to_def
      del: r_logical.simps) (simp_all add: conversions_ok_def)

text \<open>
  C15: every R function of \<open>R/cpp11.R\<close>, called with vectors and pointers of the right types, runs
  the C++ function of its name on these arguments, each in its place, and returns what it returns.
\<close>

theorem r_function_runs_call:
  assumes "conversions_ok cv"
  shows "r_call (R_init_RSQLCipher A intr busy cv dll) (fst (r_function c)) (snd (r_function c)) s = run_busy A intr busy c s"
  using conversions_inverse [OF assms]
  by (cases c)
    (simp_all add: r_call_def dot_call_def cpp11_functions_def R_init_RSQLCipher_def CallEntries_def
      entry_points cpp_body_def as_callback_inverse
      del: r_string.simps r_logical.simps r_integer.simps r_connection.simps r_result.simps r_callback.simps run_call.simps)


text \<open>A conversion that takes exactly these.\<close>

definition strict_conversion :: conversion where
  "strict_conversion =
     \<lparr>as_string = (\<lambda>x. case x of AVector a v \<Rightarrow> (case rdata v of StrSXP [RString z] \<Rightarrow> Inr z
          | _ \<Rightarrow> Inl (Stop ''Expected string vector of length 1'')) | _ \<Rightarrow> Inl (Stop ''Expected string vector of length 1'')),
      as_bool = (\<lambda>x. case x of AVector a v \<Rightarrow> (case rdata v of LglSXP [Some b] \<Rightarrow> Inr (b = 1)
          | _ \<Rightarrow> Inl (Stop ''Expected single logical value'')) | _ \<Rightarrow> Inl (Stop ''Expected single logical value'')),
      as_int = (\<lambda>x. case x of AVector a v \<Rightarrow> (case rdata v of IntSXP [Some n] \<Rightarrow> Inr n
          | _ \<Rightarrow> Inl (Stop ''Expected single integer value'')) | _ \<Rightarrow> Inl (Stop ''Expected single integer value'')),
      as_list = (\<lambda>x. case x of AList a xs \<Rightarrow> Inr xs | _ \<Rightarrow> Inl (Stop ''Invalid input type'')),
      as_external_pointer = (\<lambda>x. case x of APointer a k p \<Rightarrow> Inr (k, p) | _ \<Rightarrow> Inl (Stop ''Invalid input type''))\<rparr>"

lemma strict_conversion_ok: "conversions_ok strict_conversion"
  by (simp add: conversions_ok_def strict_conversion_def plain_def)

definition no_dll :: "('db, 'st) dll_info" where
  "no_dll = \<lparr>call_routines = [], dynamic_symbols = True, force_symbols = False\<rparr>"

theorem r_function_runs_call_witness:
  "r_call (R_init_RSQLCipher demo_api (\<lambda>_. False) [] strict_conversion no_dll) ''result_create''
     [r_connection (Some 0), r_string ''SELECT 1 AS x''] demo_connected = Some (Inr (RResult 1), demo_queried, [])"
  using r_function_runs_call [OF strict_conversion_ok, of demo_api "\<lambda>_. False" "[]" no_dll "ResultCreate (Some 0) ''SELECT 1 AS x''" demo_connected]
  unfolding run_busy_none demo_query by simp

subsection \<open>Whatever R passes\<close>

text \<open>R passes pointers it holds and lists whose vectors have values.\<close>

fun argument_possible :: "('db, 'st) session \<Rightarrow> argument \<Rightarrow> bool" where
  "argument_possible s (APointer a k p) \<longleftrightarrow> (k = ConnectionKind \<longrightarrow> held s p)"
| "argument_possible s (AList a xs) \<longleftrightarrow> (\<forall>x \<in> set xs. initialised (rdata x))"
| "argument_possible s _ \<longleftrightarrow> True"

text \<open>cpp11 refuses with an exception, and gives the list or the pointer it got.\<close>

definition conversions_safe :: "conversion \<Rightarrow> bool" where
  "conversions_safe cv \<longleftrightarrow>
     (\<forall>x e. as_string cv x = Inl e \<or> as_bool cv x = Inl e \<or> as_int cv x = Inl e \<or> as_list cv x = Inl e \<or>
        as_external_pointer cv x = Inl e \<longrightarrow> \<not> is_UB e) \<and>
     (\<forall>x xs. as_list cv x = Inr xs \<longrightarrow> (\<exists>a. x = AList a xs)) \<and>
     (\<forall>x k p. as_external_pointer cv x = Inr (k, p) \<longrightarrow> (\<exists>a. x = APointer a k p))"

text \<open>
  What the code takes on trust: that a pointer is one to its own kind of object, and for the
  functions that read the address themselves, that the object is a pointer.
\<close>

definition address_readers :: "string list" where
  "address_readers = [''result_fetch'', ''result_bind'', ''result_has_completed'', ''result_rows_fetched'',
     ''result_rows_affected'', ''result_column_info'', ''result_get_placeholder_names'']"

definition pointer_kind :: "string \<Rightarrow> kind" where
  "pointer_kind f = (if f \<in> set (''result_release'' # ''result_valid'' # address_readers) then ResultKind else ConnectionKind)"

fun is_pointer :: "argument \<Rightarrow> bool" where
  "is_pointer (APointer _ _ _) \<longleftrightarrow> True"
| "is_pointer _ \<longleftrightarrow> False"

fun wrong_pointer :: "kind \<Rightarrow> argument \<Rightarrow> bool" where
  "wrong_pointer k (APointer _ k' p) \<longleftrightarrow> k' \<noteq> k \<and> p \<noteq> None"
| "wrong_pointer k _ \<longleftrightarrow> False"

definition mistyped :: "string \<Rightarrow> argument list \<Rightarrow> bool" where
  "mistyped f args \<longleftrightarrow> (\<exists>x \<in> set args. wrong_pointer (pointer_kind f) x) \<or>
     f \<in> set address_readers \<and> args \<noteq> [] \<and> \<not> is_pointer (hd args)"

text \<open>A decoded call is possible and one of \<open>f\<close>, or refused; the refusal is undefined only if \<open>P\<close>.\<close>

definition decodes :: "('db, 'st) session \<Rightarrow> string \<Rightarrow> bool \<Rightarrow> call res \<Rightarrow> bool" where
  "decodes s f P c \<longleftrightarrow> (\<forall>e. c = Inl e \<longrightarrow> is_UB e \<longrightarrow> P) \<and> (\<forall>d. c = Inr d \<longrightarrow> possible s d \<and> fst (r_function d) = f)"

lemma decodes_call: "possible s c \<Longrightarrow> fst (r_function c) = f \<Longrightarrow> decodes s f P (Inr c)"
  by (simp add: decodes_def)

lemma decodes_string:
  "conversions_safe cv \<Longrightarrow> (\<And>z. decodes s f P (g z)) \<Longrightarrow> decodes s f P (rbind (as_string cv x) g)"
  by (cases "as_string cv x") (auto simp: decodes_def conversions_safe_def)

lemma decodes_bool:
  "conversions_safe cv \<Longrightarrow> (\<And>z. decodes s f P (g z)) \<Longrightarrow> decodes s f P (rbind (as_bool cv x) g)"
  by (cases "as_bool cv x") (auto simp: decodes_def conversions_safe_def)

lemma decodes_int:
  "conversions_safe cv \<Longrightarrow> (\<And>z. decodes s f P (g z)) \<Longrightarrow> decodes s f P (rbind (as_int cv x) g)"
  by (cases "as_int cv x") (auto simp: decodes_def conversions_safe_def)

lemma conversions_safeD:
  assumes "conversions_safe cv"
  shows "as_list cv x = Inr xs \<Longrightarrow> \<exists>a. x = AList a xs"
    and "as_external_pointer cv x = Inr (k, p) \<Longrightarrow> \<exists>a. x = APointer a k p"
  using assms by (blast dest: conversions_safe_def [THEN iffD1])+

lemma decodes_list:
  assumes "conversions_safe cv" "argument_possible s x"
    and "\<And>xs. \<forall>y \<in> set xs. initialised (rdata y) \<Longrightarrow> decodes s f P (g xs)"
  shows "decodes s f P (rbind (as_list cv x) g)"
proof (cases "as_list cv x")
  case (Inr xs)
  from conversions_safeD(1) [OF assms(1) Inr] obtain a where "x = AList a xs" by blast
  with assms Inr show ?thesis by simp
qed (use assms in \<open>auto simp: decodes_def conversions_safe_def\<close>)

lemma decodes_pointer:
  assumes "p \<noteq> None \<and> k' \<noteq> k \<Longrightarrow> P" "p = None \<or> k' = k \<Longrightarrow> decodes s f P (g p)"
  shows "decodes s f P (rbind (pointer_to k (k', p)) g)"
  using assms by (cases "p = None \<or> k' = k") (auto simp: pointer_to_def decodes_def)

lemma decodes_connection:
  assumes "conversions_safe cv" "argument_possible s x" "wrong_pointer ConnectionKind x \<Longrightarrow> P"
    and "\<And>p. held s p \<Longrightarrow> decodes s f P (g p)"
  shows "decodes s f P (rbind (as_connection cv x) g)"
proof (cases "as_external_pointer cv x")
  case (Inr y)
  obtain k p where y: "y = (k, p)" by (cases y) auto
  from conversions_safeD(2) [OF assms(1)] Inr y obtain a where x: "x = APointer a k p" by blast
  have "decodes s f P (rbind (pointer_to ConnectionKind (k, p)) g)"
    by (rule decodes_pointer) (use assms x in \<open>auto simp: held_def\<close>)
  then show ?thesis by (simp add: as_connection_def Inr y)
qed (use assms in \<open>auto simp: decodes_def conversions_safe_def as_connection_def\<close>)

lemma decodes_result_pointer:
  assumes "conversions_safe cv" "wrong_pointer ResultKind x \<Longrightarrow> P" "\<And>p. decodes s f P (g p)"
  shows "decodes s f P (rbind (as_result_pointer cv x) g)"
proof (cases "as_external_pointer cv x")
  case (Inr y)
  obtain k p where y: "y = (k, p)" by (cases y) auto
  from conversions_safeD(2) [OF assms(1)] Inr y obtain a where x: "x = APointer a k p" by blast
  have "decodes s f P (rbind (pointer_to ResultKind (k, p)) g)"
    by (rule decodes_pointer) (use assms x in auto)
  then show ?thesis by (simp add: as_result_pointer_def Inr y)
qed (use assms in \<open>auto simp: decodes_def conversions_safe_def as_result_pointer_def\<close>)

lemma decodes_DbResult:
  assumes "wrong_pointer ResultKind x \<Longrightarrow> P" "\<not> is_pointer x \<Longrightarrow> P" "\<And>p. decodes s f P (g p)"
  shows "decodes s f P (rbind (as_DbResult x) g)"
proof (cases x)
  case (APointer a k p)
  have "decodes s f P (rbind (pointer_to ResultKind (k, p)) g)"
    by (rule decodes_pointer) (use assms APointer in auto)
  then show ?thesis by (simp add: as_DbResult_def APointer)
qed (use assms in \<open>auto simp: decodes_def as_DbResult_def\<close>)

lemmas decodes_intros =
  decodes_string decodes_bool decodes_int decodes_list decodes_connection decodes_result_pointer decodes_DbResult
  decodes_call


text \<open>Every function of the table decodes its arguments.\<close>

definition outcome_ok ::
  "('db, 'st) api \<Rightarrow> (nat \<Rightarrow> bool) \<Rightarrow> (nat \<times> r_answer) list \<Rightarrow> string \<Rightarrow> bool \<Rightarrow> ('db, 'st) session \<Rightarrow>
     ((r_error + rvalue) \<times> ('db, 'st) session \<times> string list) option \<Rightarrow> bool" where
  "outcome_ok A intr busy f P s y \<longleftrightarrow>
     (\<exists>e. y = Some (Inl e, s, []) \<and> (is_UB e \<longrightarrow> P)) \<or> (\<exists>c. possible s c \<and> fst (r_function c) = f \<and> y = run_busy A intr busy c s)"

lemma cpp_body_ok: "decodes s f P c \<Longrightarrow> outcome_ok A intr busy f P s (cpp_body A intr busy c s)"
  by (cases c) (auto simp: outcome_ok_def cpp_body_def decodes_def athrow_def)

lemma r_functions_ok:
  assumes "conversions_safe cv" "(f, formals, symbol, actuals) \<in> set cpp11_functions"
    and "length args = length formals" "\<forall>x \<in> set args. argument_possible s x"
  shows "outcome_ok A intr busy f (mistyped f args) s (r_call (R_init_RSQLCipher A intr busy cv dll) f args s)"
  using assms
  apply (simp add: cpp11_functions_def)
  apply (elim disjE conjE)
                    apply (simp_all add: r_call_def dot_call_def cpp11_functions_def R_init_RSQLCipher_def
      CallEntries_def length_Suc_conv)
                    apply ((elim exE conjE)?, simp add: entry_points, rule cpp_body_ok,
      (intro decodes_intros; simp add: mistyped_def pointer_kind_def address_readers_def))+
  done

text \<open>
  C16: whatever function of \<open>R/cpp11.R\<close> R calls with whatever arguments, and whatever busy handlers
  SQLite asks meanwhile, either the call is refused with an error and changes nothing, or it is one
  call of the session.  It is undefined only when a pointer is to an object of another type, a
  non-pointer is taken for a result, the call itself is one the code leaves unguarded, or it works
  on a locked database whose handler is NULL, belongs to a disconnected connection or does not
  answer with an integer.
\<close>

theorem r_functions_safe:
  assumes "packages_keep_data (env_packages (api_stmt A))" "\<not> is_UB (null_pointer_error A)" "conversions_safe cv"
    and "session_reachable A s" "\<forall>x \<in> set args. argument_possible s x"
    and "r_call (R_init_RSQLCipher A intr busy cv dll) f args s = Some (out, t, ws)"
  shows "((\<exists>e. out = Inl e) \<and> t = s \<and> ws = [] \<or> (\<exists>c. possible s c \<and> fst (r_function c) = f \<and> run_busy A intr busy c s = Some (out, t, ws)))
    \<and> (undefined_behaviour out \<longrightarrow> mistyped f args \<or>
      (\<exists>c. possible s c \<and> fst (r_function c) = f \<and> run_busy A intr busy c s = Some (out, t, ws) \<and>
        (risky A s c \<or> risky_handler busy (works_on s c) s)))"
proof -
  let ?dll = "R_init_RSQLCipher A intr busy cv dll"
  have "outcome_ok A intr busy f (mistyped f args) s (r_call ?dll f args s)"
  proof (cases "map_of cpp11_functions f")
    case None
    then show ?thesis by (simp add: outcome_ok_def r_call_def athrow_def)
  next
    case (Some y)
    obtain formals symbol actuals where y: "y = (formals, symbol, actuals)" by (cases y) auto
    show ?thesis
    proof (cases "length args = length formals")
      case True
      with r_functions_ok [OF assms(3) _ True assms(5)] map_of_SomeD [OF Some] y show ?thesis by blast
    next
      case False
      with Some y show ?thesis by (simp add: outcome_ok_def r_call_def athrow_def)
    qed
  qed
  with assms(6) consider (refused) e where "out = Inl e" "t = s" "ws = []" "is_UB e \<longrightarrow> mistyped f args"
    | (run) c where "possible s c" "fst (r_function c) = f" "run_busy A intr busy c s = Some (out, t, ws)"
    unfolding outcome_ok_def by (metis option.inject prod.inject)
  then show ?thesis
  proof cases
    case refused
    then show ?thesis by simp
  next
    case (run c)
    with run_busy_UB [OF session_reachable_inv [OF assms(1,4)] run(1) assms(1,2) run(3)] show ?thesis by blast
  qed
qed

lemma strict_conversion_safe: "conversions_safe strict_conversion"
  by (auto simp: conversions_safe_def strict_conversion_def
      split: argument.splits sexp.splits list.splits option.splits rstring.splits)

theorem r_functions_safe_witness:
  "mistyped ''result_fetch'' [r_connection (Some 0), r_integer 5]"
proof -
  let ?dll = "R_init_RSQLCipher demo_api (\<lambda>_. False) [] strict_conversion no_dll"
  have run: "r_call ?dll ''result_fetch'' [r_connection (Some 0), r_integer 5] demo_queried =
      Some (Inl (UB ''pointer to an object of another type''), demo_queried, [])"
    by (simp add: r_call_def dot_call_def cpp11_functions_def R_init_RSQLCipher_def CallEntries_def entry_points
        cpp_body_def as_DbResult_def pointer_to_def athrow_def)
  have "fst (r_function c) = ''result_fetch'' \<Longrightarrow> \<not> risky demo_api demo_queried c" for c
    by (cases c) simp_all
  then show ?thesis
    using r_functions_safe [OF demo_keeps _ strict_conversion_safe demo_reachable(2) _ run]
    by (auto simp: demo_api_def held_def demo_queried_def world0_def)
qed

end
