(* ===== verification/Client.thy ===== *)
theory Client
  imports SessionLeaks
begin

text \<open>
  The methods of \<open>src/R\<close> on results, on top of the session: \<open>dbSendQuery\<close>, \<open>dbBind\<close> with
  \<open>db_bind.R\<close>, \<open>dbFetch\<close>, \<open>dbClearResult\<close> and those that ask about a result or a connection.
  They keep, in the environment of each connection object, the result that is open on it
  (\<open>conn@ref$result\<close>).

  R's conditions are the failures and warnings of the prelude.  Strings are the bytes of their
  UTF-8 encoding, so \<open>enc2utf8\<close> is the identity.  Parameters (\<open>r_env\<close>) are the conversion of a
  number to a C \<open>int\<close> by cpp11, the conversions of factors and of 64-bit integers to other vectors,
  and what \<open>DBI::sqlColumnToRownames\<close> makes of a data frame.
\<close>

subsection \<open>Objects\<close>

datatype bigint = Integer64 | BigInteger | BigNumeric | BigCharacter

text \<open>
  The slots of the S4 classes; \<open>con_ref\<close> is the environment, named by a number.  The slot \<open>key\<close> of a
  connection is never set.
\<close>

record r_connection =
  con_ptr :: ptr
  con_dbname :: string
  con_loadable_extensions :: bool
  con_flags :: i32
  con_vfs :: string
  con_ref :: nat
  con_bigint :: bigint
  con_extended_types :: bool

record r_result =
  res_sql :: string
  res_ptr :: ptr
  res_conn :: r_connection
  res_bigint :: bigint

text \<open>The session and, for every environment, its variable \<open>result\<close>.\<close>

record ('db, 'st) client =
  cl_session :: "('db, 'st) session"
  cl_ref :: "nat \<Rightarrow> r_result option"

record r_env =
  as_cpp_int :: "int \<Rightarrow> i32 res"
  factor_as_character :: "robj \<Rightarrow> robj"
  integer64_as :: "bigint \<Rightarrow> robj \<Rightarrow> robj"
  sqlColumnToRownames :: "r_data_frame \<Rightarrow> r_data_frame res"

text \<open>A list of parameters, with its names unless they are NULL.\<close>

type_synonym r_list = "string list option \<times> robj list"

subsection \<open>R's control flow\<close>

definition on_session :: "(('db, 'st) session, 'a) act \<Rightarrow> (('db, 'st) client, 'a) act" where
  "on_session m s = (case m (cl_session s) of (x, t, ws) \<Rightarrow> (x, s\<lparr>cl_session := t\<rparr>, ws))"

definition awarn :: "string \<Rightarrow> ('s, unit) act" where
  "awarn w = alift (warning w)"

text \<open>
  \<open>on.exit\<close> with a handler that is cancelled at the end: it runs when the body fails, before the
  failure goes on; a failure of the handler replaces it.
\<close>

definition on_error :: "('s, 'b) act \<Rightarrow> ('s, 'a) act \<Rightarrow> ('s, 'a) act" where
  "on_error handler action s =
     (case action s of
        (Inl e, t, ws) \<Rightarrow>
          if is_UB e then (Inl e, t, ws)
          else (case handler t of (y, u, ws') \<Rightarrow> (rbind y (\<lambda>_. Inl e), u, ws @ ws'))
      | (Inr x, t, ws) \<Rightarrow> (Inr x, t, ws))"

definition set_ref :: "nat \<Rightarrow> r_result option \<Rightarrow> (('db, 'st) client, unit) act" where
  "set_ref e res = amodify (\<lambda>s. s\<lparr>cl_ref := (cl_ref s)(e := res)\<rparr>)"

subsection \<open>Methods that are one call\<close>

definition dbIsValid_SQLiteResult :: "r_result \<Rightarrow> (('db, 'st) client, bool) act" where
  "dbIsValid_SQLiteResult dbObj = on_session (r_result_valid (res_ptr dbObj))"

definition dbIsValid_SQLiteConnection :: "r_connection \<Rightarrow> (('db, 'st) client, bool) act" where
  "dbIsValid_SQLiteConnection dbObj = on_session (r_connection_valid (con_ptr dbObj))"

definition dbHasCompleted_SQLiteResult :: "r_result \<Rightarrow> (('db, 'st) client, bool) act" where
  "dbHasCompleted_SQLiteResult res = on_session (r_result_has_completed (res_ptr res))"

definition dbGetRowCount_SQLiteResult :: "r_result \<Rightarrow> (('db, 'st) client, i32) act" where
  "dbGetRowCount_SQLiteResult res = on_session (r_result_rows_fetched (res_ptr res))"

definition dbGetRowsAffected_SQLiteResult :: "('db, 'st) api \<Rightarrow> r_result \<Rightarrow> (('db, 'st) client, i32) act" where
  "dbGetRowsAffected_SQLiteResult A res = on_session (r_result_rows_affected A (res_ptr res))"

definition dbColumnInfo_SQLiteResult ::
  "('db, 'st) api \<Rightarrow> r_result \<Rightarrow> (('db, 'st) client, string list \<times> string list \<times> i32 list) act" where
  "dbColumnInfo_SQLiteResult A res = on_session (r_result_column_info A (res_ptr res))"

definition dbDisconnect_SQLiteConnection :: "('db, 'st) api \<Rightarrow> r_connection \<Rightarrow> (('db, 'st) client, bool) act" where
  "dbDisconnect_SQLiteConnection A con =
     abind (on_session (r_connection_release A (con_ptr con))) (\<lambda>_. areturn True)"

definition sqliteIsTransacting :: "('db, 'st) api \<Rightarrow> r_connection \<Rightarrow> (('db, 'st) client, bool) act" where
  "sqliteIsTransacting A con = on_session (r_connection_in_transaction A (con_ptr con))"

definition dbGetStatement_SQLiteResult :: "r_result \<Rightarrow> (('db, 'st) client, string) act" where
  "dbGetStatement_SQLiteResult res =
     abind (dbIsValid_SQLiteResult res) (\<lambda>valid.
       if valid then areturn (res_sql res) else athrow (Stop ''Expired, result set already closed''))"

definition sqliteCopyDatabase :: "('db, 'st) api \<Rightarrow> r_connection \<Rightarrow> r_connection \<Rightarrow> (('db, 'st) client, unit) act" where
  "sqliteCopyDatabase A from_con to_con =
     on_session (r_connection_copy_database A (con_ptr from_con) (con_ptr to_con))"

text \<open>\<open>lib_path\<close> is the path of the package's shared library, \<open>extension\<close> one of the five names.\<close>

definition initExtension :: "('db, 'st) api \<Rightarrow> string \<Rightarrow> r_connection \<Rightarrow> string \<Rightarrow> (('db, 'st) client, bool) act" where
  "initExtension A lib_path db extension =
     (if \<not> con_loadable_extensions db
      then athrow (Stop ''Loadable extensions are not enabled for this db connection'')
      else abind (on_session (r_extension_load A (con_ptr db) lib_path (''sqlite3_'' @ extension @ ''_init'')))
        (\<lambda>_. areturn True))"

text \<open>The object \<open>dbConnect\<close> makes, with a new environment; here it is named like the connection.\<close>

definition new_connection ::
  "('db, 'st) api \<Rightarrow> string \<Rightarrow> bool \<Rightarrow> i32 \<Rightarrow> string \<Rightarrow> bool \<Rightarrow> bigint \<Rightarrow> (('db, 'st) client, r_connection) act" where
  "new_connection A dbname loadable_extensions flags vfs extended_types bigint =
     abind (on_session (r_connection_connect A dbname loadable_extensions flags vfs extended_types)) (\<lambda>c.
     abind (set_ref c None) (\<lambda>_. areturn
       \<lparr>con_ptr = Some c, con_dbname = dbname, con_loadable_extensions = loadable_extensions, con_flags = flags,
        con_vfs = vfs, con_ref = c, con_bigint = bigint, con_extended_types = extended_types\<rparr>))"

subsection \<open>The busy handler\<close>

text \<open>R's numbers: NA or NaN, infinite (positive or not), whole, or between \<open>k\<close> and \<open>k + 1\<close>.\<close>

datatype r_number = NumNA | NumInfinite bool | NumWhole int | NumBetween int

text \<open>\<open>as.integer\<close>, which cuts off towards zero and makes NA of what does not fit.\<close>

definition as_integer :: "r_number \<Rightarrow> i32 eff" where
  "as_integer n =
     (let na = ebind (warning ''NAs introduced by coercion to integer range'') (\<lambda>_. ret NA_INTEGER) in
      case n of
        NumNA \<Rightarrow> ret NA_INTEGER
      | NumInfinite _ \<Rightarrow> na
      | NumWhole k \<Rightarrow> if - (2 ^ 31) < k \<and> k < 2 ^ 31 then ret (of_int k) else na
      | NumBetween k \<Rightarrow>
          if - (2 ^ 31) \<le> k \<and> k < 2 ^ 31 then ret (of_int (if k < 0 then k + 1 else k)) else na)"

datatype handler_arg = HandlerNull | HandlerNumbers "r_number list" | HandlerFunction nat | HandlerOther

text \<open>
  \<open>new_object\<close> is the address of the object made for the call: the integer vector, or the function
  that calls the handler in a \<open>tryCatch\<close>.
\<close>

definition sqliteSetBusyHandler ::
  "('db, 'st) api \<Rightarrow> nat \<Rightarrow> r_connection \<Rightarrow> handler_arg \<Rightarrow> (('db, 'st) client, unit) act" where
  "sqliteSetBusyHandler A new_object dbObj handler =
     (let wrong = athrow (Stop ''is.null(handler) || is.function(handler) || ... is not TRUE'') in
      case handler of
        HandlerNull \<Rightarrow> on_session (r_set_busy_handler A (con_ptr dbObj) RNull)
      | HandlerFunction _ \<Rightarrow> on_session (r_set_busy_handler A (con_ptr dbObj) (RFunction new_object))
      | HandlerNumbers [n] \<Rightarrow>
          if n = NumNA then wrong
          else abind (alift (as_integer n)) (\<lambda>ms.
            on_session (r_set_busy_handler A (con_ptr dbObj) (RIntegers new_object [ms])))
      | _ \<Rightarrow> wrong)"

text \<open>What a call of that function answers when the handler answers \<open>ans\<close>: 0 for a failure.\<close>

definition raw_handler :: "r_answer \<Rightarrow> r_answer" where
  "raw_handler ans = (case ans of Fails _ \<Rightarrow> Answers [0] | _ \<Rightarrow> ans)"

definition answered :: "(nat \<times> r_answer) list \<Rightarrow> (nat \<times> r_answer) list" where
  "answered busy = map (\<lambda>(c, ans). (c, raw_handler ans)) busy"

text \<open>
  A method during which SQLite finds the database of a connection in \<open>cs\<close> locked and asks for the
  handlers of R: \<open>busy\<close> gives the connection and what its handler answers, each time.
\<close>

definition while_busy ::
  "nat list \<Rightarrow> (nat \<times> r_answer) list \<Rightarrow> (('db, 'st) client, 'a) act \<Rightarrow> (('db, 'st) client, 'a) act" where
  "while_busy cs busy m s =
     (case busy_events cs (answered busy) (cl_session s) of Inl e \<Rightarrow> athrow e s | Inr _ \<Rightarrow> m s)"

text \<open>
  \<open>dbSendQuery\<close> works on its connection and on that of the pending result it closes; the
  methods on a result work on the connection of that result.
\<close>

definition query_works_on :: "('db, 'st) client \<Rightarrow> r_connection \<Rightarrow> nat list" where
  "query_works_on s con = open_handle (cl_session s) (con_ptr con) @
     (case cl_ref s (con_ref con) of None \<Rightarrow> [] | Some res \<Rightarrow> statement_handle (cl_session s) (res_ptr res))"

definition result_works_on :: "('db, 'st) client \<Rightarrow> r_result \<Rightarrow> nat list" where
  "result_works_on s res = statement_handle (cl_session s) (res_ptr res)"

subsection \<open>dbClearResult\<close>

definition dbClearResult_SQLiteResult :: "('db, 'st) api \<Rightarrow> r_result \<Rightarrow> (('db, 'st) client, bool) act" where
  "dbClearResult_SQLiteResult A res =
     abind (dbIsValid_SQLiteResult res) (\<lambda>valid.
       if \<not> valid then abind (awarn ''Expired, result set already closed'') (\<lambda>_. areturn True)
       else abind (on_session (r_result_release A (res_ptr res))) (\<lambda>_.
         abind (set_ref (con_ref (res_conn res)) None) (\<lambda>_. areturn True)))"

subsection \<open>db_bind\<close>

text \<open>\<open>grepl("^[1-9][0-9]*$", n)\<close>\<close>

definition is_number :: "string \<Rightarrow> bool" where
  "is_number n = (case n of [] \<Rightarrow> False
     | c # cs \<Rightarrow> c \<in> set ''123456789'' \<and> list_all (\<lambda>d. d \<in> set ''0123456789'') cs)"

text \<open>One element of \<open>match(x, table)\<close>, counted from 0; \<open>None\<close> is \<open>NA\<close>, as for NULL names.\<close>

fun r_match :: "string \<Rightarrow> string list \<Rightarrow> nat option" where
  "r_match x [] = None"
| "r_match x (y # ys) = (if x = y then Some 0 else map_option Suc (r_match x ys))"

definition names_of :: "r_list \<Rightarrow> string list" where
  "names_of params = (case fst params of None \<Rightarrow> [] | Some names \<Rightarrow> names)"

definition factor_to_string :: "r_env \<Rightarrow> robj list \<Rightarrow> robj list eff" where
  "factor_to_string E xs =
     (let is_factor = (\<lambda>x. ''factor'' \<in> set (rclass x)) in
      ebind (if list_ex is_factor xs then warning ''Factors converted to character'' else ret ())
        (\<lambda>_. ret (map (\<lambda>x. if is_factor x then factor_as_character E x else x) xs)))"

text \<open>The parameters in the order of the placeholders, without their names.\<close>

definition match_params :: "bool \<Rightarrow> string list \<Rightarrow> r_list \<Rightarrow> robj list eff" where
  "match_params allow_named_superset placeholder_names params =
     (let names = names_of params;
          param_indexes = map (\<lambda>p. r_match p names) placeholder_names;
          missing = map fst (filter (\<lambda>(p, i). i = None) (zip placeholder_names param_indexes)) in
      if missing \<noteq> [] then Inl (Stop (''No value given for placeholder '' @ comma_separated missing))
      else
        let unmatched = filter (\<lambda>i. Some i \<notin> set param_indexes) [0..<length (snd params)];
            text = ''Named parameters not used in query: '' @
              comma_separated (if fst params = None then [] else map ((!) names) unmatched);
            chosen = map (\<lambda>i. snd params ! the i) param_indexes in
        if unmatched = [] then ret chosen
        else if allow_named_superset then ebind (warning text) (\<lambda>_. ret chosen)
        else Inl (Stop text))"

definition order_params :: "bool \<Rightarrow> string list \<Rightarrow> r_list \<Rightarrow> robj list eff" where
  "order_params allow_named_superset placeholder_names params =
     (let empty = map (\<lambda>n. n = []) placeholder_names; numbers = map is_number placeholder_names in
      if list_ex id empty \<and> \<not> list_all id empty
      then Inl (Stop ''Cannot mix anonymous and named/numbered placeholders in query'')
      else if list_ex id numbers \<and> \<not> list_all id numbers
      then Inl (Stop ''Cannot mix numbered and named placeholders in query'')
      else if list_ex id empty \<or> list_ex id numbers
      then (if fst params \<noteq> None \<or> list_ex (\<lambda>n. n \<noteq> []) (names_of params)
            then Inl (Stop ''Cannot use named parameters for anonymous/numbered placeholders'')
            else ret (snd params))
      else match_params allow_named_superset placeholder_names params)"

definition db_bind_R :: "('db, 'st) api \<Rightarrow> r_env \<Rightarrow> bool \<Rightarrow> r_result \<Rightarrow> r_list \<Rightarrow> (('db, 'st) client, unit) act" where
  "db_bind_R A E allow_named_superset res params =
     abind (on_session (r_result_get_placeholder_names A (res_ptr res))) (\<lambda>placeholder_names.
     abind (alift (order_params allow_named_superset placeholder_names params)) (\<lambda>params.
     abind (alift (factor_to_string E params)) (\<lambda>params.
       on_session (r_result_bind A (res_ptr res) params))))"

definition dbBind_SQLiteResult :: "('db, 'st) api \<Rightarrow> r_env \<Rightarrow> r_result \<Rightarrow> r_list \<Rightarrow> (('db, 'st) client, unit) act" where
  "dbBind_SQLiteResult A E = db_bind_R A E False"

subsection \<open>dbSendQuery\<close>

text \<open>What it does first: the result that is open on the connection is closed.\<close>

definition close_pending :: "('db, 'st) api \<Rightarrow> r_connection \<Rightarrow> (('db, 'st) client, unit) act" where
  "close_pending A con s =
     (case cl_ref s (con_ref con) of
        None \<Rightarrow> areturn () s
      | Some res \<Rightarrow>
          abind (awarn ''Closing open result set, pending rows'') (\<lambda>_.
          abind (dbClearResult_SQLiteResult A res) (\<lambda>_ s.
            if cl_ref s (con_ref con) = None then areturn () s
            else athrow (Stop ''is.null(conn@ref$result) is not TRUE'') s)) s)"

definition dbSendQuery ::
  "('db, 'st) api \<Rightarrow> r_env \<Rightarrow> r_connection \<Rightarrow> string \<Rightarrow> r_list option \<Rightarrow> (('db, 'st) client, r_result) act" where
  "dbSendQuery A E con statement params =
     abind (close_pending A con) (\<lambda>_.
     abind (on_session (r_result_create A (con_ptr con) statement)) (\<lambda>ptr.
       let rs = \<lparr>res_sql = statement, res_ptr = Some ptr, res_conn = con, res_bigint = con_bigint con\<rparr> in
       abind (on_error (dbClearResult_SQLiteResult A rs)
           (case params of None \<Rightarrow> areturn () | Some params \<Rightarrow> dbBind_SQLiteResult A E rs params)) (\<lambda>_.
       abind (set_ref (con_ref con) (Some rs)) (\<lambda>_. areturn rs))))"

definition dbListResults_SQLiteConnection :: "r_connection \<Rightarrow> (('db, 'st) client, r_result list) act" where
  "dbListResults_SQLiteConnection con =
     abind (awarn ''Querying the results associated with a connection is no longer supported'') (\<lambda>_ s.
       areturn (case cl_ref s (con_ref con) of None \<Rightarrow> [] | Some res \<Rightarrow> [res]) s)"

subsection \<open>dbFetch\<close>

definition fetch_count :: "r_env \<Rightarrow> r_number list \<Rightarrow> i32 res" where
  "fetch_count E n =
     (case n of
        [NumNA] \<Rightarrow> as_cpp_int E 256
      | [NumInfinite positive] \<Rightarrow>
          if positive then as_cpp_int E (- 1) else Inl (Stop ''`n` must be nonnegative or -1'')
      | [NumWhole k] \<Rightarrow> if k < - 1 then Inl (Stop ''`n` must be nonnegative or -1'') else as_cpp_int E k
      | [NumBetween k] \<Rightarrow>
          Inl (Stop (if k < - 1 then ''`n` must be nonnegative or -1'' else ''`n` must be a whole number''))
      | _ \<Rightarrow> Inl (Stop ''`n` must be scalar''))"

definition convert_bigint :: "r_env \<Rightarrow> bigint \<Rightarrow> r_data_frame \<Rightarrow> r_data_frame" where
  "convert_bigint E bigint df =
     (if bigint = Integer64 then df
      else df\<lparr>rdf_columns := map (\<lambda>x. if ''integer64'' \<in> set (rclass x) then integer64_as E bigint x else x)
                (rdf_columns df)\<rparr>)"

definition dbFetch_SQLiteResult ::
  "('db, 'st) api \<Rightarrow> r_env \<Rightarrow> (nat \<Rightarrow> bool) \<Rightarrow> r_result \<Rightarrow> r_number list \<Rightarrow> ('db, 'st) client \<Rightarrow>
     ((r_error + r_data_frame) \<times> ('db, 'st) client \<times> string list) option" where
  "dbFetch_SQLiteResult A E intr res n s =
     (case fetch_count E n of
        Inl e \<Rightarrow> Some (athrow e s)
      | Inr n \<Rightarrow> map_option (\<lambda>(df, t, ws).
            (rbind df (\<lambda>df. sqlColumnToRownames E (convert_bigint E (res_bigint res) df)), s\<lparr>cl_session := t\<rparr>, ws))
          (r_result_fetch A intr (res_ptr res) n (cl_session s)))"

definition fetch_while_busy ::
  "nat list \<Rightarrow> (nat \<times> r_answer) list \<Rightarrow>
     (('db, 'st) client \<Rightarrow> ((r_error + 'a) \<times> ('db, 'st) client \<times> string list) option) \<Rightarrow>
     ('db, 'st) client \<Rightarrow> ((r_error + 'a) \<times> ('db, 'st) client \<times> string list) option" where
  "fetch_while_busy cs busy m s =
     (case busy_events cs (answered busy) (cl_session s) of Inl e \<Rightarrow> Some (athrow e s) | Inr _ \<Rightarrow> m s)"

subsection \<open>Parameters in the order of the placeholders\<close>

lemma r_match_Some: "r_match x ys = Some i \<Longrightarrow> i < length ys \<and> ys ! i = x"
  by (induction ys arbitrary: i) (auto split: if_splits)

lemma r_match_None: "r_match x ys = None \<longleftrightarrow> x \<notin> set ys"
  by (induction ys) auto

lemma r_match_value: "length vals = length ys \<Longrightarrow> r_match x ys = Some i \<Longrightarrow> map_of (zip ys vals) x = Some (vals ! i)"
proof (induction ys arbitrary: vals i)
  case (Cons y ys)
  then show ?case by (cases vals) (auto split: if_splits)
qed simp

text \<open>The names of a list are as many as its elements.\<close>

definition named_ok :: "r_list \<Rightarrow> bool" where
  "named_ok params \<longleftrightarrow> (\<forall>names. fst params = Some names \<longrightarrow> length names = length (snd params))"

lemma match_params_subset:
  assumes "match_params allow pn params = Inr (qs, ws)" "named_ok params"
  shows "set qs \<subseteq> set (snd params)"
proof -
  let ?idx = "map (\<lambda>p. r_match p (names_of params)) pn"
  have "map fst (filter (\<lambda>(p, i). i = None) (zip pn ?idx)) = []" and qs: "qs = map (\<lambda>i. snd params ! the i) ?idx"
    using assms(1) by (auto simp: match_params_def Let_def ebind_def ret_def warning_def split: if_splits)
  then have found: "r_match p (names_of params) \<noteq> None" if "p \<in> set pn" for p
    using that by (auto simp: filter_empty_conv zip_map2 set_zip in_set_conv_nth)
  have "length (names_of params) \<le> length (snd params)"
    using assms(2) by (auto simp: named_ok_def names_of_def split: option.split)
  with found r_match_Some show ?thesis by (fastforce simp: qs)
qed

lemma order_params_subset:
  "order_params allow pn params = Inr (qs, ws) \<Longrightarrow> named_ok params \<Longrightarrow> set qs \<subseteq> set (snd params)"
  using match_params_subset [of allow pn params]
  by (auto simp: order_params_def ret_def Let_def split: if_splits)

lemma map_of_match: "length vals = length names \<Longrightarrow> p \<in> set names \<Longrightarrow>
    vals ! the (r_match p names) = the (map_of (zip names vals) p)"
  using r_match_value [of vals names p] r_match_None [of p names] by (cases "r_match p names") auto

lemma r_match_nth: "distinct names \<Longrightarrow> i < length names \<Longrightarrow> r_match (names ! i) names = Some i"
proof (induction names arbitrary: i)
  case (Cons y ys)
  then show ?case by (cases i) auto
qed simp

text \<open>Named parameters, one for each placeholder, come in the order of the placeholders.\<close>

lemma order_params_named:
  assumes pn: "\<forall>p \<in> set pn. p \<noteq> [] \<and> \<not> is_number p"
    and names: "distinct names" "set names = set pn" "length vals = length names"
  shows "order_params allow pn (Some names, vals) = ret (map (\<lambda>p. the (map_of (zip names vals) p)) pn)"
proof -
  let ?idx = "map (\<lambda>p. r_match p names) pn"
  have missing: "filter (\<lambda>(p, i). i = None) (zip pn ?idx) = []"
    using names(2) r_match_None [of _ names] by (auto simp: filter_empty_conv zip_map2 set_zip)
  have "Some i \<in> set ?idx" if "i < length vals" for i
    using r_match_nth [OF names(1), of i] that names(2,3) nth_mem [of i names] by (metis imageI list.set_map)
  then have unmatched: "filter (\<lambda>i. Some i \<notin> set ?idx) [0..<length vals] = []"
    by (auto simp: filter_empty_conv)
  have chosen: "map (\<lambda>i. vals ! the i) ?idx = map (\<lambda>p. the (map_of (zip names vals) p)) pn"
    using map_of_match [OF names(3)] names(2) by simp
  have "match_params allow pn (Some names, vals) = ret (map (\<lambda>i. vals ! the i) ?idx)"
    unfolding match_params_def Let_def names_of_def using missing unmatched by simp
  moreover have "\<not> list_ex id (map (\<lambda>n. n = []) pn)" "\<not> list_ex id (map is_number pn)"
    using pn by (auto simp: list_ex_iff)
  ultimately show ?thesis unfolding order_params_def Let_def chosen by simp
qed

end
