(* ===== verification/ClientRun.thy ===== *)
theory ClientRun
  imports Client
begin

text \<open>
  Any sequence of the R methods, with the collector and other users of the databases in between.
  The invariant is the discipline the R code keeps over the C++ objects: the results R has and the
  variables \<open>conn@ref$result\<close> are in one-to-one correspondence, so a connection never has more
  than one result, and closing the pending one always succeeds.
\<close>

subsection \<open>The discipline\<close>

text \<open>\<open>h k\<close> is the connection held by result \<open>k\<close>, \<open>ref e\<close> the variable of connection \<open>e\<close>.\<close>

definition refs_ok :: "(nat \<Rightarrow> r_result option) \<Rightarrow> (nat \<Rightarrow> nat option) \<Rightarrow> bool" where
  "refs_ok ref h \<longleftrightarrow>
     (\<forall>e res. ref e = Some res \<longrightarrow> con_ref (res_conn res) = e \<and> (\<exists>k. res_ptr res = Some k \<and> h k = Some e)) \<and>
     (\<forall>k e. h k = Some e \<longrightarrow> (\<exists>res. ref e = Some res \<and> res_ptr res = Some k))"

lemma refs_okD:
  assumes "refs_ok ref h"
  shows "ref e = Some res \<Longrightarrow> con_ref (res_conn res) = e \<and> (\<exists>k. res_ptr res = Some k \<and> h k = Some e)"
    and "h k = Some e \<Longrightarrow> \<exists>res. ref e = Some res \<and> res_ptr res = Some k"
  using assms by (auto simp: refs_ok_def)

lemma refs_ok_unique: "refs_ok ref h \<Longrightarrow> h k = Some e \<Longrightarrow> h k' = Some e \<Longrightarrow> k = k'"
  using refs_okD(2) [of ref h k e] refs_okD(2) [of ref h k' e] by auto

lemma refs_ok_close:
  assumes "refs_ok ref h" "h k = Some e"
  shows "refs_ok (ref(e := None)) (h(k := None))"
proof -
  have "e' = e" if "ref e' = Some res" "res_ptr res = Some k" for e' res
    using refs_okD(1) [OF assms(1) that(1)] that(2) assms(2) by simp
  moreover have "k' = k" if "h k' = Some e" for k' using refs_ok_unique [OF assms(1) that assms(2)] .
  ultimately show ?thesis
    using assms(1) by (auto simp: refs_ok_def) (metis option.inject)+
qed

lemma refs_ok_none: "refs_ok ref h \<Longrightarrow> ref e = None \<longleftrightarrow> (\<forall>k. h k \<noteq> Some e)"
  by (metis not_None_eq refs_okD)

lemma refs_ok_open:
  assumes ok: "refs_ok ref h" and new: "ref e = None" "h k = None" "res_ptr res = Some k" "con_ref (res_conn res) = e"
  shows "refs_ok (ref(e \<mapsto> res)) (h(k \<mapsto> e))"
proof -
  have "h k' \<noteq> Some e" for k' using refs_ok_none [OF ok] new(1) by blast
  moreover have "\<exists>k'. k' \<noteq> k \<and> res_ptr res' = Some k' \<and> h k' = Some e'" if "ref e' = Some res'" for e' res'
    using refs_okD(1) [OF ok that] new(2) by (metis option.distinct(1))
  ultimately show ?thesis
    using refs_okD [OF ok] new by (auto simp: refs_ok_def) metis
qed

subsection \<open>What calls of the session do to the results\<close>

lemma keeps_unit: "db_keeps A (\<lambda>_. ())"
  by (simp add: db_keeps_def statement_keeps_def)

text \<open>The calls that make or release objects.\<close>

fun makes_objects :: "call \<Rightarrow> bool" where
  "makes_objects (ResultCreate p sql) \<longleftrightarrow> True"
| "makes_objects (ResultRelease p) \<longleftrightarrow> True"
| "makes_objects (Connect path ext flags vfs alt) \<longleftrightarrow> True"
| "makes_objects _ \<longleftrightarrow> False"

lemma fetch_holder:
  "r_result_fetch A intr p n s = Some (x, t, ws) \<Longrightarrow> holder t = holder s \<and> se_next t = se_next s"
  using fetch_leaves [OF keeps_unit] by blast

lemma call_holder:
  assumes "run_call A intr c s = Some (out, t, ws)" "\<not> makes_objects c"
  shows "holder t = holder s \<and> se_next t = se_next s"
proof (cases "\<exists>p tbl vfile sep eol skip. c = ImportCall p tbl vfile sep eol skip")
  case True
  then show ?thesis using assms(1) import_holder by (fastforce simp: avalue_run)
next
  case False
  then show ?thesis using run_call_leaves [OF keeps_unit assms(1)] assms(2) by (cases c) auto
qed

lemma release_holder:
  assumes inv: "session_inv s" and run: "r_result_release A (Some k) s = (x, t, ws)"
  shows "x = Inr () \<and> session_inv t \<and> holder t = (holder s)(k := None) \<and> se_next t = se_next s"
proof -
  have "se_next t = se_next s"
    using run by (auto simp: r_result_release_def delete_result_def with_conn_def areturn_def athrow_def Let_def
        split: option.splits prod.splits)
  moreover have "run_call A (\<lambda>_. False) (ResultRelease (Some k)) s = Some (rbind x (\<lambda>_. Inr RNilValue), t, ws)"
    using run by (simp add: avalue_run)
  from release_results [OF this inv] have "se_results t = (se_results s)(k := None)" by simp
  ultimately show ?thesis using result_release_inv [OF inv run] by (auto simp: holder_def)
qed

lemma drop_owner_ext_ptr [simp]:
  "ext_ptr (drop_owner w) = ext_ptr w"
  by (simp add: drop_owner_def destroy_def disconnect_def release_callback_data_def split: option.split)

lemma release_held:
  assumes inv: "session_inv s" and run: "r_result_release A (Some k) s = (x, t, ws)" and p: "held s p"
  shows "held t p"
proof (cases "se_results s k")
  case (Some r)
  obtain w where w: "se_conns s (dr_conn r) = Some w" using session_invD(2) [OF inv Some] by auto
  obtain y w' ws2 where y: "Connection.result_release w = (y, w', ws2)" by (cases "Connection.result_release w") auto
  then have "ext_ptr w' = ext_ptr w"
    by (auto simp: Connection.result_release_def reset_current_result_def areturn_def split: if_splits)
  moreover have "se_conns t = (se_conns s)(dr_conn r \<mapsto> w')"
    using run Some w y by (auto simp: r_result_release_def delete_result_def with_conn_def Let_def)
  ultimately show ?thesis using p w by (auto simp: held_def)
qed (use run p in \<open>auto simp: r_result_release_def areturn_def\<close>)

lemma create_holder:
  assumes inv: "session_inv s" and p: "held s p" and run: "r_result_create A p sql s = (x, t, ws)"
  shows "session_inv t \<and>
    ((\<exists>e. x = Inl e \<and> holder t = holder s \<and> se_next t = se_next s) \<or>
     (\<exists>k c. p = Some c \<and> x = Inr k \<and> k = se_next s \<and> se_next t = Suc k \<and>
        holder s k = None \<and> holder t = (holder s)(k \<mapsto> c)))"
proof -
  have "session_inv t" by (rule result_create_inv [OF assms])
  moreover have "(\<exists>e. x = Inl e \<and> holder t = holder s \<and> se_next t = se_next s) \<or>
     (\<exists>k c. p = Some c \<and> x = Inr k \<and> k = se_next s \<and> se_next t = Suc k \<and>
        holder s k = None \<and> holder t = (holder s)(k \<mapsto> c))"
  proof (cases p)
    case (Some c)
    obtain w where w: "se_conns s c = Some w" "ext_ptr w" using heldD p Some by blast
    from with_conn_checked [OF w(1), of check_connection A] obtain u ws1
      where u: "with_conn A c check_connection s = (fst (check_connection w), u, ws1)" "se_conns u = se_conns s"
      by blast
    have same: "holder u = holder s" "se_next u = se_next s"
      using leavesD [OF with_conn_leaves [OF keeps_unit abandons_none(2)] u(1)] by simp_all
    have fresh: "holder s (se_next s) = None"
      using session_tally(2) [OF inv] by (auto simp: holder_def dom_def)
    obtain out db ws2 where out: "sqlite_result_impl A c w sql (se_sqlite u) = (out, db, ws2)" by (metis prod.exhaust)
    obtain y w' ws3 where y: "Connection.result_create (rbind out (\<lambda>_. Inr ())) w = (y, w', ws3)" by (metis prod.exhaust)
    from u(1) run Some consider (closed) e where "x = Inl e" "t = u"
      | (made) ws4 where "create_and_send_query A c sql u = (x, t, ws4)"
      by (cases "fst (check_connection w)") (auto simp: r_result_create_def deref_def abind_def split: prod.splits)
    then show ?thesis
    proof cases
      case made
      then have "t = (let v = put_conn A c w' (u\<lparr>se_sqlite := db\<rparr>) in case rbind y (\<lambda>_. out) of Inl e \<Rightarrow> v
          | Inr i \<Rightarrow> v\<lparr>se_results := (se_results u)(se_next u \<mapsto> \<lparr>dr_conn = c, dr_impl = Some i\<rparr>),
              se_next := Suc (se_next u)\<rparr>)"
        and "x = rbind (rbind y (\<lambda>_. out)) (\<lambda>_. Inr (se_next u))"
        using u(2) w(1) out y by (auto simp: create_and_send_query_def Let_def split: sum.splits)
      then show ?thesis
        using Some fresh same by (cases "rbind y (\<lambda>_. out)") (auto simp: Let_def holder_def fun_eq_iff)
    qed (use same in simp)
  qed (use run in \<open>auto simp: r_result_create_def deref_def athrow_def\<close>)
  ultimately show ?thesis ..
qed

subsection \<open>The methods\<close>

definition client_inv :: "('db, 'st) client \<Rightarrow> bool" where
  "client_inv s \<longleftrightarrow> session_inv (cl_session s) \<and> refs_ok (cl_ref s) (holder (cl_session s))"

text \<open>A connection object R still has, and a result object that was made for its connection.\<close>

definition con_object :: "('db, 'st) client \<Rightarrow> r_connection \<Rightarrow> bool" where
  "con_object s con \<longleftrightarrow> con_ptr con = Some (con_ref con) \<and> held (cl_session s) (con_ptr con)"

definition result_object :: "('db, 'st) client \<Rightarrow> r_result \<Rightarrow> bool" where
  "result_object s res \<longleftrightarrow>
     (\<forall>k. res_ptr res = Some k \<longrightarrow> k < se_next (cl_session s) \<and>
        (\<forall>c. holder (cl_session s) k = Some c \<longrightarrow> con_ref (res_conn res) = c))"

text \<open>Addresses are not used again, so such an object stays one.\<close>

definition later :: "('db, 'st) client \<Rightarrow> ('db, 'st) client \<Rightarrow> bool" where
  "later s t \<longleftrightarrow> se_next (cl_session s) \<le> se_next (cl_session t) \<and>
     (\<forall>k c. k < se_next (cl_session s) \<longrightarrow> holder (cl_session t) k = Some c \<longrightarrow> holder (cl_session s) k = Some c)"

lemma later_refl: "later s s"
  by (simp add: later_def)

lemma later_trans: "later s t \<Longrightarrow> later t u \<Longrightarrow> later s u"
  by (auto simp: later_def)

lemma result_object_later: "result_object s res \<Longrightarrow> later s t \<Longrightarrow> result_object t res"
  by (fastforce simp: result_object_def later_def)

lemma later_same:
  "holder (cl_session t) = holder (cl_session s) \<Longrightarrow> se_next (cl_session t) = se_next (cl_session s) \<Longrightarrow> later s t"
  by (simp add: later_def)

text \<open>The vectors of R have values in all cells, and so have those of a converted factor.\<close>

definition r_params :: "r_list \<Rightarrow> bool" where
  "r_params params \<longleftrightarrow> named_ok params \<and> (\<forall>x \<in> set (snd params). initialised (rdata x))"

definition env_ok :: "r_env \<Rightarrow> bool" where
  "env_ok E \<longleftrightarrow> (\<forall>x. initialised (rdata x) \<longrightarrow> initialised (rdata (factor_as_character E x)))"

lemma on_session_run:
  "on_session m s = (x, t, ws) \<longleftrightarrow> (\<exists>u. m (cl_session s) = (x, u, ws) \<and> t = s\<lparr>cl_session := u\<rparr>)"
  by (auto simp: on_session_def split: prod.splits)

lemma on_session_eq: "m (cl_session s) = (x, u, ws) \<Longrightarrow> on_session m s = (x, s\<lparr>cl_session := u\<rparr>, ws)"
  by (simp add: on_session_run)

lemma client_simps [simp]:
  "set_ref e res s = (Inr (), s\<lparr>cl_ref := (cl_ref s)(e := res)\<rparr>, [])"
  "awarn w s = (Inr (), s, [w])"
  by (simp_all add: set_ref_def amodify_def awarn_def alift_def warning_def)

lemma result_valid_holder:
  "r_result_valid p s = (Inr (\<exists>k. p = Some k \<and> holder s k \<noteq> None), s, [])"
  by (auto simp: r_result_valid_def areturn_def holder_def db_is_active_def is_current_result_def
      split: option.splits)

lemma is_valid_result: "dbIsValid_SQLiteResult res s
    = (Inr (\<exists>k. res_ptr res = Some k \<and> holder (cl_session s) k \<noteq> None), s, [])"
  by (simp add: dbIsValid_SQLiteResult_def on_session_def result_valid_holder)

lemma clear_expired:
  assumes "\<And>k. res_ptr res = Some k \<Longrightarrow> holder (cl_session s) k = None"
  shows "dbClearResult_SQLiteResult A res s = (Inr True, s, [''Expired, result set already closed''])"
  using assms by (auto simp: dbClearResult_SQLiteResult_def abind_def is_valid_result areturn_def)

lemma clear_live:
  assumes inv: "session_inv (cl_session s)" and k: "res_ptr res = Some k" "holder (cl_session s) k = Some e"
  shows "\<exists>u ws. dbClearResult_SQLiteResult A res s
      = (Inr True, s\<lparr>cl_session := u, cl_ref := (cl_ref s)(con_ref (res_conn res) := None)\<rparr>, ws)
    \<and> r_result_release A (Some k) (cl_session s) = (Inr (), u, ws)
    \<and> session_inv u \<and> holder u = (holder (cl_session s))(k := None) \<and> se_next u = se_next (cl_session s)"
proof -
  obtain x u ws where u: "r_result_release A (Some k) (cl_session s) = (x, u, ws)" by (metis prod.exhaust)
  note r = release_holder [OF inv u]
  have "on_session (r_result_release A (Some k)) s = (Inr (), s\<lparr>cl_session := u\<rparr>, ws)"
    using on_session_eq [of "r_result_release A (Some k)" s] u r by simp
  with r u k show ?thesis
    by (simp add: dbClearResult_SQLiteResult_def abind_def is_valid_result areturn_def)
qed

lemma clear_ok:
  assumes inv: "client_inv s" and res: "result_object s res" and run: "dbClearResult_SQLiteResult A res s = (x, t, ws)"
  shows "x = Inr True \<and> client_inv t \<and> later s t \<and> (\<forall>p. held (cl_session s) p \<longrightarrow> held (cl_session t) p)
    \<and> (\<forall>k. res_ptr res = Some k \<longrightarrow> cl_ref s (con_ref (res_conn res)) = Some res \<longrightarrow> cl_ref t (con_ref (res_conn res)) = None)"
proof (cases "\<exists>k e. res_ptr res = Some k \<and> holder (cl_session s) k = Some e")
  case True
  then obtain k e where k: "res_ptr res = Some k" "holder (cl_session s) k = Some e" by blast
  have s: "session_inv (cl_session s)" "refs_ok (cl_ref s) (holder (cl_session s))" "con_ref (res_conn res) = e"
    using inv res k by (auto simp: client_inv_def result_object_def)
  obtain u ws' where u: "dbClearResult_SQLiteResult A res s = (Inr True, s\<lparr>cl_session := u, cl_ref := (cl_ref s)(e := None)\<rparr>, ws')"
    "r_result_release A (Some k) (cl_session s) = (Inr (), u, ws')" "session_inv u" "holder u = (holder (cl_session s))(k := None)" "se_next u = se_next (cl_session s)"
    using clear_live [OF s(1) k, of A] s(3) by auto
  show ?thesis
    using u run s refs_ok_close [OF s(2) k(2)] release_held [OF s(1) u(2)]
    by (auto simp: client_inv_def later_def)
next
  case False
  with clear_expired [of res s A] run have "x = Inr True" "t = s" by (auto simp: not_Some_eq)
  moreover have "cl_ref s (con_ref (res_conn res)) \<noteq> Some res"
    using False inv refs_okD(1) [of "cl_ref s" "holder (cl_session s)" "con_ref (res_conn res)" res]
    by (auto simp: client_inv_def)
  ultimately show ?thesis using inv by (simp add: later_refl)
qed

lemma bound_initialised:
  assumes "order_params allow names params = Inr (qs, ws)" "factor_to_string E qs = Inr (ps, ws')"
    and "r_params params" "env_ok E"
  shows "\<forall>x \<in> set ps. initialised (rdata x)"
proof -
  have "\<forall>x \<in> set qs. initialised (rdata x)"
    using order_params_subset [OF assms(1)] assms(3) by (auto simp: r_params_def)
  then show ?thesis
    using assms(2,4) by (auto simp: env_ok_def factor_to_string_def Let_def ebind_eq_Inr ret_def warning_def
        split: if_splits)
qed

lemma bind_ok:
  assumes P: "packages_keep_data (env_packages (api_stmt A))" and E: "env_ok E" and params: "r_params params"
    and inv: "session_inv (cl_session s)" and run: "db_bind_R A E allow res params s = (x, t, ws)" "\<not> undefined_behaviour x"
  shows "session_inv (cl_session t) \<and> holder (cl_session t) = holder (cl_session s) \<and> cl_ref t = cl_ref s
    \<and> se_next (cl_session t) = se_next (cl_session s)"
proof -
  obtain y u ws1 where u: "r_result_get_placeholder_names A (res_ptr res) (cl_session s) = (y, u, ws1)" by (metis prod.exhaust)
  have cu: "run_call A (\<lambda>_. False) (PlaceholderNames (res_ptr res)) (cl_session s) = Some (rbind y (\<lambda>v. Inr (RStrings v)), u, ws1)"
    using u by (simp add: avalue_run)
  have "\<not> undefined_behaviour y"
  proof (cases y)
    case (Inl e)
    then show ?thesis using run u by (auto simp: db_bind_R_def abind_def on_session_def)
  qed simp
  then have inv_u: "session_inv u" using run_call_inv [OF P inv _ cu] by (simp add: avalue_UB)
  have hold_u: "holder u = holder (cl_session s) \<and> se_next u = se_next (cl_session s)" by (rule call_holder [OF cu]) simp
  show ?thesis
  proof (cases "\<exists>names qs ws2 ps ws3. y = Inr names \<and> order_params allow names params = Inr (qs, ws2)
      \<and> factor_to_string E qs = Inr (ps, ws3)")
    case True
    then obtain names qs ws2 ps ws3 where q: "y = Inr names" "order_params allow names params = Inr (qs, ws2)"
      "factor_to_string E qs = Inr (ps, ws3)" by blast
    obtain v ws4 where v: "r_result_bind A (res_ptr res) ps u = (x, v, ws4)" "t = s\<lparr>cl_session := v\<rparr>"
      using run u q by (auto simp: db_bind_R_def abind_def on_session_def alift_def split: prod.splits)
    have cv: "run_call A (\<lambda>_. False) (ResultBind (res_ptr res) ps) u = Some (rbind x (\<lambda>_. Inr RNilValue), v, ws4)"
      using v by (simp add: avalue_run)
    have "possible u (ResultBind (res_ptr res) ps)" using bound_initialised [OF q(2,3) params E] by simp
    then have "session_inv v" using run_call_inv [OF P inv_u _ cv] run(2) by (simp add: avalue_UB)
    moreover have "holder v = holder u \<and> se_next v = se_next u" by (rule call_holder [OF cv]) simp
    ultimately show ?thesis using v(2) hold_u by simp
  next
    case False
    then have "t = s\<lparr>cl_session := u\<rparr>"
      using run u by (auto simp: db_bind_R_def abind_def on_session_def alift_def split: prod.splits sum.splits)
    then show ?thesis using inv_u hold_u by simp
  qed
qed

text \<open>The binding that \<open>dbSendQuery\<close> may do.\<close>

abbreviation bind_if :: "('db, 'st) api \<Rightarrow> r_env \<Rightarrow> r_result \<Rightarrow> r_list option \<Rightarrow> (('db, 'st) client, unit) act" where
  "bind_if A E rs params \<equiv> (case params of None \<Rightarrow> areturn () | Some params \<Rightarrow> dbBind_SQLiteResult A E rs params)"

lemma bind_if_ok:
  assumes P: "packages_keep_data (env_packages (api_stmt A))" and E: "env_ok E"
    and params: "\<And>ps. params = Some ps \<Longrightarrow> r_params ps"
    and inv: "session_inv (cl_session s)" and run: "bind_if A E rs params s = (x, t, ws)" "\<not> undefined_behaviour x"
  shows "session_inv (cl_session t) \<and> holder (cl_session t) = holder (cl_session s) \<and> cl_ref t = cl_ref s
    \<and> se_next (cl_session t) = se_next (cl_session s)"
proof (cases params)
  case (Some ps)
  then show ?thesis
    using bind_ok [OF P E params [OF Some] inv, where allow = False and res = rs] run by (simp add: dbBind_SQLiteResult_def)
qed (use run inv in \<open>auto simp: areturn_def\<close>)

lemma close_pending_ok:
  assumes inv: "client_inv s" and run: "close_pending A con s = (x, t, ws)"
  shows "x = Inr () \<and> client_inv t \<and> later s t \<and> cl_ref t (con_ref con) = None \<and> (\<forall>p. held (cl_session s) p \<longrightarrow> held (cl_session t) p)"
proof (cases "cl_ref s (con_ref con)")
  case (Some res)
  have ok: "session_inv (cl_session s)" "refs_ok (cl_ref s) (holder (cl_session s))" using inv by (simp_all add: client_inv_def)
  obtain k where k: "res_ptr res = Some k" "holder (cl_session s) k = Some (con_ref con)" "con_ref (res_conn res) = con_ref con"
    using refs_okD(1) [OF ok(2) Some] by blast
  have "k < se_next (cl_session s)"
    using k(2) session_invD(2) [OF ok(1)] by (auto simp: holder_def)
  with k have res: "result_object s res" by (simp add: result_object_def)
  obtain y u ws1 where u: "dbClearResult_SQLiteResult A res s = (y, u, ws1)" by (metis prod.exhaust)
  from clear_ok [OF inv res u] k Some
  have "y = Inr True" "client_inv u" "later s u" "cl_ref u (con_ref con) = None" "\<forall>p. held (cl_session s) p \<longrightarrow> held (cl_session u) p"
    by simp_all
  then show ?thesis using run Some u by (simp add: close_pending_def abind_def areturn_def)
qed (use inv run in \<open>simp add: close_pending_def areturn_def later_refl\<close>)

lemma send_ok:
  assumes P: "packages_keep_data (env_packages (api_stmt A))" and E: "env_ok E"
    and params: "\<And>ps. params = Some ps \<Longrightarrow> r_params ps"
    and inv: "client_inv s" and con: "con_object s con"
    and run: "dbSendQuery A E con sql params s = (x, t, ws)" "\<not> undefined_behaviour x"
  shows "client_inv t \<and> later s t \<and>
    (\<forall>rs. x = Inr rs \<longrightarrow> cl_ref t (con_ref con) = Some rs \<and> res_conn rs = con \<and> result_object t rs)"
proof -
  obtain y s1 ws1 where s1: "close_pending A con s = (y, s1, ws1)" by (metis prod.exhaust)
  note c = close_pending_ok [OF inv s1]
  have ok: "session_inv (cl_session s1)" "refs_ok (cl_ref s1) (holder (cl_session s1))" "held (cl_session s1) (con_ptr con)"
    using c con by (auto simp: client_inv_def con_object_def)
  obtain z u ws2 where u: "r_result_create A (con_ptr con) sql (cl_session s1) = (z, u, ws2)" by (metis prod.exhaust)
  note made = create_holder [OF ok(1,3) u]
  show ?thesis
  proof (cases z)
    case (Inl e)
    then have "t = s1\<lparr>cl_session := u\<rparr>"
      using run s1 c u by (simp add: dbSendQuery_def abind_def on_session_def)
    moreover have "x = Inl e" using run s1 c u Inl by (simp add: dbSendQuery_def abind_def on_session_def)
    moreover have "later s1 (s1\<lparr>cl_session := u\<rparr>)" using made Inl by (auto intro: later_same)
    ultimately show ?thesis using c ok made Inl later_trans [of s s1] by (simp add: client_inv_def)
  next
    case (Inr k)
    let ?rs = "\<lparr>res_sql = sql, res_ptr = Some k, res_conn = con, res_bigint = con_bigint con\<rparr>" and ?s2 = "s1\<lparr>cl_session := u\<rparr>"
    have h: "session_inv u" "holder u = (holder (cl_session s1))(k \<mapsto> con_ref con)" "holder (cl_session s1) k = None"
      "k = se_next (cl_session s1)" "se_next u = Suc k"
      using made Inr con by (auto simp: con_object_def)
    obtain b v ws3 where v: "bind_if A E ?rs params ?s2 = (b, v, ws3)" by (metis prod.exhaust)
    have b: "\<not> undefined_behaviour b"
      using run s1 c u Inr v by (cases b) (auto simp: dbSendQuery_def abind_def on_session_def on_error_def Let_def split: if_splits)
    have v': "session_inv (cl_session v) \<and> holder (cl_session v) = holder u \<and> cl_ref v = cl_ref s1
        \<and> se_next (cl_session v) = se_next u"
      using bind_if_ok [OF P E params _ v b] h(1) by simp
    show ?thesis
    proof (cases b)
      case (Inr d)
      have t: "t = v\<lparr>cl_ref := (cl_ref v)(con_ref con \<mapsto> ?rs)\<rparr>" "x = Inr ?rs"
        using run s1 c u \<open>z = Inr k\<close> v Inr
        by (auto simp: dbSendQuery_def abind_def on_session_def on_error_def areturn_def Let_def)
      moreover have "refs_ok ((cl_ref s1)(con_ref con \<mapsto> ?rs)) ((holder (cl_session s1))(k \<mapsto> con_ref con))"
        by (rule refs_ok_open [OF ok(2)]) (use c h(3) in simp_all)
      moreover have "later s1 t" using t v' h by (auto simp: later_def)
      moreover have "result_object t ?rs" using t v' h by (auto simp: result_object_def)
      ultimately show ?thesis using v' h(2) c later_trans [of s s1 t] t by (simp add: client_inv_def)
    next
      case (Inl e)
      have live: "session_inv (cl_session v)" "holder (cl_session v) k = Some (con_ref con)" using v' h(2) by simp_all
      from clear_live [OF live(1), of ?rs, OF _ live(2)] obtain w ws4 where w: "dbClearResult_SQLiteResult A ?rs v
          = (Inr True, v\<lparr>cl_session := w, cl_ref := (cl_ref v)(con_ref con := None)\<rparr>, ws4)"
        "session_inv w" "holder w = (holder (cl_session v))(k := None)" "se_next w = se_next (cl_session v)" by fastforce
      then have t: "t = v\<lparr>cl_session := w, cl_ref := (cl_ref v)(con_ref con := None)\<rparr>"
        and "x = Inl e"
        using run b s1 c u \<open>z = Inr k\<close> v Inl
        by (auto simp: dbSendQuery_def abind_def on_session_def on_error_def Let_def)
      moreover have "later s1 t" using t v' h w by (auto simp: later_def)
      moreover have "(cl_ref s1)(con_ref con := None) = cl_ref s1" using c by (auto simp: fun_eq_iff)
      moreover have "((holder (cl_session s1))(k \<mapsto> con_ref con))(k := None) = holder (cl_session s1)"
        using h(3) by (auto simp: fun_eq_iff)
      ultimately show ?thesis using v' w(2,3) h(2) ok(2) c later_trans [of s s1 t] by (simp add: client_inv_def)
    qed
  qed
qed

lemma fetch_ok_client:
  assumes P: "packages_keep_data (env_packages (api_stmt A))" and inv: "client_inv s"
    and run: "dbFetch_SQLiteResult A E intr res n s = Some (x, t, ws)"
  shows "client_inv t \<and> later s t"
proof (cases "fetch_count E n")
  case (Inr m)
  then obtain y u where u: "r_result_fetch A intr (res_ptr res) m (cl_session s) = Some (y, u, ws)" "t = s\<lparr>cl_session := u\<rparr>"
    using run by (auto simp: dbFetch_SQLiteResult_def)
  then show ?thesis
    using inv fetch_inv [OF P _ u(1)] fetch_holder [OF u(1)] by (simp add: client_inv_def later_same)
qed (use inv run in \<open>simp add: dbFetch_SQLiteResult_def athrow_def later_refl\<close>)

lemma connect_ok:
  assumes inv: "client_inv s" and run: "new_connection A path ext flags vfs alt bigint s = (x, t, ws)"
  shows "client_inv t \<and> later s t"
proof -
  obtain y u ws1 where u: "r_connection_connect A path ext flags vfs alt (cl_session s) = (y, u, ws1)" by (metis prod.exhaust)
  have ok: "session_inv (cl_session s)" "refs_ok (cl_ref s) (holder (cl_session s))" using inv by (simp_all add: client_inv_def)
  have "session_inv u" by (rule connect_inv [OF ok(1) u])
  moreover have hold: "holder u = holder (cl_session s)"
    using leavesD [OF connection_calls_leave(1) [OF keeps_unit] u] by simp
  moreover have "cl_ref s (se_next (cl_session s)) = None"
  proof -
    have "holder (cl_session s) k \<noteq> Some (se_next (cl_session s))" for k
      using session_invD(1) [OF ok(1)] session_invD(2) [OF ok(1)] by (fastforce simp: holder_def)
    then show ?thesis using refs_ok_none [OF ok(2)] by blast
  qed
  moreover have "y = Inr c \<Longrightarrow> c = se_next (cl_session s)" "se_next (cl_session s) \<le> se_next u" for c
    using u by (auto simp: r_connection_connect_def Let_def split: sum.splits prod.splits)
  ultimately show ?thesis
    using run u ok(2) by (cases y) (auto simp: new_connection_def abind_def on_session_def areturn_def client_inv_def later_def fun_upd_idem)
qed

subsection \<open>Any sequence of methods\<close>

text \<open>
  Every other method is a call of the session that makes or releases no result.  R's collector
  takes the result of a connection with its environment.
\<close>

inductive client_step :: "('db, 'st) api \<Rightarrow> r_env \<Rightarrow> ('db, 'st) client \<Rightarrow> ('db, 'st) client \<Rightarrow> bool" for A E where
  connect: "new_connection A path ext flags vfs alt bigint s = (x, t, ws) \<Longrightarrow> client_step A E s t"
| send: "con_object s con \<Longrightarrow> (\<And>ps. params = Some ps \<Longrightarrow> r_params ps) \<Longrightarrow>
    dbSendQuery A E con sql params s = (x, t, ws) \<Longrightarrow> \<not> undefined_behaviour x \<Longrightarrow> client_step A E s t"
| bind: "result_object s res \<Longrightarrow> r_params ps \<Longrightarrow> db_bind_R A E allow res ps s = (x, t, ws) \<Longrightarrow>
    \<not> undefined_behaviour x \<Longrightarrow> client_step A E s t"
| fetch: "result_object s res \<Longrightarrow> dbFetch_SQLiteResult A E intr res n s = Some (x, t, ws) \<Longrightarrow> client_step A E s t"
| clear: "result_object s res \<Longrightarrow> dbClearResult_SQLiteResult A res s = (x, t, ws) \<Longrightarrow> client_step A E s t"
| other: "\<not> makes_objects c \<Longrightarrow> possible (cl_session s) c \<Longrightarrow> run_busy A intr busy c (cl_session s) = Some (out, t, ws) \<Longrightarrow>
    \<not> undefined_behaviour out \<Longrightarrow> client_step A E s (s\<lparr>cl_session := t\<rparr>)"
| collect_con: "client_step A E s (s\<lparr>cl_session := collect_connection A c (cl_session s)\<rparr>)"
| collect_res: "cl_ref s e = Some res \<Longrightarrow> res_ptr res = Some k \<Longrightarrow>
    client_step A E s (s\<lparr>cl_session := collect_result A k (cl_session s), cl_ref := (cl_ref s)(e := None)\<rparr>)"
| outside: "client_step A E s (s\<lparr>cl_session := (cl_session s)\<lparr>se_sqlite := db\<rparr>\<rparr>)"

definition client_start :: "'db \<Rightarrow> ('db, 'st) client" where
  "client_start db = \<lparr>cl_session = session_start db, cl_ref = (\<lambda>_. None)\<rparr>"

inductive client_reachable :: "('db, 'st) api \<Rightarrow> r_env \<Rightarrow> ('db, 'st) client \<Rightarrow> bool" for A E where
  start: "client_reachable A E (client_start db)"
| step: "client_reachable A E s \<Longrightarrow> client_step A E s t \<Longrightarrow> client_reachable A E t"

lemma client_step_inv:
  assumes P: "packages_keep_data (env_packages (api_stmt A))" and E: "env_ok E"
  shows "client_step A E s t \<Longrightarrow> client_inv s \<Longrightarrow> client_inv t \<and> later s t"
proof (induction rule: client_step.induct)
  case (bind s res ps allow x t ws)
  then show ?case
    using bind_ok [OF P E bind(2), where s = s and allow = allow and res = res] by (simp add: client_inv_def later_same)
next
  case (other c s intr busy out t ws)
  note run = run_busy_call [OF other(3,4)]
  have "holder t = holder (cl_session s)" "se_next t = se_next (cl_session s)"
    using call_holder [OF run other(1)] by simp_all
  moreover have "session_inv t"
    using run_call_inv [OF P _ other(2) run other(4)] other(5) by (simp add: client_inv_def)
  ultimately show ?case using other(5) by (simp add: client_inv_def later_same)
next
  case (collect_con s c)
  then show ?case
    using finalize_inv [of "cl_session s" A c] by (simp add: client_inv_def collect_connection_def later_same split: option.splits)
next
  case (collect_res s e res k)
  have ok: "session_inv (cl_session s)" "refs_ok (cl_ref s) (holder (cl_session s))"
    using collect_res(3) by (simp_all add: client_inv_def)
  obtain x u ws where u: "r_result_release A (Some k) (cl_session s) = (x, u, ws)" by (metis prod.exhaust)
  have "holder (cl_session s) k = Some e" using refs_okD(1) [OF ok(2) collect_res(1)] collect_res(2) by simp
  from refs_ok_close [OF ok(2) this] release_holder [OF ok(1) u] u show ?case
    by (auto simp: client_inv_def collect_result_def later_def)
next
  case (outside s db)
  then show ?case using session_inv_frame [of "cl_session s" "(cl_session s)\<lparr>se_sqlite := db\<rparr>"]
    by (simp add: client_inv_def later_same)
next
  case (connect path ext flags vfs alt bigint s x t ws)
  from connect_ok [OF connect(2,1)] show ?case .
next
  case (send s con params sql x t ws)
  from send_ok [OF P E send(2) send(5) send(1,3,4)] show ?case by simp
next
  case (fetch s res intr n x t ws)
  from fetch_ok_client [OF P fetch(3,2)] show ?case .
next
  case (clear s res x t ws)
  from clear_ok [OF clear(3,1,2)] show ?case by simp
qed

lemma client_reachable_inv:
  assumes "packages_keep_data (env_packages (api_stmt A))" "env_ok E"
  shows "client_reachable A E s \<Longrightarrow> client_inv s"
proof (induction rule: client_reachable.induct)
  case (start db)
  then show ?case by (simp add: client_inv_def client_start_def session_start_def session_inv_def refs_ok_def holder_def)
next
  case (step s t)
  then show ?case using client_step_inv [OF assms] by blast
qed

end
