(* ===== verification/ClientProps.thy ===== *)
theory ClientProps
  imports ClientRun
begin

text \<open>
  Properties of the R methods over the whole stack: a connection has at most one result and the R
  code always knows it; a query, and a query with named parameters, sent, fetched and cleared.
\<close>

subsection \<open>One result per connection\<close>

text \<open>
  C10: in every state the R methods can reach, no connection has two results, the connection object
  counts one exactly when \<open>conn@ref$result\<close> is set, the result that variable names is always
  valid, and closing it before the next query succeeds and clears the variable, so that the
  check \<open>stopifnot(is.null(conn@ref$result))\<close> of \<open>dbSendQuery\<close> never fails.
\<close>

theorem one_result_per_connection:
  assumes "packages_keep_data (env_packages (api_stmt A))" "env_ok E" "client_reachable A E s"
  shows "(\<forall>k k' r r'. se_results (cl_session s) k = Some r \<longrightarrow> se_results (cl_session s) k' = Some r' \<longrightarrow>
      dr_conn r = dr_conn r' \<longrightarrow> k = k')
    \<and> (\<forall>c w. se_conns (cl_session s) c = Some w \<longrightarrow> results w = (if cl_ref s c = None then 0 else 1))
    \<and> (\<forall>e res. cl_ref s e = Some res \<longrightarrow> dbIsValid_SQLiteResult res s = (Inr True, s, []))
    \<and> (\<forall>con. \<exists>t ws. close_pending A con s = (Inr (), t, ws) \<and> cl_ref t (con_ref con) = None)"
proof (intro conjI allI impI)
  have inv: "client_inv s" by (rule client_reachable_inv [OF assms])
  then have ok: "session_inv (cl_session s)" "refs_ok (cl_ref s) (holder (cl_session s))"
    by (simp_all add: client_inv_def)
  show "k = k'" if "se_results (cl_session s) k = Some r" "se_results (cl_session s) k' = Some r'" "dr_conn r = dr_conn r'"
    for k k' r r'
    using refs_ok_unique [OF ok(2), of k "dr_conn r" k'] that by (simp add: holder_def)
  show "results w = (if cl_ref s c = None then 0 else 1)" if w: "se_conns (cl_session s) c = Some w" for c w
  proof -
    have of: "results_of (cl_session s) c = {k. holder (cl_session s) k = Some c}"
      by (auto simp: results_of_def holder_def)
    have "results_of (cl_session s) c = {} \<longleftrightarrow> cl_ref s c = None"
      using refs_ok_none [OF ok(2), of c] of by auto
    moreover have "results_of (cl_session s) c \<noteq> {} \<Longrightarrow> \<exists>k. results_of (cl_session s) c = {k}"
      using refs_ok_unique [OF ok(2)] of by blast
    ultimately show ?thesis
      using session_invD(1) [OF ok(1) w] by (cases "cl_ref s c = None") (auto simp: card_Suc_eq)
  qed
  show "dbIsValid_SQLiteResult res s = (Inr True, s, [])" if "cl_ref s e = Some res" for e res
    using refs_okD(1) [OF ok(2) that] by (auto simp: is_valid_result)
  show "\<exists>t ws. close_pending A con s = (Inr (), t, ws) \<and> cl_ref t (con_ref con) = None" for con
    using close_pending_ok [OF inv, of A con] by (metis prod.exhaust)
qed

subsection \<open>No method is undefined\<close>

text \<open>The parameters fail, if at all, with an R error.\<close>

definition env_safe :: "r_env \<Rightarrow> bool" where
  "env_safe E \<longleftrightarrow> env_ok E \<and> (\<forall>k. \<not> undefined_behaviour (as_cpp_int E k))
     \<and> (\<forall>df. \<not> undefined_behaviour (sqlColumnToRownames E df))"

lemma on_session_fst: "fst (on_session m s) = fst (m (cl_session s))"
  by (simp add: on_session_def split: prod.split)

lemma abind_safe:
  assumes "\<not> undefined_behaviour (fst (m s))"
    and "\<And>x t ws. m s = (Inr x, t, ws) \<Longrightarrow> \<not> undefined_behaviour (fst (f x t))"
  shows "\<not> undefined_behaviour (fst (abind m f s))"
  using assms by (auto simp: abind_def split: prod.split sum.split)

lemma alift_safe: "\<not> undefined_behaviour m \<Longrightarrow> \<not> undefined_behaviour (fst (alift m s))"
  by (auto simp: alift_def split: sum.split)

lemma order_params_safe: "\<not> undefined_behaviour (order_params allow names ps)"
  by (auto simp: order_params_def match_params_def ret_def warning_def ebind_def Let_def)

lemma factor_to_string_safe: "\<not> undefined_behaviour (factor_to_string E xs)"
  by (auto simp: factor_to_string_def ret_def warning_def ebind_def Let_def)

lemma as_integer_safe: "\<not> undefined_behaviour (as_integer n)"
  by (auto simp: as_integer_def ret_def warning_def ebind_def Let_def split: r_number.split)

text \<open>One call of the session: defined unless it is one of the risky ones.\<close>

lemma call_safe:
  assumes "session_inv s" "packages_keep_data (env_packages (api_stmt A))" "\<not> is_UB (null_pointer_error A)"
    and "possible s c" "run_call A (\<lambda>_. False) c = avalue f m"
  shows "undefined_behaviour (fst (m s)) \<longleftrightarrow> risky A s c"
proof -
  obtain x t ws where "m s = (x, t, ws)" by (metis prod.exhaust)
  moreover from this have "run_call A (\<lambda>_. False) c s = Some (rbind x (\<lambda>v. Inr (f v)), t, ws)"
    using assms(5) by (simp add: avalue_run)
  ultimately show ?thesis
    using run_call_UB [OF assms(1,4,2,3), of "\<lambda>_. False" "rbind x (\<lambda>v. Inr (f v))" t ws] by (simp add: avalue_UB)
qed

lemma bind_safe:
  assumes P: "packages_keep_data (env_packages (api_stmt A))" and E: "env_ok E" and params: "r_params ps"
    and inv: "session_inv (cl_session s)" and null: "\<not> is_UB (null_pointer_error A)"
  shows "\<not> undefined_behaviour (fst (db_bind_R A E allow res ps s))"
  unfolding db_bind_R_def
proof (intro abind_safe alift_safe order_params_safe factor_to_string_safe)
  show "\<not> undefined_behaviour (fst (on_session (r_result_get_placeholder_names A (res_ptr res)) s))"
    using call_safe [OF inv P null _ run_call.simps(18)] by (simp add: on_session_fst)
next
  fix names t ws qs u ws2 rs v ws3
  assume t: "on_session (r_result_get_placeholder_names A (res_ptr res)) s = (Inr names, t, ws)"
    and u: "alift (order_params allow names ps) t = (Inr qs, u, ws2)" and v: "alift (factor_to_string E qs) u = (Inr rs, v, ws3)"
  obtain w where w: "r_result_get_placeholder_names A (res_ptr res) (cl_session s) = (Inr names, w, ws)" "t = s\<lparr>cl_session := w\<rparr>"
    using t by (auto simp: on_session_run)
  have "run_call A (\<lambda>_. False) (PlaceholderNames (res_ptr res)) (cl_session s) = Some (Inr (RStrings names), w, ws)"
    using w(1) by (simp add: avalue_run)
  from run_call_inv [OF P inv _ this] have "session_inv w" by simp
  moreover have "v = t" "order_params allow names ps = Inr (qs, ws2)" "factor_to_string E qs = Inr (rs, ws3)"
    using u v by (auto simp: alift_def split: sum.splits)
  then have "\<forall>x \<in> set rs. initialised (rdata x)" using bound_initialised [OF _ _ params E] by metis
  ultimately show "\<not> undefined_behaviour (fst (on_session (r_result_bind A (res_ptr res) rs) v))"
    using call_safe [OF _ P null _ run_call.simps(13), of w "res_ptr res" rs] w(2) \<open>v = t\<close> by (simp add: on_session_fst)
qed

lemma clear_safe:
  assumes "session_inv (cl_session s)" "packages_keep_data (env_packages (api_stmt A))" "\<not> is_UB (null_pointer_error A)"
  shows "\<not> undefined_behaviour (fst (dbClearResult_SQLiteResult A res s))"
  unfolding dbClearResult_SQLiteResult_def
proof (intro abind_safe)
  fix valid t ws
  assume "dbIsValid_SQLiteResult res s = (Inr valid, t, ws)"
  then have "t = s" by (simp add: is_valid_result)
  with call_safe [OF assms _ run_call.simps(10)]
  have "\<not> undefined_behaviour (fst (on_session (r_result_release A (res_ptr res)) t))" by (simp add: on_session_fst)
  then show "\<not> undefined_behaviour (fst ((if \<not> valid
      then abind (awarn ''Expired, result set already closed'') (\<lambda>_. areturn True)
      else abind (on_session (r_result_release A (res_ptr res)))
        (\<lambda>_. abind (set_ref (con_ref (res_conn res)) None) (\<lambda>_. areturn True))) t))"
    by (cases valid) (auto simp: areturn_def abind_def split: prod.split sum.split)
qed (simp add: is_valid_result)

lemma send_safe:
  assumes P: "packages_keep_data (env_packages (api_stmt A))" and E: "env_ok E" and null: "\<not> is_UB (null_pointer_error A)"
    and params: "\<And>ps. params = Some ps \<Longrightarrow> r_params ps" and inv: "client_inv s" and con: "con_object s con"
  shows "\<not> undefined_behaviour (fst (dbSendQuery A E con sql params s))"
  unfolding dbSendQuery_def
proof (intro abind_safe)
  obtain x t ws where "close_pending A con s = (x, t, ws)" by (metis prod.exhaust)
  with close_pending_ok [OF inv this] show "\<not> undefined_behaviour (fst (close_pending A con s))" by simp
next
  fix x t ws
  assume "close_pending A con s = (Inr x, t, ws)"
  from close_pending_ok [OF inv this] con have t: "session_inv (cl_session t)" "held (cl_session t) (con_ptr con)"
    by (auto simp: client_inv_def con_object_def)
  show "\<not> undefined_behaviour (fst (on_session (r_result_create A (con_ptr con) sql) t))"
    using call_safe [OF t(1) P null _ run_call.simps(9)] t(2) by (simp add: on_session_fst)
  fix k u ws2
  assume u: "on_session (r_result_create A (con_ptr con) sql) t = (Inr k, u, ws2)"
  obtain w where "r_result_create A (con_ptr con) sql (cl_session t) = (Inr k, w, ws2)" "u = t\<lparr>cl_session := w\<rparr>"
    using u by (auto simp: on_session_run)
  with create_holder [OF t, of A sql] have u': "session_inv (cl_session u)" by simp
  let ?rs = "\<lparr>res_sql = sql, res_ptr = Some k, res_conn = con, res_bigint = con_bigint con\<rparr>"
  obtain y v ws3 where v: "bind_if A E ?rs params u = (y, v, ws3)" by (metis prod.exhaust)
  have y: "\<not> undefined_behaviour y"
    using v bind_safe [OF P E params u' null, where allow = False and res = ?rs]
    by (cases params) (auto simp: areturn_def dbBind_SQLiteResult_def split: prod.splits dest: arg_cong [where f = fst])
  have "session_inv (cl_session v)" using bind_if_ok [OF P E params u' v y] by simp
  from clear_safe [OF this P null, of ?rs] y v
  have "\<not> undefined_behaviour (fst (on_error (dbClearResult_SQLiteResult A ?rs) (bind_if A E ?rs params) u))"
    by (auto simp: on_error_def rbind_def split: prod.split sum.split)
  then show "\<not> undefined_behaviour (fst ((let rs = ?rs in
      abind (on_error (dbClearResult_SQLiteResult A rs) (bind_if A E rs params))
        (\<lambda>_. abind (set_ref (con_ref con) (Some rs)) (\<lambda>_. areturn rs))) u))"
    unfolding Let_def by (intro abind_safe) (simp_all add: areturn_def)
qed

lemma fetch_method_safe:
  assumes P: "packages_keep_data (env_packages (api_stmt A))" and E: "env_safe E" and inv: "session_inv (cl_session s)"
  shows "dbFetch_SQLiteResult A E intr res n s = None \<or> \<not> undefined_behaviour (fst (the (dbFetch_SQLiteResult A E intr res n s)))"
proof (cases "fetch_count E n")
  case (Inl e)
  then have "\<not> is_UB e"
    using E by (auto simp: fetch_count_def env_safe_def split: list.splits r_number.splits if_splits)
      (metis undefined_behaviour.simps(1))+
  with Inl show ?thesis by (simp add: dbFetch_SQLiteResult_def athrow_def)
next
  case (Inr m)
  have "\<not> undefined_behaviour y" if "r_result_fetch A intr (res_ptr res) m (cl_session s) = Some (y, u, ws)" for y u ws
    using fetch_inv [OF P inv that] by simp
  with Inr E show ?thesis
    by (cases "r_result_fetch A intr (res_ptr res) m (cl_session s)")
      (auto simp: dbFetch_SQLiteResult_def env_safe_def rbind_def split: prod.splits sum.splits)
qed

lemma busy_method_safe:
  assumes inv: "session_inv (cl_session s)" and P: "packages_keep_data (env_packages (api_stmt A))"
    and null: "\<not> is_UB (null_pointer_error A)" and held: "held (cl_session s) (con_ptr con)"
  shows "\<not> undefined_behaviour (fst (sqliteSetBusyHandler A object con handler s))"
proof -
  have set: "\<not> undefined_behaviour (fst (on_session (r_set_busy_handler A (con_ptr con) cb) s))"
    if "\<nexists>a. cb = RIntegers a []" for cb
    using call_safe [OF inv P null _ run_call.simps(7)] held that by (auto simp: on_session_fst)
  have same: "t = s" if "alift (as_integer m) s = (Inr ms, t, ws)" for m ms t ws
    using that by (auto simp: alift_def split: sum.splits)
  have "\<not> undefined_behaviour (fst (abind (alift (as_integer m)) (\<lambda>ms.
      on_session (r_set_busy_handler A (con_ptr con) (RIntegers object [ms]))) s))" for m
    by (intro abind_safe alift_safe as_integer_safe) (use set same in blast)
  then show ?thesis
    using set by (auto simp: sqliteSetBusyHandler_def athrow_def Let_def split: handler_arg.split list.split)
qed

text \<open>A method that is defined by itself is undefined exactly when a handler it asks is not safe.\<close>

lemma while_busy_UB:
  assumes "session_inv (cl_session s)" "\<not> undefined_behaviour (fst (m s))"
  shows "undefined_behaviour (fst (while_busy cs busy m s)) \<longleftrightarrow> risky_handler (answered busy) cs (cl_session s)"
  using busy_events_UB [OF assms(1), of cs "answered busy"] assms(2)
    busy_events_error [of cs "answered busy" "cl_session s"]
  by (auto simp: while_busy_def athrow_def split: sum.split)

lemma fetch_while_busy_UB:
  assumes "session_inv (cl_session s)" "m s = None \<or> \<not> undefined_behaviour (fst (the (m s)))"
    "fetch_while_busy cs busy m s = Some y"
  shows "undefined_behaviour (fst y) \<longleftrightarrow> risky_handler (answered busy) cs (cl_session s)"
  using busy_events_UB [OF assms(1), of cs "answered busy"] assms(2,3)
    busy_events_error [of cs "answered busy" "cl_session s"]
  by (auto simp: fetch_while_busy_def athrow_def split: sum.splits)

text \<open>
  C11: whatever R code calls the methods with, in any state they can reach, and whatever the busy
  handlers answer that SQLite asks meanwhile: sending a query, with or without parameters, binding,
  fetching and clearing are undefined exactly when SQLite asks, on a connection they work on, a
  handler that is not safe (a NULL one, as after \<open>sqliteSetBusyHandler(con, NULL)\<close>, the one of a
  connection that was disconnected, or one that answers without an error but with no integer).
  Asking about a result, disconnecting and setting a handler are never undefined, and
  \<open>sqliteIsTransacting\<close> is exactly on a connection that is not open.
\<close>

theorem methods_safe:
  assumes P: "packages_keep_data (env_packages (api_stmt A))" "env_safe E" "\<not> is_UB (null_pointer_error A)"
    and reach: "client_reachable A E s" and con: "con_object s con" and ps: "r_params ps"
  shows "(undefined_behaviour (fst (while_busy (query_works_on s con) busy (dbSendQuery A E con sql None) s))
        \<longleftrightarrow> risky_handler (answered busy) (query_works_on s con) (cl_session s))
    \<and> (undefined_behaviour (fst (while_busy (query_works_on s con) busy (dbSendQuery A E con sql (Some ps)) s))
        \<longleftrightarrow> risky_handler (answered busy) (query_works_on s con) (cl_session s))
    \<and> (undefined_behaviour (fst (while_busy (result_works_on s res) busy (dbBind_SQLiteResult A E res ps) s))
        \<longleftrightarrow> risky_handler (answered busy) (result_works_on s res) (cl_session s))
    \<and> (\<forall>y. fetch_while_busy (result_works_on s res) busy (dbFetch_SQLiteResult A E intr res n) s = Some y \<longrightarrow>
        (undefined_behaviour (fst y) \<longleftrightarrow> risky_handler (answered busy) (result_works_on s res) (cl_session s)))
    \<and> (undefined_behaviour (fst (while_busy (result_works_on s res) busy (dbClearResult_SQLiteResult A res) s))
        \<longleftrightarrow> risky_handler (answered busy) (result_works_on s res) (cl_session s))
    \<and> \<not> undefined_behaviour (fst (dbHasCompleted_SQLiteResult res s))
    \<and> \<not> undefined_behaviour (fst (dbGetRowCount_SQLiteResult res s))
    \<and> \<not> undefined_behaviour (fst (dbGetRowsAffected_SQLiteResult A res s))
    \<and> \<not> undefined_behaviour (fst (dbColumnInfo_SQLiteResult A res s))
    \<and> \<not> undefined_behaviour (fst (dbGetStatement_SQLiteResult res s))
    \<and> \<not> undefined_behaviour (fst (dbDisconnect_SQLiteConnection A con s))
    \<and> \<not> undefined_behaviour (fst (sqliteSetBusyHandler A object con handler s))
    \<and> (undefined_behaviour (fst (sqliteIsTransacting A con s)) \<longleftrightarrow> fst (dbIsValid_SQLiteConnection con s) \<noteq> Inr True)"
proof (intro conjI)
  have E: "env_ok E" using P(2) by (simp add: env_safe_def)
  have inv: "client_inv s" by (rule client_reachable_inv [OF P(1) E reach])
  then have sinv: "session_inv (cl_session s)" by (simp add: client_inv_def)
  have held: "held (cl_session s) (con_ptr con)" using con by (auto simp: con_object_def)
  note safe = call_safe [OF sinv P(1,3) _ run_call.simps(3)] call_safe [OF sinv P(1,3) _ run_call.simps(4)]
    call_safe [OF sinv P(1,3) _ run_call.simps(14)] call_safe [OF sinv P(1,3) _ run_call.simps(15)]
    call_safe [OF sinv P(1,3) _ run_call.simps(16)] call_safe [OF sinv P(1,3) _ run_call.simps(17)]
  show "undefined_behaviour (fst (while_busy (query_works_on s con) busy (dbSendQuery A E con sql None) s))
      \<longleftrightarrow> risky_handler (answered busy) (query_works_on s con) (cl_session s)"
    by (rule while_busy_UB [OF sinv], rule send_safe [OF P(1) E P(3) _ inv con]) simp
  show "undefined_behaviour (fst (while_busy (query_works_on s con) busy (dbSendQuery A E con sql (Some ps)) s))
      \<longleftrightarrow> risky_handler (answered busy) (query_works_on s con) (cl_session s)"
    by (rule while_busy_UB [OF sinv], rule send_safe [OF P(1) E P(3) _ inv con]) (use ps in simp)
  show "undefined_behaviour (fst (while_busy (result_works_on s res) busy (dbBind_SQLiteResult A E res ps) s))
      \<longleftrightarrow> risky_handler (answered busy) (result_works_on s res) (cl_session s)"
    unfolding dbBind_SQLiteResult_def by (rule while_busy_UB [OF sinv], rule bind_safe [OF P(1) E ps sinv P(3)])
  show "\<forall>y. fetch_while_busy (result_works_on s res) busy (dbFetch_SQLiteResult A E intr res n) s = Some y \<longrightarrow>
      (undefined_behaviour (fst y) \<longleftrightarrow> risky_handler (answered busy) (result_works_on s res) (cl_session s))"
    by (intro allI impI, rule fetch_while_busy_UB [OF sinv], rule fetch_method_safe [OF P(1,2) sinv])
  show "undefined_behaviour (fst (while_busy (result_works_on s res) busy (dbClearResult_SQLiteResult A res) s))
      \<longleftrightarrow> risky_handler (answered busy) (result_works_on s res) (cl_session s)"
    by (rule while_busy_UB [OF sinv], rule clear_safe [OF sinv P(1,3)])
  show "\<not> undefined_behaviour (fst (dbHasCompleted_SQLiteResult res s))"
    using safe by (simp add: dbHasCompleted_SQLiteResult_def on_session_fst)
  show "\<not> undefined_behaviour (fst (dbGetRowCount_SQLiteResult res s))"
    using safe by (simp add: dbGetRowCount_SQLiteResult_def on_session_fst)
  show "\<not> undefined_behaviour (fst (dbGetRowsAffected_SQLiteResult A res s))"
    using safe by (simp add: dbGetRowsAffected_SQLiteResult_def on_session_fst)
  show "\<not> undefined_behaviour (fst (dbColumnInfo_SQLiteResult A res s))"
    using safe by (simp add: dbColumnInfo_SQLiteResult_def on_session_fst)
  show "\<not> undefined_behaviour (fst (dbGetStatement_SQLiteResult res s))"
    by (simp add: dbGetStatement_SQLiteResult_def abind_def is_valid_result areturn_def athrow_def)
  show "\<not> undefined_behaviour (fst (dbDisconnect_SQLiteConnection A con s))"
    unfolding dbDisconnect_SQLiteConnection_def
    by (rule abind_safe) (use safe(1) held in \<open>auto simp: on_session_fst areturn_def\<close>)
  show "\<not> undefined_behaviour (fst (sqliteSetBusyHandler A object con handler s))"
    by (rule busy_method_safe [OF sinv P(1,3) held])
  show "undefined_behaviour (fst (sqliteIsTransacting A con s)) \<longleftrightarrow> fst (dbIsValid_SQLiteConnection con s) \<noteq> Inr True"
    using safe(2) held con
    by (auto simp: sqliteIsTransacting_def on_session_fst dbIsValid_SQLiteConnection_def open_at_def r_connection_valid_def
        areturn_def held_def connection_valid_def split: option.splits)
qed

subsection \<open>A query from the method to the rows\<close>

lemma reachable_open: "reachable w \<Longrightarrow> is_valid w \<Longrightarrow> \<not> sq_closing w"
  using reachable_inv by (simp add: world_inv_def is_valid_def)

text \<open>The connection with one more result.\<close>

abbreviation with_result :: "world \<Rightarrow> world" where
  "with_result w \<equiv> w\<lparr>results := Suc (results w), sq_stmts := Suc (sq_stmts w)\<rparr>"

lemma r_result_create_ok:
  assumes w: "se_conns s c = Some w" "is_valid w" "\<not> sq_closing w"
    and i: "sqlite_result_impl A c w sql (se_sqlite s) = (Inr i, db, ws)"
  shows "r_result_create A (Some c) sql s = (Inr (se_next s),
    s\<lparr>se_sqlite := db, se_conns := (se_conns s)(c \<mapsto> with_result w), se_next := Suc (se_next s),
      se_results := (se_results s)(se_next s \<mapsto> \<lparr>dr_conn = c, dr_impl = Some i\<rparr>)\<rparr>, ws)"
proof -
  have "with_conn A c check_connection s = (Inr (), s, [])"
    using w by (simp add: with_conn_def check_connection_def areturn_def put_conn_def Let_def fun_upd_idem)
  moreover have "Connection.result_create (Inr ()) w = (Inr (), with_result w, [])"
    using w(2) by (simp add: Connection.result_create_def check_connection_def conn_def abind_def areturn_def
        set_current_result_def)
  from create_and_send_query_ok [OF w(1) i this] w(3)
  have "create_and_send_query A c sql s = (Inr (se_next s),
    s\<lparr>se_sqlite := db, se_conns := (se_conns s)(c \<mapsto> with_result w), se_next := Suc (se_next s),
      se_results := (se_results s)(se_next s \<mapsto> \<lparr>dr_conn = c, dr_impl = Some i\<rparr>)\<rparr>, ws)" by simp
  ultimately show ?thesis by (simp add: r_result_create_def deref_def abind_def)
qed

lemma r_result_release_ok:
  assumes r: "se_results s k = Some \<lparr>dr_conn = c, dr_impl = Some i\<rparr>"
    and w: "se_conns s c = Some (with_result w)" "ext_ptr w" "\<not> sq_closing w"
  shows "r_result_release A (Some k) s = (Inr (),
    s\<lparr>se_sqlite := sqlite3_finalize A (se_sqlite s, snd (ri_stmt i)), se_conns := (se_conns s)(c \<mapsto> w),
      se_results := (se_results s)(k := None)\<rparr>, [])"
proof -
  have "Connection.result_release (with_result w) = (Inr (), w, [])"
    using w(2) by (simp add: Connection.result_release_def areturn_def reset_current_result_def drop_owner_def use_count_def)
  then show ?thesis
    using r w by (simp add: r_result_release_def delete_result_def with_conn_def put_conn_def attach_def Let_def)
qed

text \<open>A result that delivers \<open>rows\<close>, fetched, looked at and cleared.\<close>

lemma fetch_and_clear:
  fixes s :: "('db, 'st) client"
  assumes P: "packages_keep_data (env_packages (api_stmt A))" and quiet: "\<And>i. \<not> intr i"
    and int: "as_cpp_int E (- 1) = Inr (- 1)"
    and r: "se_results (cl_session s) k = Some \<lparr>dr_conn = c, dr_impl = Some i\<rparr>"
    and w: "se_conns (cl_session s) c = Some (with_result w)" "ext_ptr w" "\<not> sq_closing w"
    and i: "delivers (api_stmt A) i rows" "ri_ready i" "ri_nrows i = 0" "length (ri_names i) = length (ri_types i)"
      "fst (ri_stmt i) = se_sqlite (cl_session s)"
    and rs: "res_ptr rs = Some k" "con_ref (res_conn rs) = c"
  shows "\<exists>e s2 s3 ws.
      dbFetch_SQLiteResult A E intr rs [NumWhole (- 1)] s =
        Some (sqlColumnToRownames E (convert_bigint E (res_bigint rs) (frame_of (api_stmt A) i rows True e)), s2, ws)
    \<and> dbHasCompleted_SQLiteResult rs s2 = (Inr True, s2, [])
    \<and> fst (dbGetRowCount_SQLiteResult rs s2) = Inr (of_nat (length rows))
    \<and> dbClearResult_SQLiteResult A rs s2 = (Inr True, s3, [])
    \<and> cl_ref s3 = (cl_ref s)(c := None)
    \<and> se_results (cl_session s3) = (se_results (cl_session s))(k := None)
    \<and> se_conns (cl_session s3) = (se_conns (cl_session s))(c \<mapsto> w)"
proof -
  let ?env = "api_stmt A" and ?n = "length rows"
  have att: "attach (se_sqlite (cl_session s)) i = i"
    using i(5) by (simp add: attach_def flip: i(5))
  obtain e j ws where f: "result_fetch ?env intr (- 1) i = Some (Inr (frame_of ?env i rows True e), j, ws)"
    and j: "ri_complete j" "ri_nrows j = ?n"
  proof -
    have "ri_complete (stepped ?env ?n i)" using delivers_stepped [of ?env i rows "[]"] i(1) by simp
    moreover have "ri_nrows (stepped ?env ?n i) = 0" using stepped_same_query [of i ?env ?n] i(3) by simp
    ultimately show ?thesis
      using fetch_rows_ok [where intr = intr and ?rows1.0 = rows and ?rows2.0 = "[]", OF P quiet, of i "- 1"] i that
      by (auto simp: result_fetch_def Let_def add_rows_def)
  qed
  let ?r = "\<lparr>dr_conn = c, dr_impl = Some i\<rparr>" and ?r2 = "\<lparr>dr_conn = c, dr_impl = Some j\<rparr>"
  let ?t = "put_impl k ?r j (cl_session s)"
  let ?s2 = "s\<lparr>cl_session := ?t\<rparr>"
  have "fetch_count E [NumWhole (- 1)] = Inr (- 1)" using int by (simp add: fetch_count_def)
  moreover have "r_result_fetch A intr (Some k) (- 1) (cl_session s) = Some (Inr (frame_of ?env i rows True e), ?t, ws)"
    using r att f by (simp add: r_result_fetch_def db_fetch_def is_current_result_def)
  ultimately have fetch: "dbFetch_SQLiteResult A E intr rs [NumWhole (- 1)] s =
      Some (sqlColumnToRownames E (convert_bigint E (res_bigint rs) (frame_of ?env i rows True e)), ?s2, ws)"
    by (simp add: dbFetch_SQLiteResult_def rs(1))
  have r2: "se_results ?t k = Some ?r2" "se_conns ?t c = Some (with_result w)" "se_sqlite ?t = fst (ri_stmt j)"
    using w(1) by (simp_all add: put_impl_def)
  have done1: "dbHasCompleted_SQLiteResult rs ?s2 = (Inr True, ?s2, [])"
    using r2(1) j(1) rs(1)
    by (simp add: dbHasCompleted_SQLiteResult_def on_session_def r_result_has_completed_def as_result_def
        areturn_def db_complete_def result_complete_def)
  have count: "fst (dbGetRowCount_SQLiteResult rs ?s2) = Inr (of_nat ?n)"
    using r2(1) j(2) rs(1)
    by (simp add: dbGetRowCount_SQLiteResult_def on_session_def r_result_rows_fetched_def as_result_def
        areturn_def db_n_rows_fetched_def on_impl_def n_rows_fetched_def attach_def)
  note rel = r_result_release_ok [OF r2(1,2) w(2,3), of A]
  have "dbIsValid_SQLiteResult rs ?s2 = (Inr True, ?s2, [])"
    using r2(1) rs(1) by (simp add: is_valid_result holder_def)
  then have "\<exists>s3. dbClearResult_SQLiteResult A rs ?s2 = (Inr True, s3, []) \<and> cl_ref s3 = (cl_ref s)(c := None)
    \<and> se_results (cl_session s3) = (se_results (cl_session s))(k := None)
    \<and> se_conns (cl_session s3) = (se_conns (cl_session s))(c \<mapsto> w)"
    using rel rs by (simp add: dbClearResult_SQLiteResult_def abind_def on_session_def areturn_def)
  with fetch done1 count show ?thesis by blast
qed

text \<open>The implementation's constructor on a query without parameters, and on one with parameters.\<close>

lemma sqlite_result_impl_query:
  assumes "is_valid w" "prepare (sqlite3_prepare_v2 A c db (c_str sql)) = Inr (vm, ws0)"
    and n: "sqlite3_bind_parameter_count (api_stmt A) vm = 0" and rows: "yields (api_stmt A) vm rows vm'"
  shows "\<exists>i. sqlite_result_impl A c w sql db = (Inr i, fst (ri_stmt i), ws0) \<and> delivers (api_stmt A) i rows
    \<and> ri_ready i \<and> ri_nrows i = 0 \<and> ri_types i = replicate (length (get_column_names (api_stmt A) vm)) DT_UNKNOWN
    \<and> ri_names i = get_column_names (api_stmt A) vm \<and> ri_with_alt_types i = with_alt_types w"
proof -
  let ?r = "result_impl_start (api_stmt A) (with_alt_types w) vm"
  have r: "ri_stmt ?r = vm" "ri_nparams ?r = 0" "ri_group ?r = 0" "ri_groups ?r = 0"
    "ri_types ?r = replicate (length (get_column_names (api_stmt A) vm)) DT_UNKNOWN"
    "ri_names ?r = get_column_names (api_stmt A) vm" "ri_with_alt_types ?r = with_alt_types w"
    using n by (simp_all add: result_impl_start_def get_initial_field_types_def Let_def)
  obtain i where "after_bind (api_stmt A) True ?r = (Inr (), i, [])" "delivers (api_stmt A) i rows" "ri_ready i"
    "ri_nrows i = 0" "ri_types i = ri_types ?r" "ri_names i = ri_names ?r" "ri_with_alt_types i = ri_with_alt_types ?r"
    using after_bind_delivers [of "api_stmt A" ?r rows vm' "[]"] rows r by (auto simp: groups_left_def)
  then show ?thesis
    using assms(1,2) r by (simp add: sqlite_result_impl_def result_impl_open_def)
qed

text \<open>The result object \<open>dbSendQuery\<close> makes, the state after it, and the data frame of some rows.\<close>

abbreviation sent_result :: "('db, 'st) client \<Rightarrow> r_connection \<Rightarrow> string \<Rightarrow> r_result" where
  "sent_result s con sql \<equiv>
     \<lparr>res_sql = sql, res_ptr = Some (se_next (cl_session s)), res_conn = con, res_bigint = con_bigint con\<rparr>"

definition sent ::
  "('db, 'st) client \<Rightarrow> r_connection \<Rightarrow> string \<Rightarrow> nat \<Rightarrow> world \<Rightarrow> ('db, 'st) stmt result_impl \<Rightarrow> ('db, 'st) client" where
  "sent s con sql c w i =
     (let t = cl_session s; k = se_next t in
      \<lparr>cl_session = t\<lparr>se_sqlite := fst (ri_stmt i), se_conns := (se_conns t)(c \<mapsto> with_result w), se_next := Suc k,
         se_results := (se_results t)(k \<mapsto> \<lparr>dr_conn = c, dr_impl = Some i\<rparr>)\<rparr>,
       cl_ref = (cl_ref s)(c \<mapsto> sent_result s con sql)\<rparr>)"

abbreviation query_frame :: "('db, 'st) api \<Rightarrow> world \<Rightarrow> ('db, 'st) stmt \<Rightarrow> sqlite_row list \<Rightarrow> sqlite_row \<Rightarrow> r_data_frame" where
  "query_frame A w vm rows e \<equiv>
     frame_ref (env_packages (api_stmt A)) (env_text (api_stmt A)) (env_dates (api_stmt A)) (with_alt_types w)
       (replicate (length (get_column_names (api_stmt A) vm)) DT_UNKNOWN) (get_column_names (api_stmt A) vm) rows True e"

lemma fetch_sent:
  fixes s :: "('db, 'st) client"
  assumes P: "packages_keep_data (env_packages (api_stmt A))" and quiet: "\<And>i. \<not> intr i"
    and int: "as_cpp_int E (- 1) = Inr (- 1)" and con: "con_ref con = c" and w: "ext_ptr w" "\<not> sq_closing w"
    and i: "delivers (api_stmt A) i rows" "ri_ready i" "ri_nrows i = 0"
      "ri_types i = replicate (length (get_column_names (api_stmt A) vm)) DT_UNKNOWN"
      "ri_names i = get_column_names (api_stmt A) vm" "ri_with_alt_types i = with_alt_types w"
  shows "\<exists>e s2 s3 ws.
      dbFetch_SQLiteResult A E intr (sent_result s con sql) [NumWhole (- 1)] (sent s con sql c w i) =
        Some (sqlColumnToRownames E (convert_bigint E (con_bigint con) (query_frame A w vm rows e)), s2, ws)
    \<and> dbHasCompleted_SQLiteResult (sent_result s con sql) s2 = (Inr True, s2, [])
    \<and> fst (dbGetRowCount_SQLiteResult (sent_result s con sql) s2) = Inr (of_nat (length rows))
    \<and> dbClearResult_SQLiteResult A (sent_result s con sql) s2 = (Inr True, s3, [])
    \<and> cl_ref s3 = (cl_ref s)(c := None)
    \<and> se_results (cl_session s3) = (se_results (cl_session s))(se_next (cl_session s) := None)
    \<and> se_conns (cl_session s3) = (se_conns (cl_session s))(c \<mapsto> w)"
proof -
  let ?rs = "sent_result s con sql" and ?s1 = "sent s con sql c w i"
  have "frame_of (api_stmt A) i rows True e = query_frame A w vm rows e" for e
    by (simp add: frame_of_def i)
  moreover have "\<exists>e s2 s3 ws.
      dbFetch_SQLiteResult A E intr ?rs [NumWhole (- 1)] ?s1 =
        Some (sqlColumnToRownames E (convert_bigint E (res_bigint ?rs) (frame_of (api_stmt A) i rows True e)), s2, ws)
    \<and> dbHasCompleted_SQLiteResult ?rs s2 = (Inr True, s2, [])
    \<and> fst (dbGetRowCount_SQLiteResult ?rs s2) = Inr (of_nat (length rows))
    \<and> dbClearResult_SQLiteResult A ?rs s2 = (Inr True, s3, [])
    \<and> cl_ref s3 = (cl_ref ?s1)(c := None)
    \<and> se_results (cl_session s3) = (se_results (cl_session ?s1))(se_next (cl_session s) := None)
    \<and> se_conns (cl_session s3) = (se_conns (cl_session ?s1))(c \<mapsto> w)"
    by (rule fetch_and_clear [OF P quiet int _ _ w i(1-3)]) (use i con in \<open>simp_all add: sent_def Let_def\<close>)
  ultimately show ?thesis by (simp add: sent_def Let_def)
qed

text \<open>
  C9: \<open>dbSendQuery\<close>, \<open>dbFetch\<close>, \<open>dbClearResult\<close> on an open connection without a pending result and
  a statement without parameters: the data frame has exactly the rows SQLite yields, the result
  is then complete with that many rows counted, and after clearing it the session has the results,
  connections and variables it had before.
\<close>

theorem query_methods:
  assumes P: "packages_keep_data (env_packages (api_stmt A))" "env_ok E" and reach: "client_reachable A E s"
    and con: "con_ptr con = Some c" "con_ref con = c" "cl_ref s c = None"
    and w: "se_conns (cl_session s) c = Some w" "ext_ptr w" "is_valid w"
    and quiet: "\<And>i. \<not> intr i" and int: "as_cpp_int E (- 1) = Inr (- 1)"
    and prep: "prepare (sqlite3_prepare_v2 A c (se_sqlite (cl_session s)) (c_str sql)) = Inr (vm, ws0)"
    and n: "sqlite3_bind_parameter_count (api_stmt A) vm = 0" and rows: "yields (api_stmt A) vm rows vm'"
  shows "\<exists>rs s1 e s2 ws s3.
      dbSendQuery A E con sql None s = (Inr rs, s1, ws0)
    \<and> dbFetch_SQLiteResult A E intr rs [NumWhole (- 1)] s1 =
        Some (sqlColumnToRownames E (convert_bigint E (con_bigint con) (query_frame A w vm rows e)), s2, ws)
    \<and> dbHasCompleted_SQLiteResult rs s2 = (Inr True, s2, [])
    \<and> fst (dbGetRowCount_SQLiteResult rs s2) = Inr (of_nat (length rows))
    \<and> dbClearResult_SQLiteResult A rs s2 = (Inr True, s3, [])
    \<and> cl_ref s3 = cl_ref s \<and> se_results (cl_session s3) = se_results (cl_session s)
    \<and> se_conns (cl_session s3) = se_conns (cl_session s)"
proof -
  have inv: "session_inv (cl_session s)" using client_reachable_inv [OF P reach] by (simp add: client_inv_def)
  have closing: "\<not> sq_closing w" using reachable_open w(3) session_invD(1) [OF inv w(1)] by blast
  have fresh: "se_results (cl_session s) (se_next (cl_session s)) = None" using session_tally(2) [OF inv] by auto
  obtain i where i: "sqlite_result_impl A c w sql (se_sqlite (cl_session s)) = (Inr i, fst (ri_stmt i), ws0)"
    "delivers (api_stmt A) i rows" "ri_ready i" "ri_nrows i = 0"
    "ri_types i = replicate (length (get_column_names (api_stmt A) vm)) DT_UNKNOWN"
    "ri_names i = get_column_names (api_stmt A) vm" "ri_with_alt_types i = with_alt_types w"
    using sqlite_result_impl_query [OF w(3) prep n rows] by blast
  have send: "dbSendQuery A E con sql None s = (Inr (sent_result s con sql), sent s con sql c w i, ws0)"
    using r_result_create_ok [OF w(1,3) closing i(1)] con
    by (simp add: dbSendQuery_def close_pending_def abind_def areturn_def on_session_def on_error_def Let_def sent_def)
  have same: "(cl_ref s)(c := None) = cl_ref s" "(se_conns (cl_session s))(c \<mapsto> w) = se_conns (cl_session s)"
    "(se_results (cl_session s))(se_next (cl_session s) := None) = se_results (cl_session s)"
    using con(3) w(1) fresh by (auto simp: fun_eq_iff)
  show ?thesis
    using send fetch_sent [where intr = intr, OF P(1) quiet int con(2) w(2) closing i(2-7), where s = s and sql = sql] unfolding same by blast
qed

subsection \<open>Named parameters\<close>

lemma on_impl_run:
  assumes "se_results t k = Some \<lparr>dr_conn = c, dr_impl = Some i\<rparr>" "fst (ri_stmt i) = se_sqlite t" "m i = (x, j, ws)"
  shows "as_result (Some k) (on_impl m) t =
    (x, t\<lparr>se_sqlite := fst (ri_stmt j), se_results := (se_results t)(k \<mapsto> \<lparr>dr_conn = c, dr_impl = Some j\<rparr>)\<rparr>, ws)"
proof -
  have "attach (se_sqlite t) i = i" using assms(2) by (simp add: attach_def flip: assms(2))
  then show ?thesis using assms by (simp add: as_result_def on_impl_def put_impl_def)
qed

lemma db_bind_R_run:
  assumes r: "se_results (cl_session s) k = Some \<lparr>dr_conn = c, dr_impl = Some i\<rparr>" "fst (ri_stmt i) = se_sqlite (cl_session s)"
    and rs: "res_ptr rs = Some k"
    and ps: "order_params allow (get_placeholder_names (api_stmt A) i) params = ret ps" "\<forall>x \<in> set ps. ''factor'' \<notin> set (rclass x)"
    and bind: "db_bind (api_stmt A) ps i = (Inr (), j, [])"
  shows "db_bind_R A E allow rs params s =
    (Inr (), s\<lparr>cl_session := (cl_session s)\<lparr>se_sqlite := fst (ri_stmt j),
        se_results := (se_results (cl_session s))(k \<mapsto> \<lparr>dr_conn = c, dr_impl = Some j\<rparr>)\<rparr>\<rparr>, [])"
proof -
  let ?t = "cl_session s" and ?names = "get_placeholder_names (api_stmt A) i"
  have "as_result (Some k) (sqlite_get_placeholder_names A) ?t = (Inr ?names, ?t, [])"
    using on_impl_run [OF r, of "\<lambda>i. areturn (get_placeholder_names (api_stmt A) i) i"] r
    by (simp add: areturn_def fun_upd_idem)
  moreover have "as_result (Some k) (on_impl (db_bind (api_stmt A) ps)) ?t =
      (Inr (), ?t\<lparr>se_sqlite := fst (ri_stmt j), se_results := (se_results ?t)(k \<mapsto> \<lparr>dr_conn = c, dr_impl = Some j\<rparr>)\<rparr>, [])"
    by (rule on_impl_run [where m = "db_bind (api_stmt A) ps", OF r bind])
  moreover have "factor_to_string E ps = ret ps"
    using ps(2) by (auto simp: factor_to_string_def Let_def list_ex_iff intro!: arg_cong [where f = ret] map_idI)
  ultimately show ?thesis
    using rs ps(1) by (simp add: db_bind_R_def abind_def on_session_def alift_def ret_def r_result_get_placeholder_names_def
        r_result_bind_def del: sqlite_get_placeholder_names_def)
qed

text \<open>The implementation of a statement that has been prepared.\<close>

lemma result_impl_start_simps:
  "ri_stmt (result_impl_start env alt vm) = vm"
  "ri_nparams (result_impl_start env alt vm) = length (get_placeholder_names env (result_impl_start env alt vm))"
  "ri_types (result_impl_start env alt vm) = replicate (length (get_column_names env vm)) DT_UNKNOWN"
  "ri_names (result_impl_start env alt vm) = get_column_names env vm"
  "ri_with_alt_types (result_impl_start env alt vm) = alt"
  by (simp_all add: result_impl_start_def get_initial_field_types_def get_placeholder_names_def Let_def)

text \<open>Sending a statement with parameters that match its placeholders.\<close>

lemma send_with_params:
  assumes con: "con_ptr con = Some c" "con_ref con = c" "cl_ref s c = None"
    and w: "se_conns (cl_session s) c = Some w" "is_valid w" "\<not> sq_closing w"
    and i: "sqlite_result_impl A c w sql (se_sqlite (cl_session s)) = (Inr i, fst (ri_stmt i), ws0)"
    and ps: "order_params False (get_placeholder_names (api_stmt A) i) params = ret ps"
      "\<forall>x \<in> set ps. ''factor'' \<notin> set (rclass x)"
    and bind: "db_bind (api_stmt A) ps i = (Inr (), j, [])"
  shows "dbSendQuery A E con sql (Some params) s = (Inr (sent_result s con sql), sent s con sql c w j, ws0)"
proof -
  let ?k = "se_next (cl_session s)"
  let ?t = "(cl_session s)\<lparr>se_sqlite := fst (ri_stmt i), se_conns := (se_conns (cl_session s))(c \<mapsto> with_result w), se_next := Suc ?k,
      se_results := (se_results (cl_session s))(?k \<mapsto> \<lparr>dr_conn = c, dr_impl = Some i\<rparr>)\<rparr>"
  have "db_bind_R A E False (sent_result s con sql) params (s\<lparr>cl_session := ?t\<rparr>) =
      (Inr (), s\<lparr>cl_session := ?t\<lparr>se_sqlite := fst (ri_stmt j),
        se_results := (se_results ?t)(?k \<mapsto> \<lparr>dr_conn = c, dr_impl = Some j\<rparr>)\<rparr>\<rparr>, [])"
    using db_bind_R_run [of "s\<lparr>cl_session := ?t\<rparr>" ?k c i _ False A params ps j E] ps bind by simp
  then show ?thesis
    using r_result_create_ok [OF w i] con
    by (simp add: dbSendQuery_def close_pending_def abind_def areturn_def on_session_def on_error_def Let_def sent_def
        dbBind_SQLiteResult_def)
qed

text \<open>
  C8: a statement with named placeholders, sent with a list of vectors that has each name once, in
  any order: every placeholder is bound to the vector of its name, and fetching gives the rows of
  all groups, one run of the statement for each position of the vectors.
\<close>

theorem named_parameters:
  assumes P: "packages_keep_data (env_packages (api_stmt A))" "env_ok E" and reach: "client_reachable A E s"
    and con: "con_ptr con = Some c" "con_ref con = c" "cl_ref s c = None"
    and w: "se_conns (cl_session s) c = Some w" "ext_ptr w" "is_valid w"
    and quiet: "\<And>i. \<not> intr i" and int: "as_cpp_int E (- 1) = Inr (- 1)"
    and prep: "prepare (sqlite3_prepare_v2 A c (se_sqlite (cl_session s)) (c_str sql)) = Inr (vm, ws0)"
    and pn: "get_placeholder_names (api_stmt A) (result_impl_start (api_stmt A) (with_alt_types w) vm) = pn"
      "pn \<noteq> []" "\<forall>p \<in> set pn. p \<noteq> [] \<and> \<not> is_number p"
    and names: "distinct names" "set names = set pn" "length vals = length names"
    and vals: "\<forall>x \<in> set vals. ''factor'' \<notin> set (rclass x) \<and> Rf_xlength (rdata x) = length rowss"
    and rows: "group_runs (api_stmt A) (map (\<lambda>p. the (map_of (zip names vals) p)) pn) vm 0 rowss"
  shows "\<exists>rs s1 e s2 ws.
      dbSendQuery A E con sql (Some (Some names, vals)) s = (Inr rs, s1, ws0) \<and> cl_ref s1 c = Some rs
    \<and> dbFetch_SQLiteResult A E intr rs [NumWhole (- 1)] s1 =
        Some (sqlColumnToRownames E (convert_bigint E (con_bigint con) (query_frame A w vm (concat rowss) e)), s2, ws)
    \<and> dbHasCompleted_SQLiteResult rs s2 = (Inr True, s2, [])"
proof -
  let ?ps = "map (\<lambda>p. the (map_of (zip names vals) p)) pn" and ?env = "api_stmt A"
  let ?i = "result_impl_start ?env (with_alt_types w) vm"
  have inv: "session_inv (cl_session s)" using client_reachable_inv [OF P reach] by (simp add: client_inv_def)
  have closing: "\<not> sq_closing w" using reachable_open w(3) session_invD(1) [OF inv w(1)] by blast
  note i = result_impl_start_simps [where env = ?env and alt = "with_alt_types w" and vm = vm]
  have "the (map_of (zip names vals) p) \<in> set vals" if "p \<in> set pn" for p
    using that names r_match_None [of p names] r_match_Some [of p names] map_of_match [of vals names p]
    by (metis nth_mem option.exhaust_sel)
  then have in_vals: "\<forall>x \<in> set ?ps. x \<in> set vals" by auto
  have impl: "sqlite_result_impl A c w sql (se_sqlite (cl_session s)) = (Inr ?i, fst (ri_stmt ?i), ws0)"
    using w(3) prep pn(1,2) i(1,2) by (simp add: sqlite_result_impl_def result_impl_open_def areturn_def)
  have hd: "hd ?ps \<in> set vals" "?ps \<noteq> []" using in_vals pn(2) by (cases pn; simp)+
  obtain j where j: "result_bind ?env ?ps ?i = (Inr (), j, [])" "delivers ?env j (concat rowss)" "ri_ready j"
    "ri_nrows j = 0" "ri_types j = ri_types ?i" "ri_names j = ri_names ?i" "ri_with_alt_types j = ri_with_alt_types ?i"
    using result_bind_delivers [of ?i ?ps rowss ?env] i(1,2) pn(1) hd vals rows by auto
  have "validate_params ?ps = Inr ()" using in_vals vals hd by (simp add: validate_params_ok)
  then have bind: "db_bind ?env ?ps ?i = (Inr (), j, [])"
    using j(1) by (simp add: db_bind_def abind_def alift_def ret_def)
  have "dbSendQuery A E con sql (Some (Some names, vals)) s = (Inr (sent_result s con sql), sent s con sql c w j, ws0)"
    by (rule send_with_params [OF con w(1,3) closing impl _ _ bind])
      (use pn order_params_named [OF pn(3) names] in_vals vals in auto)
  moreover have "cl_ref (sent s con sql c w j) c = Some (sent_result s con sql)" by (simp add: sent_def Let_def)
  ultimately show ?thesis
    using fetch_sent [where intr = intr, OF P(1) quiet int con(2) w(2) closing j(2-4), where vm = vm and s = s and sql = sql] j(5-7) i(3-5)
    by simp blast
qed

subsection \<open>Concrete statements\<close>

text \<open>
  The database is the number of statements not finalized, as in \<open>demo_api\<close>; a statement remembers
  the values bound to it and gives one row of them, or of the number 1 when it has no parameters.
\<close>

definition echo_stmt :: "string list \<Rightarrow> (int, sqlite_value list \<times> bool) stmt stmt_env" where
  "echo_stmt names =
     \<lparr>sqlite3_step = (\<lambda>(db, vs, b). if b then (SQLITE_DONE, (db, vs, b)) else (SQLITE_ROW, (db, vs, True))),
      sqlite3_reset = (\<lambda>(db, vs, b). (db, vs, False)), sqlite3_clear_bindings = (\<lambda>(db, vs, b). (db, [], b)),
      sqlite3_bind = (\<lambda>(db, vs, b) j v. (db, vs @ [v], b)),
      stmt_row = (\<lambda>(db, vs, b). \<lparr>row_values = (if names = [] then [SqlInt 1] else vs), row_decltypes = []\<rparr>),
      sqlite3_column_count = (\<lambda>_. if names = [] then 1 else length names),
      sqlite3_column_name = (\<lambda>_ j. if names = [] then ''x'' else names ! j),
      sqlite3_bind_parameter_count = (\<lambda>_. length names),
      sqlite3_bind_parameter_name = (\<lambda>_ j. Some (CHR '':'' # names ! (j - 1))), sqlite3_total_changes = (\<lambda>_. 0),
      sqlite3_errmsg = (\<lambda>_. ''not an error''), env_packages = std_packages, env_text = undefined,
      env_dates = undefined\<rparr>"

definition echo_api :: "string list \<Rightarrow> (int, sqlite_value list \<times> bool) api" where
  "echo_api names =
     \<lparr>api_stmt = echo_stmt names, sqlite3_open_v2 = (\<lambda>db c path flags vfs. (OpenOk, db)), sqlite3_close_v2 = (\<lambda>_. id),
      sqlite3_prepare_v2 = (\<lambda>c db sql. Prepared (db + 1, [], False) None), sqlite3_finalize = (\<lambda>(db, _). db - 1),
      sqlite3_get_autocommit = (\<lambda>_ _. True),
      sqlite3_backup = (\<lambda>a b db. ((a \<noteq> b, BackupDone, BackupOk, ''not an error''), db)),
      sqlite3_load_extension = (\<lambda>c db file entry enabled. (LoadOk, db)),
      import_tables = (\<lambda>_. \<lparr>prepare_query = (\<lambda>_ db. (None, db)), insert_step = (\<lambda>_ db. (InsertDone, db)),
        insert_reset = (\<lambda>db. (True, db)), finalize_query = (\<lambda>db. db - 1), db_errmsg = (\<lambda>_. ''no such table'')\<rparr>),
      read_file = (\<lambda>_. None), sqlite3_libversion = ''3'', SQLITE_VERSION = ''3'',
      null_pointer_error = Stop ''bad_weak_ptr''\<rparr>"

definition plain_env :: r_env where
  "plain_env = \<lparr>as_cpp_int = (\<lambda>k. Inr (word_of_int k)), factor_as_character = id, integer64_as = (\<lambda>_. id),
     sqlColumnToRownames = Inr\<rparr>"

definition con0 :: r_connection where
  "con0 = \<lparr>con_ptr = Some 0, con_dbname = ''db'', con_loadable_extensions = False, con_flags = 0, con_vfs = [],
     con_ref = 0, con_bigint = Integer64, con_extended_types = False\<rparr>"

definition client0 :: "(int, sqlite_value list \<times> bool) client" where
  "client0 = \<lparr>cl_session = (session_start 0)\<lparr>se_conns := (\<lambda>_. None)(0 \<mapsto> world0), se_next := 1\<rparr>, cl_ref = (\<lambda>_. None)\<rparr>"

lemma client0_simps [simp]:
  "cl_ref client0 = (\<lambda>_. None)" "se_conns (cl_session client0) = (\<lambda>_. None)(0 \<mapsto> world0)"
  "se_results (cl_session client0) = (\<lambda>_. None)" "se_sqlite (cl_session client0) = 0"
  by (simp_all add: client0_def session_start_def)

lemma con0_simps [simp]: "con_ptr con0 = Some 0" "con_ref con0 = 0" "con_bigint con0 = Integer64"
  by (simp_all add: con0_def)

lemma echo_simps [simp]:
  "api_stmt (echo_api names) = echo_stmt names" "env_packages (echo_stmt names) = std_packages"
  "env_text (echo_stmt names) = undefined" "env_dates (echo_stmt names) = undefined"
  "sqlite3_prepare_v2 (echo_api names) c db sql = Prepared (db + 1, [], False) None"
  "sqlite3_bind_parameter_count (echo_stmt names) vm = length names"
  by (simp_all add: echo_api_def echo_stmt_def)

lemma plain_env_simps [simp]:
  "env_ok plain_env" "as_cpp_int plain_env (- 1) = Inr (- 1)" "sqlColumnToRownames plain_env = Inr"
  by (simp_all add: env_ok_def plain_env_def)

lemma client0_reachable: "client_reachable (echo_api names) plain_env client0"
proof -
  have "r_connection_connect (echo_api names) ''db'' False 0 [] False (session_start 0) =
      (Inr 0, (session_start 0)\<lparr>se_conns := (\<lambda>_. None)(0 \<mapsto> world0), se_next := 1\<rparr>, [])"
    by (simp add: r_connection_connect_def connect_def echo_api_def session_start_def world0_def fun_eq_iff Let_def)
  then have "new_connection (echo_api names) ''db'' False 0 [] False Integer64 (client_start 0) = (Inr con0, client0, [])"
    by (simp add: new_connection_def abind_def on_session_def areturn_def client_start_def client0_def con0_def fun_upd_idem)
  then show ?thesis
    by (rule client_reachable.step [OF client_reachable.start client_step.connect])
qed

lemma echo_open [simp]: "ext_ptr world0" "is_valid world0" "alt_types world0 = False"
  by (simp_all add: world0_def is_valid_def)

lemma client0_send:
  "\<exists>rs s1. client_reachable (echo_api []) plain_env s1 \<and> cl_ref s1 0 = Some rs
     \<and> dbSendQuery (echo_api []) plain_env con0 ''SELECT 1 AS x'' None client0 = (Inr rs, s1, [])"
proof -
  have rows: "yields (echo_stmt []) (1, [], False) [int_row 1] (1, [], True)"
    by (simp add: echo_stmt_def int_row_def)
  have "is_valid world0" "prepare (sqlite3_prepare_v2 (echo_api []) 0 0 (c_str ''SELECT 1 AS x'')) = Inr ((1, [], False), [])"
    by (simp_all add: prepare_def ret_def)
  from sqlite_result_impl_query [OF this _ rows [folded echo_simps(1)]] obtain i where
    i: "sqlite_result_impl (echo_api []) 0 world0 ''SELECT 1 AS x'' (se_sqlite (cl_session client0)) = (Inr i, fst (ri_stmt i), [])"
    by auto
  have "\<not> sq_closing world0" by (simp add: world0_def)
  from r_result_create_ok [OF _ _ this i] have send: "dbSendQuery (echo_api []) plain_env con0 ''SELECT 1 AS x'' None client0
      = (Inr \<lparr>res_sql = ''SELECT 1 AS x'', res_ptr = Some (se_next (cl_session client0)), res_conn = con0, res_bigint = con_bigint con0\<rparr>, sent client0 con0 ''SELECT 1 AS x'' 0 world0 i, [])"
    by (simp add: dbSendQuery_def close_pending_def abind_def areturn_def on_session_def on_error_def Let_def sent_def)
  have "client_step (echo_api []) plain_env client0 (sent client0 con0 ''SELECT 1 AS x'' 0 world0 i)"
    by (rule client_step.send [OF _ _ send]) (simp_all add: con_object_def held_def)
  then show ?thesis
    using send client_reachable.step [OF client0_reachable] by (auto simp: sent_def Let_def)
qed

theorem one_result_per_connection_witness:
  "\<exists>rs s1. dbSendQuery (echo_api []) plain_env con0 ''SELECT 1 AS x'' None client0 = (Inr rs, s1, [])
    \<and> dbIsValid_SQLiteResult rs s1 = (Inr True, s1, [])
    \<and> (\<exists>t ws. close_pending (echo_api []) con0 s1 = (Inr (), t, ws) \<and> cl_ref t 0 = None)"
proof -
  obtain rs s1 where s1: "client_reachable (echo_api []) plain_env s1" "cl_ref s1 0 = Some rs"
    "dbSendQuery (echo_api []) plain_env con0 ''SELECT 1 AS x'' None client0 = (Inr rs, s1, [])"
    using client0_send by blast
  have "packages_keep_data (env_packages (api_stmt (echo_api [])))" by simp
  from one_result_per_connection [OF this plain_env_simps(1) s1(1)] s1(2,3) con0_simps(2) show ?thesis
    by metis
qed

text \<open>After \<open>sqliteSetBusyHandler(con, NULL)\<close>.\<close>

definition client_null :: "(int, sqlite_value list \<times> bool) client" where
  "client_null = client0\<lparr>cl_session := (cl_session client0)\<lparr>se_conns :=
     (\<lambda>_. None)(0 \<mapsto> world0\<lparr>sq_handler := BusyCallback None\<rparr>)\<rparr>\<rparr>"

lemma client0_set_null: "sqliteSetBusyHandler (echo_api names) 7 con0 HandlerNull client0 = (Inr (), client_null, [])"
  by (simp add: sqliteSetBusyHandler_def on_session_def r_set_busy_handler_def deref_def with_conn_def
      set_busy_handler_def check_connection_def is_valid_def abind_def areturn_def Let_def release_callback_data_def
      preserve_def put_conn_def client_null_def client0_def session_start_def world0_def fun_eq_iff)

lemma client_null_reachable: "client_reachable (echo_api names) plain_env client_null"
proof -
  let ?c = "SetBusyHandler (Some 0) RNull"
  have run: "run_busy (echo_api names) (\<lambda>_. False) [] ?c (cl_session client0) = Some (Inr RNilValue, cl_session client_null, [])"
    using client0_set_null [of names]
    by (auto simp: avalue_run sqliteSetBusyHandler_def on_session_def client_null_def client0_def split: prod.splits)
  have "client_step (echo_api names) plain_env client0 (client0\<lparr>cl_session := cl_session client_null\<rparr>)"
    by (rule client_step.other [OF _ _ run]) (simp_all add: held_def)
  moreover have "client0\<lparr>cl_session := cl_session client_null\<rparr> = client_null" by (simp add: client_null_def)
  ultimately show ?thesis using client_reachable.step [OF client0_reachable] by simp
qed

theorem methods_safe_witness:
  "\<not> undefined_behaviour (fst (while_busy [0] [(0, Fails ''no'')] (dbSendQuery (echo_api [''a'']) plain_env con0
      ''SELECT :a AS a'' (Some (Some [''b''], [plain (IntSXP [Some 1])]))) client0))
    \<and> \<not> undefined_behaviour (fst (sqliteSetBusyHandler (echo_api [''a'']) 7 con0 HandlerNull client0))
    \<and> undefined_behaviour (fst (while_busy [0] [(0, Fails ''no'')] (dbSendQuery (echo_api [''a'']) plain_env con0
      ''SELECT :a AS a'' None) client_null))"
proof -
  let ?A = "echo_api [''a'']"
  have "packages_keep_data (env_packages (api_stmt ?A))" by simp
  moreover have "env_safe plain_env" by (simp add: env_safe_def plain_env_def env_ok_def)
  moreover have "\<not> is_UB (null_pointer_error ?A)" by (simp add: echo_api_def)
  moreover have "con_object client0 con0" "con_object client_null con0"
    by (simp_all add: con_object_def held_def client_null_def)
  moreover have "r_params (Some [''b''], [plain (IntSXP [Some 1])])" by (simp add: r_params_def named_ok_def plain_def)
  moreover have "query_works_on client0 con0 = [0]" "query_works_on client_null con0 = [0]"
    by (simp_all add: query_works_on_def open_handle_def client_null_def is_valid_def world0_def)
  moreover have "\<not> risky_handler (answered [(0, Fails ''no'')]) [0] (cl_session client0)"
    "risky_handler (answered [(0, Fails ''no'')]) [0] (cl_session client_null)"
    by (simp_all add: answered_def unsafe_handler_def client_null_def world0_def)
  ultimately show ?thesis
    using methods_safe [OF _ _ _ client0_reachable] methods_safe [OF _ _ _ client_null_reachable] by metis
qed

lemma echo_frame1: "frame_ref std_packages T D False [DT_UNKNOWN] [''x''] [int_row 1] True e =
     \<lparr>rdf_columns = [plain (IntSXP [Some 1])], rdf_names = [''x''],
      rdf_class = ''data.frame'', rdf_row_names = [NA_INTEGER, - 1]\<rparr>"
  by (simp add: frame_ref_def out_types_def type_at_def items_of_def start_type_def read_item_def ebind_def
      ret_def sqlite_column_source_def sqlite_is_null_def sqlite_get_data_type_def sqlite3_column_defs
      columnMem_def int_row_def needs_64_bit_def next_type_def type_after_def out_type_def column_ref_def
      allocate_def plain_def Let_def)

theorem query_methods_witness:
  "\<exists>rs s1 s2 ws s3. dbSendQuery (echo_api []) plain_env con0 ''SELECT 1 AS x'' None client0 = (Inr rs, s1, [])
    \<and> dbFetch_SQLiteResult (echo_api []) plain_env (\<lambda>_. False) rs [NumWhole (- 1)] s1 =
        Some (Inr \<lparr>rdf_columns = [plain (IntSXP [Some 1])], rdf_names = [''x''],
          rdf_class = ''data.frame'', rdf_row_names = [NA_INTEGER, - 1]\<rparr>, s2, ws)
    \<and> dbClearResult_SQLiteResult (echo_api []) rs s2 = (Inr True, s3, []) \<and> cl_ref s3 = (\<lambda>_. None)"
proof -
  have rows: "yields (api_stmt (echo_api [])) (1, [], False) [int_row 1] (1, [], True)"
    by (simp add: echo_stmt_def int_row_def)
  have prep: "prepare (sqlite3_prepare_v2 (echo_api []) 0 (se_sqlite (cl_session client0)) (c_str ''SELECT 1 AS x''))
      = Inr ((1, [], False), [])"
    by (simp add: prepare_def ret_def)
  have names: "get_column_names (echo_stmt []) vm = [''x'']" for vm
    by (simp add: get_column_names_def echo_stmt_def)
  have P: "packages_keep_data (env_packages (api_stmt (echo_api [])))" by simp
  have "cl_ref client0 0 = None" "se_conns (cl_session client0) 0 = Some world0" "\<And>i. \<not> (\<lambda>_ :: nat. False) i"
    "sqlite3_bind_parameter_count (api_stmt (echo_api [])) (1, [], False) = 0" by simp_all
  from query_methods [OF P plain_env_simps(1) client0_reachable con0_simps(1,2) this(1,2) echo_open(1,2) this(3)
      plain_env_simps(2) prep this(4) rows]
  obtain rs s1 e s2 ws s3 where "dbSendQuery (echo_api []) plain_env con0 ''SELECT 1 AS x'' None client0 = (Inr rs, s1, [])"
    "dbFetch_SQLiteResult (echo_api []) plain_env (\<lambda>_. False) rs [NumWhole (- 1)] s1 =
        Some (sqlColumnToRownames plain_env (convert_bigint plain_env (con_bigint con0)
          (frame_ref (env_packages (api_stmt (echo_api []))) (env_text (api_stmt (echo_api [])))
            (env_dates (api_stmt (echo_api []))) (with_alt_types world0)
            (replicate (length (get_column_names (api_stmt (echo_api [])) (1, [], False))) DT_UNKNOWN)
            (get_column_names (api_stmt (echo_api [])) (1, [], False)) [int_row 1] True e)), s2, ws)"
    "dbClearResult_SQLiteResult (echo_api []) rs s2 = (Inr True, s3, [])" "cl_ref s3 = cl_ref client0"
    by (elim exE conjE)
  then show ?thesis
    by (intro exI conjI) (simp_all add: names echo_frame1 convert_bigint_def)
qed

text \<open>Two columns and two rows.\<close>

lemma int_column2:
  assumes "columnMem r1 j = SqlInt a" "columnMem r2 j = SqlInt b" "\<not> needs_64_bit a" "\<not> needs_64_bit b"
  shows "column_ref std_packages
     (out_type (type_at DT_UNKNOWN [sqlite_column_source T D False j r1, sqlite_column_source T D False j r2])
        (sqlite_column_source T D False j e))
     (items_of DT_UNKNOWN [sqlite_column_source T D False j r1, sqlite_column_source T D False j r2])
   = plain (IntSXP [Some (ucast a), Some (ucast b)])"
  using assms
  by (simp add: type_at_def items_of_def start_type_def read_item_def ebind_def
      ret_def sqlite_column_source_def sqlite_is_null_def sqlite_get_data_type_def sqlite3_column_defs
      next_type_def type_after_def out_type_def column_ref_def allocate_def plain_def Let_def)

lemma echo_frame2: "frame_ref std_packages T D False [DT_UNKNOWN, DT_UNKNOWN] [''a'', ''b'']
     [\<lparr>row_values = [SqlInt 1, SqlInt 3], row_decltypes = []\<rparr>, \<lparr>row_values = [SqlInt 2, SqlInt 4], row_decltypes = []\<rparr>] True e =
     \<lparr>rdf_columns = [plain (IntSXP [Some 1, Some 2]), plain (IntSXP [Some 3, Some 4])], rdf_names = [''a'', ''b''],
      rdf_class = ''data.frame'', rdf_row_names = [NA_INTEGER, - 2]\<rparr>"
proof -
  let ?r1 = "\<lparr>row_values = [SqlInt 1, SqlInt 3], row_decltypes = []\<rparr>"
  let ?r2 = "\<lparr>row_values = [SqlInt 2, SqlInt 4], row_decltypes = []\<rparr>"
  have mem: "columnMem ?r1 0 = SqlInt 1" "columnMem ?r2 0 = SqlInt 2" "columnMem ?r1 (Suc 0) = SqlInt 3"
    "columnMem ?r2 (Suc 0) = SqlInt 4"
    by (simp_all add: columnMem_def)
  have small: "\<not> needs_64_bit 1" "\<not> needs_64_bit 2" "\<not> needs_64_bit 3" "\<not> needs_64_bit 4"
    by (simp_all add: needs_64_bit_def)
  show ?thesis
    using int_column2 [OF mem(1,2) small(1,2), of T D e] int_column2 [OF mem(3,4) small(3,4), of T D e]
    by (simp add: frame_ref_def out_types_def)
qed

theorem named_parameters_witness:
  "\<exists>rs s1 s2 ws. dbSendQuery (echo_api [''a'', ''b'']) plain_env con0 ''SELECT :a AS a, :b AS b''
      (Some (Some [''b'', ''a''], [plain (IntSXP [Some 3, Some 4]), plain (IntSXP [Some 1, Some 2])])) client0 = (Inr rs, s1, [])
    \<and> dbFetch_SQLiteResult (echo_api [''a'', ''b'']) plain_env (\<lambda>_. False) rs [NumWhole (- 1)] s1 =
        Some (Inr \<lparr>rdf_columns = [plain (IntSXP [Some 1, Some 2]), plain (IntSXP [Some 3, Some 4])], rdf_names = [''a'', ''b''],
          rdf_class = ''data.frame'', rdf_row_names = [NA_INTEGER, - 2]\<rparr>, s2, ws)"
proof -
  let ?A = "echo_api [''a'', ''b'']" and ?sql = "''SELECT :a AS a, :b AS b''" and ?vm = "(1 :: int, [] :: sqlite_value list, False)"
  let ?vals = "[plain (IntSXP [Some 3, Some 4]), plain (IntSXP [Some 1, Some 2])]"
  let ?rows = "[[\<lparr>row_values = [SqlInt 1, SqlInt 3], row_decltypes = []\<rparr>], [\<lparr>row_values = [SqlInt 2, SqlInt 4], row_decltypes = []\<rparr>]]"
  have P: "packages_keep_data (env_packages (api_stmt ?A))" by simp
  have state: "cl_ref client0 0 = None" "se_conns (cl_session client0) 0 = Some world0" "\<And>i. \<not> (\<lambda>_ :: nat. False) i"
    by simp_all
  have prep: "prepare (sqlite3_prepare_v2 ?A 0 (se_sqlite (cl_session client0)) (c_str ?sql)) = Inr (?vm, [])"
    by (simp add: prepare_def ret_def)
  have names: "get_column_names (echo_stmt [''a'', ''b'']) vm = [''a'', ''b'']" for vm
    by (simp add: get_column_names_def echo_stmt_def)
  have pn: "get_placeholder_names (api_stmt ?A) (result_impl_start (api_stmt ?A) (with_alt_types world0) ?vm) = [''a'', ''b'']"
    by (simp add: get_placeholder_names_def echo_stmt_def)
  have ok: "[''a'', ''b''] \<noteq> []" "\<forall>p \<in> set [''a'', ''b'']. p \<noteq> [] \<and> \<not> is_number p" "distinct [''b'', ''a'']"
    "set [''b'', ''a''] = set [''a'', ''b'']" "length ?vals = length [''b'', ''a'']"
    "\<forall>x \<in> set ?vals. ''factor'' \<notin> set (rclass x) \<and> Rf_xlength (rdata x) = length ?rows"
    by (auto simp: is_number_def plain_def)
  have rows: "group_runs (api_stmt ?A) (map (\<lambda>p. the (map_of (zip [''b'', ''a''] ?vals) p)) [''a'', ''b'']) ?vm 0 ?rows"
    by (simp add: echo_stmt_def bound_def plain_def bind_value_def get_init_def get_cell_def INT64SXP_def NA_INTEGER_def
        Cons_eq_map_conv) blast
  from named_parameters [OF P plain_env_simps(1) client0_reachable con0_simps(1,2) state(1,2) echo_open(1,2) state(3)
      plain_env_simps(2) prep pn ok rows]
  obtain rs s1 e s2 ws where "dbSendQuery ?A plain_env con0 ?sql (Some (Some [''b'', ''a''], ?vals)) client0 = (Inr rs, s1, [])"
    "dbFetch_SQLiteResult ?A plain_env (\<lambda>_. False) rs [NumWhole (- 1)] s1 =
        Some (sqlColumnToRownames plain_env (convert_bigint plain_env (con_bigint con0)
          (frame_ref (env_packages (api_stmt ?A)) (env_text (api_stmt ?A)) (env_dates (api_stmt ?A)) (with_alt_types world0)
            (replicate (length (get_column_names (api_stmt ?A) ?vm)) DT_UNKNOWN) (get_column_names (api_stmt ?A) ?vm)
            (concat ?rows) True e)), s2, ws)"
    by (elim exE conjE)
  then show ?thesis
    by (intro exI conjI) (simp_all add: names echo_frame2 convert_bigint_def)
qed

end
