(* ===== verification/Keys.thy ===== *)
theory Keys
  imports Client
begin

text \<open>
  The keys of encrypted databases: how \<open>utils.R\<close> classifies the \<open>key\<close> argument, the statements
  \<open>dbConnect\<close>, \<open>databaseKeyChange\<close>, \<open>databaseKeyAdd\<close> and \<open>databaseKeyRemove\<close> make of it, what
  SQLite's tokenizer reads from the literal in them, and which key SQLCipher uses.

  Parameters: DBI's \<open>dbExecute\<close> (the record \<open>dbi\<close>), the size of the keys of the cipher, and the
  derivation of a key from a passphrase, which stays symbolic (\<open>Derived\<close>).  An R string has no NUL.
\<close>

unbundle bit_operations_syntax

subsection \<open>The kind of a key\<close>

text \<open>The argument: NULL, \<open>NA\<close>, one string (its UTF-8 bytes), or one value of another type.\<close>

datatype r_key = KeyNull | KeyNA | KeyChar string | KeyOther

datatype key_kind = Key | Pass

definition strip_spaces :: "string \<Rightarrow> string" where
  "strip_spaces s = filter (\<lambda>c. c \<noteq> CHR 0x20) s"

text \<open>\<open>[0-9A-Fa-f]\<close>, in the pattern of \<open>is.hex\<close> and in \<open>cipher_isHex\<close>.\<close>

definition hex_digit :: "char \<Rightarrow> bool" where
  "hex_digit c = (let n = of_char c :: nat in
     48 \<le> n \<and> n \<le> 57 \<or> 65 \<le> n \<and> n \<le> 70 \<or> 97 \<le> n \<and> n \<le> 102)"

definition is_hex :: "r_key \<Rightarrow> bool" where
  "is_hex x = (case x of
       KeyChar s \<Rightarrow> (let t = strip_spaces s in length t mod 2 = 0 \<and> list_all hex_digit t)
     | _ \<Rightarrow> False)"

definition key_type :: "r_key \<Rightarrow> key_kind option" where
  "key_type x = (case x of
       KeyChar s \<Rightarrow>
         if is_hex x \<and> (length (strip_spaces s) = 64 \<or> length (strip_spaces s) = 96) then Some Key
         else Some Pass
     | _ \<Rightarrow> None)"

subsection \<open>Statements\<close>

abbreviation squote :: char where "squote \<equiv> CHR 0x27"
abbreviation dquote :: char where "dquote \<equiv> CHR 0x22"

definition key_pragma :: "string \<Rightarrow> key_kind \<Rightarrow> string \<Rightarrow> string" where
  "key_pragma pragma type key = (case type of
       Key \<Rightarrow> ''PRAGMA '' @ pragma @ '' = '' @ [dquote] @ ''x'' @ [squote] @ key @ [squote, dquote] @ '';''
     | Pass \<Rightarrow> ''PRAGMA '' @ pragma @ '' = '' @ [squote] @ key @ [squote] @ '';'')"

text \<open>
  \<open>dbExecute\<close> as R runs it, and under a \<open>tryCatch\<close> for all conditions: it then stops at its first
  condition, of which the message is returned.
\<close>

record 's dbi =
  dbExecute :: "string \<Rightarrow> r_list option \<Rightarrow> ('s, i32) act"
  dbExecute_caught :: "string \<Rightarrow> r_list option \<Rightarrow> 's \<Rightarrow> string option \<times> 's"

definition catch_error :: "('s, unit) act \<Rightarrow> (string \<Rightarrow> ('s, unit) act) \<Rightarrow> ('s, unit) act" where
  "catch_error action handler s = (case action s of
       (Inl (Stop m), t, ws) \<Rightarrow> (case handler m t of (r, u, ws') \<Rightarrow> (r, u, ws @ ws'))
     | (Inl (RError m), t, ws) \<Rightarrow> (case handler m t of (r, u, ws') \<Rightarrow> (r, u, ws @ ws'))
     | r \<Rightarrow> r)"

text \<open>What \<open>dbConnect\<close> does with its key once the connection is open.\<close>

definition connect_key :: "'s dbi \<Rightarrow> r_key \<Rightarrow> ('s, unit) act" where
  "connect_key D key = (case key of
       KeyNull \<Rightarrow> areturn ()
     | KeyChar k \<Rightarrow>
         (case key_type key of
            None \<Rightarrow> awarn ''The 'key' provided is not valid. Continuing with plain database.''
          | Some type \<Rightarrow>
              catch_error (abind (dbExecute D (key_pragma ''key'' type k) None) (\<lambda>_. areturn ()))
                (\<lambda>m. awarn (''Couldn't set key for database: '' @ m @ [CHR 0x0A] @
                   ''Use `key` = NULL to turn off this warning.'')))
     | _ \<Rightarrow> awarn ''The 'key' provided is not valid. Continuing with plain database.'')"

definition databaseKeyChange :: "'s dbi \<Rightarrow> r_key \<Rightarrow> r_key \<Rightarrow> ('s, bool) act" where
  "databaseKeyChange D old_key new_key =
     (case (old_key, key_type old_key) of
        (KeyChar old, Some old_type) \<Rightarrow>
          (case (new_key, key_type new_key) of
             (KeyChar new, Some new_type) \<Rightarrow>
               abind (dbExecute D (key_pragma ''key'' old_type old) None) (\<lambda>_.
               abind (dbExecute D (key_pragma ''rekey'' new_type new) None) (\<lambda>_. areturn True))
           | _ \<Rightarrow> abind (awarn ''Cannot change database key. The 'new_key' provided is not valid.'') (\<lambda>_. areturn False))
      | _ \<Rightarrow> abind (awarn ''Cannot change database key. The 'old_key' provided is not valid.'') (\<lambda>_. areturn False))"

text \<open>The value bound to \<open>:k\<close> in the statement of \<open>databaseKeyAdd\<close>.\<close>

definition added_key :: "key_kind \<Rightarrow> string \<Rightarrow> string" where
  "added_key type key = (case type of Key \<Rightarrow> ''x'' @ [squote] @ key @ [squote] | Pass \<Rightarrow> key)"

fun execute_all :: "'s dbi \<Rightarrow> (string \<times> r_list option) list \<Rightarrow> 's \<Rightarrow> string option \<times> 's" where
  "execute_all D [] s = (None, s)"
| "execute_all D ((sql, params) # rest) s =
     (case dbExecute_caught D sql params s of
        (Some m, t) \<Rightarrow> (Some m, t)
      | (None, t) \<Rightarrow> execute_all D rest t)"

definition r_string :: "string \<Rightarrow> robj" where
  "r_string s = plain (StrSXP [RString s])"

definition databaseKeyAdd :: "'s dbi \<Rightarrow> r_key \<Rightarrow> string \<Rightarrow> ('s, bool \<times> string) act" where
  "databaseKeyAdd D key file s =
     (case (key, key_type key) of
        (KeyChar k, Some type) \<Rightarrow>
          (case execute_all D
              [(''ATTACH DATABASE :f AS encrypted KEY :k;'',
                Some (Some [''f'', ''k''], [r_string file, r_string (added_key type k)])),
               (''SELECT sqlcipher_export('' @ [squote] @ ''encrypted'' @ [squote] @ '');'', None),
               (''DETACH DATABASE encrypted;'', None)] s of
             (None, t) \<Rightarrow> (Inr (True, file), t, [])
           | (Some m, t) \<Rightarrow> (Inr (False, file), t, [''Couldn't set key for database: '' @ m]))
      | _ \<Rightarrow> (Inr (False, file), s, [''Cannot set the database key. The 'key' provided is not valid.'']))"

definition databaseKeyRemove :: "'s dbi \<Rightarrow> string \<Rightarrow> ('s, bool \<times> string) act" where
  "databaseKeyRemove D file s =
     (case execute_all D
         [(''ATTACH DATABASE :f AS plain KEY '' @ [squote, squote] @ '';'', Some (Some [''f''], [r_string file])),
          (''SELECT sqlcipher_export('' @ [squote] @ ''plain'' @ [squote] @ '');'', None),
          (''DETACH DATABASE plain;'', None)] s of
        (None, t) \<Rightarrow> (Inr (True, file), t, [])
      | (Some m, t) \<Rightarrow> (Inr (False, file), t, [''Couldn't remove key for database: '' @ m]))"

subsection \<open>The literal SQLite reads\<close>

datatype token = TK_STRING | TK_ID | TK_ILLEGAL

text \<open>The loop over a quoted token after its first character; \<open>None\<close> is the end of the text.\<close>

fun quote_loop :: "char \<Rightarrow> string \<Rightarrow> nat \<times> char option" where
  "quote_loop delim [] = (0, None)"
| "quote_loop delim [c] = (if c = delim then (0, Some c) else (1, None))"
| "quote_loop delim (c # x # z) =
     (if c = delim
      then (if x = delim then (case quote_loop delim z of (i, e) \<Rightarrow> (i + 2, e)) else (0, Some c))
      else (case quote_loop delim (x # z) of (i, e) \<Rightarrow> (i + 1, e)))"

text \<open>\<open>sqlite3GetToken\<close> on a text that starts with a quote: the type and the length of the token.\<close>

definition quote_token :: "string \<Rightarrow> token \<times> nat" where
  "quote_token z = (case quote_loop (hd z) (tl z) of
       (i, Some c) \<Rightarrow> (if c = squote then TK_STRING else TK_ID, i + 2)
     | (i, None) \<Rightarrow> (TK_ILLEGAL, i + 1))"

fun dequote_loop :: "char \<Rightarrow> string \<Rightarrow> string" where
  "dequote_loop quote [] = []"
| "dequote_loop quote [c] = (if c = quote then [] else [c])"
| "dequote_loop quote (c # x # z) =
     (if c = quote then (if x = quote then quote # dequote_loop quote z else [])
      else c # dequote_loop quote (x # z))"

definition sqlite3Dequote :: "string \<Rightarrow> string" where
  "sqlite3Dequote z = (case z of
       [] \<Rightarrow> []
     | q # rest \<Rightarrow>
         if q \<notin> {dquote, squote, CHR 0x5B, CHR 0x60} then z
         else dequote_loop (if q = CHR 0x5B then CHR 0x5D else q) rest)"

definition sqlite3NameFromToken :: "string \<Rightarrow> nat \<Rightarrow> string" where
  "sqlite3NameFromToken z n = sqlite3Dequote (take n z)"

text \<open>The value of a pragma whose text starts with a quote, and the text after it.\<close>

definition pragma_value :: "string \<Rightarrow> (string \<times> string) option" where
  "pragma_value z = (case quote_token z of
       (TK_ILLEGAL, _) \<Rightarrow> None
     | (_, n) \<Rightarrow> Some (sqlite3NameFromToken z n, drop n z))"

subsection \<open>The key SQLCipher uses\<close>

definition cipher_hex2int :: "char \<Rightarrow> byte" where
  "cipher_hex2int c = (let n = of_char c :: nat in
     if 48 \<le> n \<and> n \<le> 57 then of_nat (n - 48)
     else if 65 \<le> n \<and> n \<le> 70 then of_nat (n - 65 + 10)
     else if 97 \<le> n \<and> n \<le> 102 then of_nat (n - 97 + 10) else 0)"

fun cipher_hex2bin :: "string \<Rightarrow> byte list" where
  "cipher_hex2bin (a # b # hex) = (push_bit 4 (cipher_hex2int a) OR cipher_hex2int b) # cipher_hex2bin hex"
| "cipher_hex2bin _ = []"

definition cipher_isHex :: "string \<Rightarrow> bool" where
  "cipher_isHex hex = list_all hex_digit hex"

text \<open>
  The encryption key: given as bytes, with a salt, with a key for the authentication code and a
  salt, or derived from the bytes of a passphrase.
\<close>

datatype cipher_key = RawKey "byte list" | RawKeySalt "byte list" "byte list"
  | RawKeys "byte list" "byte list" "byte list" | Derived string

definition blob_format :: "string \<Rightarrow> bool" where
  "blob_format pass \<longleftrightarrow> length pass \<ge> 5 \<and> pass ! 0 \<in> {CHR ''x'', CHR ''X''} \<and> pass ! 1 = squote
     \<and> pass ! (length pass - 1) = squote \<and> (length pass - 3) mod 2 = 0
     \<and> cipher_isHex (take (length pass - 3) (drop 2 pass))"

definition key_derive :: "nat \<Rightarrow> nat \<Rightarrow> string \<Rightarrow> cipher_key option" where
  "key_derive key_sz kdf_salt_sz pass =
     (let k = key_sz * 2; s = kdf_salt_sz * 2; z = drop 2 pass in
      if pass = [] then None
      else if blob_format pass \<and> length pass = k + 3 then Some (RawKey (cipher_hex2bin (take k z)))
      else if blob_format pass \<and> length pass = k + s + 3
      then Some (RawKeySalt (cipher_hex2bin (take k z)) (cipher_hex2bin (take s (drop k z))))
      else if blob_format pass \<and> length pass = k + k + s + 3
      then Some (RawKeys (cipher_hex2bin (take k z)) (cipher_hex2bin (take k (drop k z)))
        (cipher_hex2bin (take s (drop (k + k) z))))
      else Some (Derived pass))"

text \<open>
  The codec of a database: \<open>PRAGMA key\<close> refuses an empty key, \<open>ATTACH\<close> makes a plain database of
  it.  The outer \<open>None\<close> is an error, the inner one a database without a codec.  SQLCipher derives
  the key when it first reads or writes a page; 32 is the key size of its AES-256 provider, 16 the
  size of the salt in the header of the file.
\<close>

definition sqlcipherCodecAttach :: "string \<Rightarrow> cipher_key option option" where
  "sqlcipherCodecAttach key = (if length key > 0 then map_option Some (key_derive 32 16 key) else None)"

definition PragTyp_KEY :: "string \<Rightarrow> cipher_key option option" where
  "PragTyp_KEY value = sqlcipherCodecAttach value"

definition attach_key :: "string \<Rightarrow> cipher_key option option" where
  "attach_key key = (if length key > 0 then sqlcipherCodecAttach key else Some None)"

subsection \<open>Quoted text\<close>

lemma quote_loop_plain: "q \<notin> set k \<Longrightarrow> rest = [] \<or> hd rest \<noteq> q \<Longrightarrow> quote_loop q (k @ q # rest) = (length k, Some q)"
proof (induction k)
  case Nil
  then show ?case by (cases rest) auto
next
  case (Cons c k)
  then show ?case by (cases "k @ q # rest") auto
qed

lemma dequote_loop_plain: "q \<notin> set k \<Longrightarrow> dequote_loop q (k @ [q]) = k"
proof (induction k)
  case (Cons c k)
  then show ?case by (cases "k @ [q]") auto
qed simp

lemma pragma_value_plain:
  assumes "q \<in> {squote, dquote}" "q \<notin> set k" "rest = [] \<or> hd rest \<noteq> q"
  shows "pragma_value (q # k @ q # rest) = Some (k, rest)"
proof -
  have "quote_token (q # k @ q # rest) = (if q = squote then TK_STRING else TK_ID, length k + 2)"
    using quote_loop_plain [OF assms(2,3)] by (simp add: quote_token_def)
  moreover have "take (length k + 2) (q # k @ q # rest) = q # k @ [q]" by simp
  moreover have "sqlite3Dequote (q # k @ [q]) = k"
    using assms(1) dequote_loop_plain [OF assms(2)] by (auto simp: sqlite3Dequote_def)
  ultimately show ?thesis unfolding pragma_value_def sqlite3NameFromToken_def by (simp split: if_splits)
qed

text \<open>A quote in the text is lost, or ends the token before the end of the text.\<close>

lemma quote_loop_facts:
  "quote_loop q z = (i, Some c) \<Longrightarrow> i < length z \<and> z ! i = q \<and> even (count_list (take i z) q)
     \<and> length (dequote_loop q (take (Suc i) z)) + count_list (take i z) q div 2 = i"
proof (induction q z arbitrary: i rule: quote_loop.induct)
  case (3 q a x z)
  then show ?case by (cases i) (auto split: if_splits prod.splits)
qed (auto split: if_splits)

lemma pragma_value_quote:
  assumes v: "pragma_value (q # k @ [q, CHR 0x3B]) = Some (v, rest)" and q: "q \<in> {squote, dquote}" "q \<in> set k"
  shows "length v < length k"
proof -
  let ?z = "k @ [q, CHR 0x3B]"
  obtain i c where i: "quote_loop q ?z = (i, Some c)"
    using v by (auto simp: pragma_value_def quote_token_def split: prod.splits option.splits)
  note facts = quote_loop_facts [OF i]
  have "v = dequote_loop q (take (Suc i) ?z)"
    using v q(1) i by (auto simp: pragma_value_def quote_token_def sqlite3NameFromToken_def sqlite3Dequote_def
        split: if_splits)
  then have len: "length v + count_list (take i ?z) q div 2 = i" using facts by simp
  have "?z ! i \<noteq> CHR 0x3B" using facts q(1) by auto
  then have le: "i \<le> length k" using facts by (cases "i = Suc (length k)") (auto simp: nth_append)
  show ?thesis
  proof (cases "i = length k")
    case True
    then have "take i ?z = k" by simp
    with facts have "even (count_list k q)" by metis
    moreover have "count_list k q \<noteq> 0" using q(2) by (simp add: count_list_0_iff)
    ultimately have "count_list k q div 2 \<noteq> 0" by presburger
    with len True \<open>take i ?z = k\<close> show ?thesis by simp
  qed (use len le in simp)
qed

subsection \<open>Keys in hexadecimal\<close>

lemma hex_digit_simps [simp]: "\<not> hex_digit CHR 0x20" "\<not> hex_digit squote" "\<not> hex_digit dquote"
  by (simp_all add: hex_digit_def)

lemma strip_spaces_id: "CHR 0x20 \<notin> set s \<Longrightarrow> strip_spaces s = s"
  by (induction s) (auto simp: strip_spaces_def)

lemma key_type_Key:
  "key_type (KeyChar k) = Some Key \<longleftrightarrow>
     list_all hex_digit (strip_spaces k) \<and> (length (strip_spaces k) = 64 \<or> length (strip_spaces k) = 96)"
  by (auto simp: key_type_def is_hex_def Let_def)

lemma key_type_Key_chars: "key_type (KeyChar k) = Some Key \<Longrightarrow> squote \<notin> set k \<and> dquote \<notin> set k"
  by (auto simp: key_type_Key strip_spaces_def list_all_iff)

lemma cipher_key_of_hex:
  assumes "list_all hex_digit k" "length k = 64 \<or> length k = 96"
  shows "key_derive 32 16 (''x'' @ squote # k @ [squote]) =
     Some (if length k = 64 then RawKey (cipher_hex2bin k)
       else RawKeySalt (cipher_hex2bin (take 64 k)) (cipher_hex2bin (drop 64 k)))"
proof -
  have "blob_format (''x'' @ squote # k @ [squote])"
    using assms by (auto simp: blob_format_def cipher_isHex_def nth_append)
  then show ?thesis using assms(2) by (auto simp: key_derive_def Let_def)
qed

lemma blob_format_quote: "squote \<notin> set pass \<Longrightarrow> \<not> blob_format pass"
  using nth_mem [of "Suc 0" pass] unfolding blob_format_def by (auto simp del: nth_mem)

lemma blob_format_space: "CHR 0x20 \<in> set k \<Longrightarrow> \<not> blob_format (''x'' @ squote # k @ [squote])"
  by (auto simp: blob_format_def cipher_isHex_def list_all_iff dest!: bspec [of _ _ "CHR 0x20"])

lemma key_derive_passphrase: "pass \<noteq> [] \<Longrightarrow> \<not> blob_format pass \<Longrightarrow> key_derive key_sz salt_sz pass = Some (Derived pass)"
  by (simp add: key_derive_def Let_def)

text \<open>A quoted passphrase in the format of a key is read up to its first quote.\<close>

lemma blob_format_value:
  assumes "blob_format k" "pragma_value (squote # k @ [squote, CHR 0x3B]) = Some (v, rest)"
  shows "v = [k ! 0]"
proof -
  have "5 \<le> length k" using assms(1) by (simp add: blob_format_def)
  then obtain a b h z where k: "k = a # b # h # z"
    by (cases k; cases "tl k"; cases "tl (tl k)") auto
  have "hex_digit h" "a \<noteq> squote" "b = squote"
    using assms(1) by (cases z; auto simp: k blob_format_def cipher_isHex_def)+
  then have "h \<noteq> squote" by auto
  with assms(2) \<open>a \<noteq> squote\<close> \<open>b = squote\<close> show ?thesis
    by (simp add: k pragma_value_def quote_token_def sqlite3NameFromToken_def sqlite3Dequote_def)
qed

subsection \<open>From the argument to the cipher\<close>

text \<open>The statement from its literal on.\<close>

lemma key_pragma_literal:
  "drop (10 + length pragma) (key_pragma pragma type k) =
     (case type of Key \<Rightarrow> dquote # (''x'' @ squote # k @ [squote]) @ dquote # '';''
      | Pass \<Rightarrow> squote # k @ squote # '';'')"
  by (cases type) (simp_all add: key_pragma_def numeral_eq_Suc)

lemma key_pragma_value:
  assumes "key_type (KeyChar k) = Some t" "squote \<notin> set k"
  shows "pragma_value (drop (10 + length pragma) (key_pragma pragma t k)) = Some (added_key t k, '';'')"
proof (cases t)
  case Key
  then show ?thesis
    using pragma_value_plain [of dquote "''x'' @ squote # k @ [squote]" "'';''"] key_type_Key_chars [of k] assms(1)
    unfolding key_pragma_literal by (simp add: added_key_def)
next
  case Pass
  then show ?thesis
    using pragma_value_plain [of squote k "'';''"] assms(2) unfolding key_pragma_literal by (simp add: added_key_def)
qed

text \<open>
  C24: a key without a single quote reaches SQLCipher as documented, from \<open>PRAGMA key\<close> and
  \<open>PRAGMA rekey\<close> alike: 64 hexadecimal digits are the key, 96 the key and the salt, any other
  string that is not empty is the passphrase.  The exception is a key written with spaces, which
  the package counts as hexadecimal and SQLCipher takes, with the marks around it, for a passphrase.
\<close>

theorem key_reaches_cipher:
  assumes "key_type (KeyChar k) = Some t" "squote \<notin> set k" "k \<noteq> []"
  shows "\<exists>v. pragma_value (drop (10 + length pragma) (key_pragma pragma t k)) = Some (v, '';'')
    \<and> key_derive 32 16 v = Some (
        if t = Pass then Derived k
        else if CHR 0x20 \<in> set k then Derived (''x'' @ squote # k @ [squote])
        else if length k = 64 then RawKey (cipher_hex2bin k)
        else RawKeySalt (cipher_hex2bin (take 64 k)) (cipher_hex2bin (drop 64 k)))"
proof -
  have "key_derive 32 16 (added_key t k) = Some (
        if t = Pass then Derived k
        else if CHR 0x20 \<in> set k then Derived (''x'' @ squote # k @ [squote])
        else if length k = 64 then RawKey (cipher_hex2bin k)
        else RawKeySalt (cipher_hex2bin (take 64 k)) (cipher_hex2bin (drop 64 k)))"
  proof (cases t)
    case Key
    then have hex: "list_all hex_digit (strip_spaces k)" "length (strip_spaces k) = 64 \<or> length (strip_spaces k) = 96"
      using assms(1) key_type_Key by simp_all
    show ?thesis
    proof (cases "CHR 0x20 \<in> set k")
      case True
      then show ?thesis using Key key_derive_passphrase [OF _ blob_format_space [OF True]] by (simp add: added_key_def)
    next
      case False
      with hex cipher_key_of_hex [of k] Key show ?thesis by (simp add: strip_spaces_id added_key_def)
    qed
  next
    case Pass
    then show ?thesis using key_derive_passphrase [OF assms(3) blob_format_quote [OF assms(2)]] by (simp add: added_key_def)
  qed
  with key_pragma_value [OF assms(1,2)] show ?thesis by blast
qed

text \<open>
  C25: the encrypted copy \<open>databaseKeyAdd\<close> makes has the key that \<open>dbConnect\<close> opens it with, given
  the same argument, exactly when the argument is not empty and has no single quote.  With a quote
  the statement of \<open>dbConnect\<close> sets another key or none; with an empty argument the copy is plain.
\<close>

theorem added_key_opens:
  assumes "key_type (KeyChar k) = Some t"
  shows "(\<exists>v rest. pragma_value (drop (10 + length ''key'') (key_pragma ''key'' t k)) = Some (v, rest)
      \<and> PragTyp_KEY v = attach_key (added_key t k)) \<longleftrightarrow> k \<noteq> [] \<and> squote \<notin> set k"
proof (cases "squote \<in> set k")
  case True
  then have t: "t = Pass" using key_type_Key_chars [of k] assms by (cases t) auto
  have "PragTyp_KEY v \<noteq> attach_key k"
    if v: "pragma_value (squote # k @ [squote, CHR 0x3B]) = Some (v, rest)" for v rest
  proof (cases "blob_format k")
    case blob: True
    then have "v = [k ! 0]" "5 \<le> length k" using blob_format_value [OF blob v] by (simp_all add: blob_format_def)
    moreover from this have "PragTyp_KEY v = Some (Some (Derived [k ! 0]))"
      by (simp add: PragTyp_KEY_def sqlcipherCodecAttach_def key_derive_def blob_format_def)
    moreover have "[k ! 0] \<noteq> k" using \<open>5 \<le> length k\<close> by (cases k) auto
    ultimately show ?thesis
      by (simp add: attach_key_def sqlcipherCodecAttach_def key_derive_def Let_def)
  next
    case blob: False
    have "k \<noteq> []" using True by auto
    then have "attach_key k = Some (Some (Derived k))"
      using key_derive_passphrase [OF _ blob] by (simp add: attach_key_def sqlcipherCodecAttach_def)
    moreover have "length v < length k" using pragma_value_quote [OF v _ True] by simp
    ultimately show ?thesis
      by (auto simp: PragTyp_KEY_def sqlcipherCodecAttach_def key_derive_def Let_def split: if_splits)
  qed
  with t True show ?thesis unfolding key_pragma_literal by (auto simp: added_key_def)
next
  case False
  show ?thesis
  proof (cases "k = []")
    case True
    with assms have "t = Pass" by (simp add: key_type_def is_hex_def strip_spaces_def)
    with True show ?thesis
      using key_pragma_value [OF assms False, of "''key''"]
      by (simp add: added_key_def PragTyp_KEY_def sqlcipherCodecAttach_def attach_key_def)
  next
    case k: False
    then have "added_key t k \<noteq> []" by (cases t) (simp_all add: added_key_def)
    then show ?thesis
      using key_pragma_value [OF assms False, of "''key''"] False k
      by (auto simp: attach_key_def PragTyp_KEY_def)
  qed
qed

text \<open>A key of 64 digits, and a passphrase with a quote.\<close>

definition key64 :: string where
  "key64 = ''0123456789ABCDEF0123456789ABCDEF0123456789ABCDEF0123456789ABCDEF''"

lemma key64_type: "key_type (KeyChar key64) = Some Key" "squote \<notin> set key64" "key64 \<noteq> []"
    "CHR 0x20 \<notin> set key64" "length key64 = 64"
  by (simp_all add: key64_def key_type_def is_hex_def strip_spaces_def hex_digit_def)

theorem key_reaches_cipher_witness:
  "pragma_value (drop 15 (key_pragma ''rekey'' Key key64)) = Some (''x'' @ squote # key64 @ [squote], '';'')
    \<and> key_derive 32 16 (''x'' @ squote # key64 @ [squote]) = Some (RawKey (cipher_hex2bin key64))
    \<and> take 2 (cipher_hex2bin key64) = [0x01, 0x23]"
proof -
  have "pragma_value (drop 15 (key_pragma ''rekey'' Key key64)) = Some (''x'' @ squote # key64 @ [squote], '';'')"
    using key_pragma_value [OF key64_type(1,2), of "''rekey''"] by (simp add: added_key_def)
  moreover have "take 2 (cipher_hex2bin key64) = [0x01, 0x23]"
    by (simp add: key64_def cipher_hex2int_def)
  ultimately show ?thesis
    using key_reaches_cipher [OF key64_type(1-3), of "''rekey''"] key64_type(4,5) by auto
qed

theorem added_key_opens_witness:
  "\<not> (\<exists>v rest. pragma_value (drop 13 (key_pragma ''key'' Pass [CHR ''a'', squote, CHR ''b''])) = Some (v, rest)
      \<and> PragTyp_KEY v = attach_key [CHR ''a'', squote, CHR ''b''])
    \<and> pragma_value (drop 13 (key_pragma ''key'' Pass [CHR ''a'', squote, CHR ''b''])) = Some (''a'', [CHR ''b'', squote, CHR 0x3B])"
proof -
  have t: "key_type (KeyChar [CHR ''a'', squote, CHR ''b'']) = Some Pass"
    by (simp add: key_type_def is_hex_def strip_spaces_def)
  have "pragma_value (drop 13 (key_pragma ''key'' Pass [CHR ''a'', squote, CHR ''b''])) = Some (''a'', [CHR ''b'', squote, CHR 0x3B])"
    by (simp add: key_pragma_def pragma_value_def quote_token_def sqlite3NameFromToken_def sqlite3Dequote_def)
  with added_key_opens [OF t] show ?thesis by (simp add: added_key_def)
qed

end
