(* ===== verification/Connect.thy ===== *)
theory Connect
  imports Keys ClientProps
begin

text \<open>
  Opening connections: \<open>dbConnect\<close> on a driver with all its steps, on a connection (a clone), and
  \<open>sqliteCopyDatabase\<close> to a file.  What the operating system and other packages decide is the record
  \<open>r_os\<close>; \<open>dbExecute\<close> is that of the record \<open>dbi\<close>, for each connection.
\<close>

record r_os =
  normalizePath :: "string \<Rightarrow> string"
  on_windows :: bool
  get_lib_path :: string
  check_suggested :: "unit res"

record connect_args =
  ca_dbname :: string
  ca_loadable_extensions :: bool
  ca_default_extensions :: bool
  ca_cache_size :: "r_number option"
  ca_synchronous :: "string option"
  ca_flags :: i32
  ca_vfs :: "string option"
  ca_bigint :: bigint
  ca_extended_types :: bool
  ca_key :: r_key

subsection \<open>The steps\<close>

definition is_url_or_special_filename :: "string \<Rightarrow> bool" where
  "is_url_or_special_filename x \<longleftrightarrow>
     list_ex (\<lambda>p. prefix (p @ '':'') x) [''file'', ''http'', ''ftp'', ''https'', '''']"

text \<open>
  \<open>match.arg\<close>: an exact choice, or the only one that starts with the argument.  Its message, which
  lists the choices, is left out.
\<close>

definition match_arg :: "string \<Rightarrow> string list \<Rightarrow> string res" where
  "match_arg arg choices =
     (if arg \<in> set choices then Inr arg
      else case filter (prefix arg) choices of
        [choice] \<Rightarrow> if arg = [] then Inl (Stop ''invalid argument'') else Inr choice
      | _ \<Rightarrow> Inl (Stop ''invalid argument''))"

definition check_vfs :: "r_os \<Rightarrow> string option \<Rightarrow> string eff" where
  "check_vfs os vfs =
     (case vfs of
        None \<Rightarrow> ret []
      | Some v \<Rightarrow>
          if v = [] then ret []
          else if on_windows os
          then ebind (warning (''vfs customization not available on this platform. Ignoring value: vfs = '' @ v)) (\<lambda>_. ret [])
          else lift_res (match_arg v [''unix-posix'', ''unix-afp'', ''unix-flock'', ''unix-dotfile'', ''unix-none'']))"

definition show_i32 :: "i32 \<Rightarrow> string" where
  "show_i32 n =
     (if n = NA_INTEGER then ''NA''
      else if sint n < 0 then CHR ''-'' # show_nat (nat (- sint n)) else show_nat (nat (sint n)))"

text \<open>A pragma whose failure is a warning.\<close>

definition try_pragma :: "'s dbi \<Rightarrow> string \<Rightarrow> string \<Rightarrow> string \<Rightarrow> ('s, unit) act" where
  "try_pragma D sql what hint =
     catch_error (abind (dbExecute D sql None) (\<lambda>_. areturn ()))
       (\<lambda>m. awarn (what @ m @ [CHR 0x0A] @ hint))"

definition set_cache_size :: "'s dbi \<Rightarrow> r_number option \<Rightarrow> ('s, unit) act" where
  "set_cache_size D cache_size = (case cache_size of
       None \<Rightarrow> areturn ()
     | Some n \<Rightarrow> abind (alift (as_integer n)) (\<lambda>n.
         try_pragma D (''PRAGMA cache_size='' @ show_i32 n) ''Couldn't set cache size: ''
           ''Use `cache_size` = NULL to turn off this warning.''))"

definition set_synchronous :: "'s dbi \<Rightarrow> string option \<Rightarrow> ('s, unit) act" where
  "set_synchronous D synchronous = (case synchronous of
       None \<Rightarrow> areturn ()
     | Some x \<Rightarrow> abind (alift (lift_res (match_arg x [''off'', ''normal'', ''full'']))) (\<lambda>x.
         try_pragma D (''PRAGMA synchronous='' @ x) ''Couldn't set synchronous mode: ''
           ''Use `synchronous` = NULL to turn off this warning.''))"

definition dbConnect_SQLiteDriver ::
  "('db, 'st) api \<Rightarrow> r_os \<Rightarrow> (r_connection \<Rightarrow> ('db, 'st) client dbi) \<Rightarrow> connect_args \<Rightarrow> (('db, 'st) client, r_connection) act" where
  "dbConnect_SQLiteDriver A os D args =
     (let dbname = (if is_url_or_special_filename (ca_dbname args) then ca_dbname args
                    else normalizePath os (ca_dbname args)) in
      abind (alift (check_vfs os (ca_vfs args))) (\<lambda>vfs.
      abind (alift (lift_res (if ca_extended_types args then check_suggested os else Inr ()))) (\<lambda>_.
      abind (new_connection A dbname (ca_loadable_extensions args) (ca_flags args) vfs (ca_extended_types args)
               (ca_bigint args)) (\<lambda>con.
      abind (connect_key (D con) (ca_key args)) (\<lambda>_.
      abind (set_cache_size (D con) (ca_cache_size args)) (\<lambda>_.
      abind (set_synchronous (D con) (ca_synchronous args)) (\<lambda>_.
      abind (if ca_default_extensions args
             then abind (initExtension A (get_lib_path os) con ''math'') (\<lambda>_. areturn ()) else areturn ()) (\<lambda>_.
        areturn con))))))))"

text \<open>\<open>SQLITE_RWC\<close> and the defaults of the arguments.\<close>

definition SQLITE_RWC :: i32 where
  "SQLITE_RWC = 0x46"

definition default_args :: "string \<Rightarrow> connect_args" where
  "default_args dbname =
     \<lparr>ca_dbname = dbname, ca_loadable_extensions = True, ca_default_extensions = True, ca_cache_size = None,
      ca_synchronous = Some ''off'', ca_flags = SQLITE_RWC, ca_vfs = None, ca_bigint = Integer64,
      ca_extended_types = False, ca_key = KeyNull\<rparr>"

definition dbConnect_SQLiteConnection ::
  "('db, 'st) api \<Rightarrow> r_os \<Rightarrow> (r_connection \<Rightarrow> ('db, 'st) client dbi) \<Rightarrow> r_connection \<Rightarrow> (('db, 'st) client, r_connection) act" where
  "dbConnect_SQLiteConnection A os D drv =
     (if con_dbname drv \<in> {'''', '':memory:'', ''file::memory:''}
      then athrow (Stop ''Can't clone a temporary database'')
      else dbConnect_SQLiteDriver A os D ((default_args (con_dbname drv))
        \<lparr>ca_vfs := Some (con_vfs drv), ca_flags := con_flags drv,
         ca_loadable_extensions := con_loadable_extensions drv,
         ca_default_extensions := con_loadable_extensions drv\<rparr>))"

text \<open>\<open>on.exit\<close>: the second action runs however the first ends.\<close>

definition on_exit :: "('s, 'b) act \<Rightarrow> ('s, 'a) act \<Rightarrow> ('s, 'a) act" where
  "on_exit exit action s =
     (case action s of (x, t, ws) \<Rightarrow>
        if undefined_behaviour x then (x, t, ws)
        else (case exit t of (y, u, ws') \<Rightarrow> (rbind y (\<lambda>_. x), u, ws @ ws')))"

definition sqliteCopyDatabase_file ::
  "('db, 'st) api \<Rightarrow> r_os \<Rightarrow> (r_connection \<Rightarrow> ('db, 'st) client dbi) \<Rightarrow> r_connection \<Rightarrow> string \<Rightarrow> (('db, 'st) client, unit) act" where
  "sqliteCopyDatabase_file A os D from_con file =
     abind (dbConnect_SQLiteDriver A os D (default_args file)) (\<lambda>to_con.
       on_exit (dbDisconnect_SQLiteConnection A to_con) (sqliteCopyDatabase A from_con to_con))"

subsection \<open>Steps that cannot fail\<close>

text \<open>From a state with \<open>Q\<close> the action returns a value, in a state with \<open>Q\<close>.\<close>

definition succeeds :: "('s \<Rightarrow> bool) \<Rightarrow> ('s, 'a) act \<Rightarrow> bool" where
  "succeeds Q m \<longleftrightarrow> (\<forall>s. Q s \<longrightarrow> (\<exists>x t ws. m s = (Inr x, t, ws) \<and> Q t))"

lemma succeedsD: "succeeds Q m \<Longrightarrow> Q s \<Longrightarrow> \<exists>x t ws. m s = (Inr x, t, ws) \<and> Q t"
  by (simp add: succeeds_def)

lemma succeeds_return [intro]: "succeeds Q (areturn x)"
  by (simp add: succeeds_def areturn_def)

lemma succeeds_awarn [intro]: "succeeds Q (awarn w)"
  by (simp add: succeeds_def awarn_def alift_def warning_def)

lemma succeeds_bind:
  assumes "succeeds Q m" "\<And>x. succeeds Q (f x)"
  shows "succeeds Q (abind m f)"
  unfolding succeeds_def
proof (intro allI impI)
  fix s assume "Q s"
  then obtain x t ws where m: "m s = (Inr x, t, ws)" "Q t" using succeedsD [OF assms(1)] by blast
  obtain y u ws' where "f x t = (Inr y, u, ws')" "Q u" using succeedsD [OF assms(2) m(2)] by blast
  with m show "\<exists>x t ws. abind m f s = (Inr x, t, ws) \<and> Q t" by (simp add: abind_def)
qed

lemma succeeds_alift: "\<exists>x ws. m = Inr (x, ws) \<Longrightarrow> succeeds Q (alift m)"
  by (auto simp: succeeds_def alift_def)

text \<open>The failures \<open>tryCatch\<close> handles.\<close>

definition caught :: "r_error \<Rightarrow> bool" where
  "caught e \<longleftrightarrow> (\<exists>m. e = Stop m \<or> e = RError m)"

lemma succeeds_catch:
  assumes "\<And>s x t ws. Q s \<Longrightarrow> action s = (x, t, ws) \<Longrightarrow> Q t \<and> (\<forall>e. x = Inl e \<longrightarrow> caught e)"
    and "\<And>m. succeeds Q (handler m)"
  shows "succeeds Q (catch_error action handler)"
  unfolding succeeds_def
proof (intro allI impI)
  fix s assume Q: "Q s"
  obtain x t ws where a: "action s = (x, t, ws)" by (metis prod.exhaust)
  note t = assms(1) [OF Q a]
  show "\<exists>x t ws. catch_error action handler s = (Inr x, t, ws) \<and> Q t"
  proof (cases x)
    case (Inl e)
    with t obtain m where "e = Stop m \<or> e = RError m" by (auto simp: caught_def)
    moreover obtain y u ws' where "handler m t = (Inr y, u, ws')" "Q u" using succeedsD [OF assms(2)] t by blast
    ultimately show ?thesis using a Inl by (auto simp: catch_error_def)
  qed (use a t in \<open>simp add: catch_error_def\<close>)
qed

text \<open>
  What is assumed of \<open>dbExecute\<close>: it goes through the methods, does not close the connection, and
  fails with an error of R only.
\<close>

definition open_con :: "('db, 'st) api \<Rightarrow> r_env \<Rightarrow> r_connection \<Rightarrow> ('db, 'st) client \<Rightarrow> bool" where
  "open_con A E con s \<longleftrightarrow> client_reachable A E s \<and> con_object s con \<and> fst (dbIsValid_SQLiteConnection con s) = Inr True"

definition executes_ok :: "('db, 'st) api \<Rightarrow> r_env \<Rightarrow> r_connection \<Rightarrow> ('db, 'st) client dbi \<Rightarrow> bool" where
  "executes_ok A E con D \<longleftrightarrow> (\<forall>sql ps s x t ws. open_con A E con s \<longrightarrow> dbExecute D sql ps s = (x, t, ws) \<longrightarrow>
     open_con A E con t \<and> (\<forall>e. x = Inl e \<longrightarrow> caught e))"

lemma executes_okD:
  "executes_ok A E con D \<Longrightarrow> open_con A E con s \<Longrightarrow> dbExecute D sql ps s = (x, t, ws) \<Longrightarrow>
     open_con A E con t \<and> (\<forall>e. x = Inl e \<longrightarrow> caught e)"
  unfolding executes_ok_def by blast

lemma execute_caught:
  assumes D: "executes_ok A E con D" and handler: "\<And>m. succeeds (open_con A E con) (handler m)"
  shows "succeeds (open_con A E con) (catch_error (abind (dbExecute D sql ps) (\<lambda>_. areturn ())) handler)"
proof (rule succeeds_catch [OF _ handler])
  fix s x t ws
  assume s: "open_con A E con s" and run: "abind (dbExecute D sql ps) (\<lambda>_. areturn ()) s = (x, t, ws)"
  obtain y u ws' where y: "dbExecute D sql ps s = (y, u, ws')" by (metis prod.exhaust)
  from executes_okD [OF D s y] run y show "open_con A E con t \<and> (\<forall>e. x = Inl e \<longrightarrow> caught e)"
    by (cases y) (auto simp: abind_def areturn_def)
qed

lemma connect_key_succeeds: "executes_ok A E con D \<Longrightarrow> succeeds (open_con A E con) (connect_key D key)"
  by (auto simp: connect_key_def intro!: execute_caught split: r_key.split option.split)

lemma as_integer_Inr: "\<exists>k ws. as_integer n = Inr (k, ws)"
  by (auto simp: as_integer_def Let_def ebind_def ret_def warning_def split: r_number.split)

lemma cache_size_succeeds: "executes_ok A E con D \<Longrightarrow> succeeds (open_con A E con) (set_cache_size D n)"
  by (auto simp: set_cache_size_def try_pragma_def intro!: succeeds_bind execute_caught succeeds_alift as_integer_Inr
      split: option.split)

lemma synchronous_succeeds:
  assumes "executes_ok A E con D" "\<forall>x. sync = Some x \<longrightarrow> x \<in> {''off'', ''normal'', ''full''}"
  shows "succeeds (open_con A E con) (set_synchronous D sync)"
  using assms
  by (auto simp: set_synchronous_def try_pragma_def match_arg_def ret_def
      intro!: succeeds_bind execute_caught succeeds_alift split: option.split)

lemma new_connection_open:
  assumes "client_reachable A E s" "new_connection A dbname ext flags vfs alt bigint s = (Inr con, t, ws)"
  shows "open_con A E con t \<and> con_dbname con = dbname \<and> con_loadable_extensions con = ext"
proof -
  have "client_reachable A E t"
    by (rule client_reachable.step [OF assms(1) client_step.connect [OF assms(2)]])
  then show ?thesis
    using assms(2)
    by (auto simp: new_connection_def abind_def on_session_def r_connection_connect_def connect_def areturn_def
        open_con_def con_object_def held_def dbIsValid_SQLiteConnection_def r_connection_valid_def
        connection_valid_def is_valid_def Let_def split: sum.splits prod.splits open_result.splits)
qed

text \<open>An extension that loads, on an open connection that allows it.\<close>

lemma initExtension_succeeds:
  assumes ext: "con_loadable_extensions con" and P: "packages_keep_data (env_packages (api_stmt A))" and E: "env_ok E"
    and load: "\<And>c db e. fst (sqlite3_load_extension A c db (c_str lib) (c_str (''sqlite3_'' @ extension @ ''_init'')) e) = LoadOk"
  shows "succeeds (open_con A E con) (initExtension A lib con extension)"
  unfolding succeeds_def
proof (intro allI impI)
  fix s assume s: "open_con A E con s"
  obtain c w where w: "con_ptr con = Some c" "se_conns (cl_session s) c = Some w" "ext_ptr w" "is_valid w"
    using s by (auto simp: open_con_def dbIsValid_SQLiteConnection_def on_session_fst r_connection_valid_def
        areturn_def connection_valid_def split: option.splits)
  let ?entry = "''sqlite3_'' @ extension @ ''_init''"
  obtain x u ws where u: "r_extension_load A (Some c) lib ?entry (cl_session s) = (x, u, ws)" by (metis prod.exhaust)
  have "x = Inr () \<and> ws = [] \<and> se_conns u c = Some w"
    using u w load by (auto simp: r_extension_load_def deref_def with_conn_def extension_load_def conn_def abind_def
        areturn_def put_conn_def Let_def is_valid_def)
  moreover have "client_step A E s (s\<lparr>cl_session := u\<rparr>)"
  proof (rule client_step.other [where c = "ExtensionLoad (Some c) lib ?entry"])
    show "run_busy A (\<lambda>_. False) [] (ExtensionLoad (Some c) lib ?entry) (cl_session s) = Some (Inr RNilValue, u, ws)"
      using u calculation by (simp add: avalue_run)
  qed (use w in \<open>simp_all add: held_def\<close>)
  ultimately have "initExtension A lib con extension s = (Inr True, s\<lparr>cl_session := u\<rparr>, [])"
    "open_con A E con (s\<lparr>cl_session := u\<rparr>)"
    using ext u w s client_reachable.step
    by (auto simp: initExtension_def abind_def on_session_def areturn_def open_con_def con_object_def held_def
        dbIsValid_SQLiteConnection_def r_connection_valid_def connection_valid_def)
  then show "\<exists>x t ws. initExtension A lib con extension s = (Inr x, t, ws) \<and> open_con A E con t" by blast
qed

text \<open>
  C26: once the database is opened, \<open>dbConnect\<close> returns: neither a key that is refused nor a pragma
  that fails keeps it from returning the open connection, also when the database should have been
  encrypted.  (The extensions must load where they are asked for.)
\<close>

theorem connect_returns_open:
  assumes P: "packages_keep_data (env_packages (api_stmt A))" "env_ok E" and reach: "client_reachable A E s"
    and vfs: "check_vfs os (ca_vfs args) = Inr (vfs, ws0)"
    and hms: "ca_extended_types args \<longrightarrow> check_suggested os = Inr ()"
    and sync: "\<forall>x. ca_synchronous args = Some x \<longrightarrow> x \<in> {''off'', ''normal'', ''full''}"
    and new: "new_connection A (if is_url_or_special_filename (ca_dbname args) then ca_dbname args
        else normalizePath os (ca_dbname args)) (ca_loadable_extensions args) (ca_flags args) vfs
      (ca_extended_types args) (ca_bigint args) s = (Inr con, s1, ws1)"
    and ext: "ca_default_extensions args \<longrightarrow> ca_loadable_extensions args \<and>
      (\<forall>c db e. fst (sqlite3_load_extension A c db (c_str (get_lib_path os)) (c_str ''sqlite3_math_init'') e) = LoadOk)"
    and D: "executes_ok A E con (D con)"
  shows "\<exists>t ws. dbConnect_SQLiteDriver A os D args s = (Inr con, t, ws) \<and> client_reachable A E t
    \<and> con_object t con \<and> dbIsValid_SQLiteConnection con t = (Inr True, t, [])"
proof -
  note open1 = new_connection_open [OF reach new]
  let ?rest = "abind (connect_key (D con) (ca_key args)) (\<lambda>_.
      abind (set_cache_size (D con) (ca_cache_size args)) (\<lambda>_.
      abind (set_synchronous (D con) (ca_synchronous args)) (\<lambda>_.
      abind (if ca_default_extensions args
             then abind (initExtension A (get_lib_path os) con ''math'') (\<lambda>_. areturn ()) else areturn ()) (\<lambda>_.
        areturn con))))"
  have init: "ca_default_extensions args \<Longrightarrow>
      succeeds (open_con A E con) (initExtension A (get_lib_path os) con ''math'')"
    by (rule initExtension_succeeds [OF _ P]) (use ext open1 in auto)
  have "succeeds (open_con A E con) ?rest"
    by (intro succeeds_bind connect_key_succeeds [OF D] cache_size_succeeds [OF D] synchronous_succeeds [OF D sync])
      (use init in \<open>auto intro: succeeds_bind\<close>)
  from succeedsD [OF this] open1 obtain x t ws where rest: "?rest s1 = (Inr x, t, ws)" "open_con A E con t" by blast
  moreover from rest(1) have "x = con" by (auto simp: abind_eq_Inr areturn_def)
  moreover have "lift_res (if ca_extended_types args then check_suggested os else Inr ()) = Inr ((), [])"
    using hms by (simp add: ret_def)
  ultimately have "\<exists>ws. dbConnect_SQLiteDriver A os D args s = (Inr con, t, ws)"
    using vfs new by (simp add: dbConnect_SQLiteDriver_def Let_def abind_def alift_def)
  moreover have "dbIsValid_SQLiteConnection con t = (Inr True, t, [])"
    using rest(2) by (auto simp: open_con_def dbIsValid_SQLiteConnection_def on_session_def r_connection_valid_def areturn_def)
  ultimately show ?thesis using rest(2) by (auto simp: open_con_def)
qed

text \<open>Every statement fails, the one that sets the key included.\<close>

definition failing_dbi :: "'s dbi" where
  "failing_dbi = \<lparr>dbExecute = (\<lambda>_ _. athrow (Stop ''file is not a database'')),
     dbExecute_caught = (\<lambda>_ _ s. (Some ''file is not a database'', s))\<rparr>"

definition plain_os :: r_os where
  "plain_os = \<lparr>normalizePath = id, on_windows = False, get_lib_path = ''RSQLCipher.so'', check_suggested = Inr ()\<rparr>"

theorem connect_returns_open_witness:
  "\<exists>con t ws. dbConnect_SQLiteDriver (echo_api []) plain_os (\<lambda>_. failing_dbi)
       ((default_args ''db'')\<lparr>ca_key := KeyChar ''secret''\<rparr>) (client_start 0) = (Inr con, t, ws)
     \<and> dbIsValid_SQLiteConnection con t = (Inr True, t, [])"
proof -
  let ?args = "(default_args ''db'')\<lparr>ca_key := KeyChar ''secret''\<rparr>"
  have P: "packages_keep_data (env_packages (api_stmt (echo_api [])))" by simp
  have vfs: "check_vfs plain_os (ca_vfs ?args) = Inr ([], [])" by (simp add: check_vfs_def default_args_def ret_def)
  obtain con s1 ws1 where new: "new_connection (echo_api []) (if is_url_or_special_filename (ca_dbname ?args)
      then ca_dbname ?args else normalizePath plain_os (ca_dbname ?args)) (ca_loadable_extensions ?args) (ca_flags ?args)
      [] (ca_extended_types ?args) (ca_bigint ?args) (client_start 0) = (Inr con, s1, ws1)"
    by (simp add: new_connection_def abind_def on_session_def r_connection_connect_def connect_def echo_api_def
        areturn_def client_start_def Let_def)
  have "executes_ok (echo_api []) plain_env con failing_dbi"
    by (simp add: executes_ok_def failing_dbi_def athrow_def caught_def)
  moreover have "ca_extended_types ?args \<longrightarrow> check_suggested plain_os = Inr ()" by (simp add: plain_os_def)
  moreover have "\<forall>x. ca_synchronous ?args = Some x \<longrightarrow> x \<in> {''off'', ''normal'', ''full''}" by (simp add: default_args_def)
  moreover have "ca_default_extensions ?args \<longrightarrow> ca_loadable_extensions ?args \<and> (\<forall>c db e. fst (sqlite3_load_extension
      (echo_api []) c db (c_str (get_lib_path plain_os)) (c_str ''sqlite3_math_init'') e) = LoadOk)"
    by (simp add: default_args_def echo_api_def)
  ultimately show ?thesis
    using connect_returns_open [OF P plain_env_simps(1) client_reachable.start vfs _ _ new, where D = "\<lambda>_. failing_dbi"]
    by blast
qed

end
