(* ===== verification/Identifiers.thy ===== *)
theory Identifiers
  imports Keys
begin

text \<open>
  Identifiers: the methods of \<open>dbQuoteIdentifier\<close> and \<open>dbUnquoteIdentifier\<close>.  The regular
  expression of the second is written down with its groups and what it matches is defined by rules;
  the functions that follow it are a scanner.  SQLite reads a quoted identifier with the tokenizer
  of \<open>Keys\<close>.  An R string has no NUL.
\<close>

abbreviation bquote :: char where "bquote \<equiv> CHR 0x60"

text \<open>A character vector with its names, unless they are NULL.\<close>

type_synonym r_chars = "string list option \<times> rstring list"

subsection \<open>Quoting\<close>

text \<open>\<open>gsub\<close> of one character by two of it.\<close>

fun double_char :: "char \<Rightarrow> string \<Rightarrow> string" where
  "double_char q [] = []"
| "double_char q (c # s) = (if c = q then q # q # double_char q s else c # double_char q s)"

definition quote_identifier :: "string \<Rightarrow> string" where
  "quote_identifier x = [bquote] @ double_char bquote x @ [bquote]"

definition dbQuoteIdentifier_SQLiteConnection_character :: "r_chars \<Rightarrow> r_chars res" where
  "dbQuoteIdentifier_SQLiteConnection_character x =
     (if NA_STRING \<in> set (snd x) then Inl (Stop ''Cannot pass NA to dbQuoteIdentifier()'')
      else Inr (fst x, map (\<lambda>s. case s of NA_STRING \<Rightarrow> NA_STRING | RString s \<Rightarrow> RString (quote_identifier s)) (snd x)))"

definition dbQuoteIdentifier_SQLiteConnection_SQL :: "r_chars \<Rightarrow> r_chars res" where
  "dbQuoteIdentifier_SQLiteConnection_SQL x = Inr x"

subsection \<open>Regular expressions\<close>

text \<open>What the pattern needs; \<open>RGroup n\<close> is the group \<open>\<backslash>n\<close>.\<close>

datatype rx = REmpty | RChar "char \<Rightarrow> bool" | RSeq rx rx | RAlt rx rx | RPlus rx | RGroup nat rx

text \<open>A text as a whole, and what the groups capture.\<close>

inductive rx_match :: "rx \<Rightarrow> string \<Rightarrow> (nat \<times> string) list \<Rightarrow> bool" where
  empty: "rx_match REmpty [] []"
| char: "P c \<Longrightarrow> rx_match (RChar P) [c] []"
| seq: "rx_match a s g \<Longrightarrow> rx_match b t h \<Longrightarrow> rx_match (RSeq a b) (s @ t) (g @ h)"
| left: "rx_match a s g \<Longrightarrow> rx_match (RAlt a b) s g"
| right: "rx_match b s g \<Longrightarrow> rx_match (RAlt a b) s g"
| once: "rx_match a s g \<Longrightarrow> rx_match (RPlus a) s g"
| more: "rx_match a s g \<Longrightarrow> rx_match (RPlus a) t h \<Longrightarrow> rx_match (RPlus a) (s @ t) (g @ h)"
| group: "rx_match a s g \<Longrightarrow> rx_match (RGroup n a) s ((n, s) # g)"

inductive_simps rx_match_simps: "rx_match REmpty s g" "rx_match (RChar P) s g" "rx_match (RSeq a b) s g"
  "rx_match (RAlt a b) s g" "rx_match (RGroup n a) s g"

abbreviation RLit :: "char \<Rightarrow> rx" where "RLit c \<equiv> RChar (\<lambda>d. d = c)"

text \<open>\<open>id_rx\<close>, whose groups are numbered from \<open>n\<close>, and \<open>rx\<close> between its anchors.\<close>

definition id_rx :: "nat \<Rightarrow> rx" where
  "id_rx n = RAlt
     (RSeq (RLit bquote) (RSeq (RGroup n (RPlus (RAlt (RChar (\<lambda>c. c \<noteq> bquote)) (RSeq (RLit bquote) (RLit bquote)))))
       (RLit bquote)))
     (RGroup (Suc n) (RPlus (RChar (\<lambda>c. c \<notin> {bquote, CHR ''.'', CHR '' ''}))))"

definition identifier_rx :: rx where
  "identifier_rx = RSeq (RAlt REmpty (RSeq (id_rx 1) (RLit (CHR ''.'')))) (RAlt REmpty (id_rx 3))"

text \<open>\<open>\<backslash>n\<close> in a replacement: nothing for a group that took no part.\<close>

definition captured :: "(nat \<times> string) list \<Rightarrow> nat \<Rightarrow> string" where
  "captured g n = (case map_of g n of None \<Rightarrow> [] | Some s \<Rightarrow> s)"

subsection \<open>Unquoting\<close>

text \<open>After the first backtick: what is quoted, as it is written, and the text after it.\<close>

fun scan_quoted :: "string \<Rightarrow> (string \<times> string) option" where
  "scan_quoted [] = None"
| "scan_quoted [c] = (if c = bquote then Some ([], []) else None)"
| "scan_quoted (c # d # z) =
     (if c = bquote
      then (if d = bquote then map_option (\<lambda>(k, r). (c # d # k, r)) (scan_quoted z) else Some ([], d # z))
      else map_option (\<lambda>(k, r). (c # k, r)) (scan_quoted (d # z)))"

definition plain_char :: "char \<Rightarrow> bool" where
  "plain_char c \<longleftrightarrow> c \<notin> {bquote, CHR ''.'', CHR '' ''}"

definition scan_id :: "string \<Rightarrow> (string \<times> string) option" where
  "scan_id x =
     (case (case x of [] \<Rightarrow> None
        | c # z \<Rightarrow> if c = bquote then scan_quoted z else Some (takeWhile plain_char x, dropWhile plain_char x)) of
        None \<Rightarrow> None
      | Some (k, rest) \<Rightarrow> if k = [] then None else Some (k, rest))"

text \<open>The groups 1 and 2, and the groups 3 and 4.\<close>

definition match_identifier :: "string \<Rightarrow> (string \<times> string) option" where
  "match_identifier x =
     (if x = [] then Some ([], [])
      else case scan_id x of
        None \<Rightarrow> None
      | Some (k, []) \<Rightarrow> Some ([], k)
      | Some (k, c # z) \<Rightarrow>
          if c \<noteq> CHR ''.'' then None
          else if z = [] then Some (k, [])
          else (case scan_id z of Some (k', []) \<Rightarrow> Some (k, k') | _ \<Rightarrow> None))"

text \<open>\<open>gsub\<close> of two characters by one.\<close>

fun undouble_char :: "char \<Rightarrow> string \<Rightarrow> string" where
  "undouble_char q (c # d # z) = (if c = q \<and> d = q then q # undouble_char q z else c # undouble_char q (d # z))"
| "undouble_char q s = s"

text \<open>The arguments of \<open>DBI::Id\<close>.\<close>

definition as_table :: "string \<Rightarrow> string \<Rightarrow> (string \<times> string) list" where
  "as_table schema table = filter (\<lambda>(_, x). x \<noteq> []) [(''schema'', schema), (''table'', table)]"

definition dbUnquoteIdentifier_SQLiteConnection_SQL ::
  "r_chars \<Rightarrow> (string list option \<times> (string \<times> string) list list) res" where
  "dbUnquoteIdentifier_SQLiteConnection_SQL x =
     (let groups = map (\<lambda>s. case s of NA_STRING \<Rightarrow> None | RString s \<Rightarrow> match_identifier s) (snd x) in
      case filter (\<lambda>(s, m). m = None) (zip (snd x) groups) of
        (s, _) # _ \<Rightarrow> Inl (Stop (''Can't unquote '' @ (case s of NA_STRING \<Rightarrow> ''NA'' | RString s \<Rightarrow> s)))
      | [] \<Rightarrow> Inr (fst x, map (\<lambda>m. as_table (undouble_char bquote (fst (the m))) (undouble_char bquote (snd (the m))))
          groups))"

subsection \<open>The language of the pattern\<close>

text \<open>Texts whose backticks come in pairs, which is what the first alternative captures.\<close>

fun paired :: "string \<Rightarrow> bool" where
  "paired [] \<longleftrightarrow> True"
| "paired [c] \<longleftrightarrow> c \<noteq> bquote"
| "paired (c # d # z) \<longleftrightarrow> (if c = bquote then d = bquote \<and> paired z else paired (d # z))"

lemma paired_Cons: "c \<noteq> bquote \<Longrightarrow> paired (c # z) = paired z"
  by (cases z) auto

lemma paired_append: "paired s \<Longrightarrow> paired t \<Longrightarrow> paired (s @ t)"
  by (induction s rule: paired.induct) (auto simp: paired_Cons split: if_splits)

abbreviation quoted_rx :: rx where
  "quoted_rx \<equiv> RAlt (RChar (\<lambda>c. c \<noteq> bquote)) (RSeq (RLit bquote) (RLit bquote))"

lemma quoted_rx_iff: "rx_match quoted_rx s g \<longleftrightarrow> g = [] \<and> ((\<exists>c. c \<noteq> bquote \<and> s = [c]) \<or> s = [bquote, bquote])"
  by (auto simp: rx_match_simps)

lemma rx_match_plus_induct [consumes 1, case_names once more]:
  assumes "rx_match (RPlus a) s g"
    and "\<And>s g. rx_match a s g \<Longrightarrow> Q s g"
    and "\<And>s g t h. rx_match a s g \<Longrightarrow> rx_match (RPlus a) t h \<Longrightarrow> Q t h \<Longrightarrow> Q (s @ t) (g @ h)"
  shows "Q s g"
  using assms(1)
proof (induction "RPlus a" s g rule: rx_match.induct)
  case (once s g)
  show ?case by (rule assms(2) [OF once(1)])
next
  case (more s g t h)
  show ?case by (rule assms(3) [OF more(1,3,4)])
qed

lemma quoted_plus_sound: "rx_match (RPlus quoted_rx) s g \<Longrightarrow> s \<noteq> [] \<and> paired s \<and> g = []"
  by (induction rule: rx_match_plus_induct) (auto simp: quoted_rx_iff paired_Cons)

lemma rx_plus_Cons: "rx_match a s [] \<Longrightarrow> t = [] \<or> rx_match (RPlus a) t [] \<Longrightarrow> rx_match (RPlus a) (s @ t) []"
  using rx_match.once [of a s "[]"] rx_match.more [of a s "[]" t "[]"] by auto

lemma quoted_plus_complete: "paired s \<Longrightarrow> s = [] \<or> rx_match (RPlus quoted_rx) s []"
proof (induction s rule: paired.induct)
  case (2 c)
  then have "rx_match quoted_rx [c] []" by (simp add: quoted_rx_iff)
  then show ?case by (blast intro: rx_match.once)
next
  case (3 c d z)
  show ?case
  proof (cases "c = bquote")
    case True
    with 3 have "z = [] \<or> rx_match (RPlus quoted_rx) z []" by simp
    moreover have "rx_match quoted_rx [c, d] []" using 3 True by (simp add: quoted_rx_iff)
    ultimately show ?thesis using rx_plus_Cons [of quoted_rx "[c, d]" z] by simp
  next
    case False
    with 3 have "rx_match (RPlus quoted_rx) (d # z) []" "rx_match quoted_rx [c] []" by (simp_all add: quoted_rx_iff)
    then show ?thesis using rx_plus_Cons [of quoted_rx "[c]" "d # z"] by simp
  qed
qed simp

lemma plain_plus: "rx_match (RPlus (RChar P)) s g \<longleftrightarrow> s \<noteq> [] \<and> list_all P s \<and> g = []"
proof
  show "rx_match (RPlus (RChar P)) s g \<Longrightarrow> s \<noteq> [] \<and> list_all P s \<and> g = []"
    by (induction rule: rx_match_plus_induct) (auto simp: rx_match_simps)
next
  show "rx_match (RPlus (RChar P)) s g" if "s \<noteq> [] \<and> list_all P s \<and> g = []"
  proof -
    have "s = [] \<or> rx_match (RPlus (RChar P)) s []" if "list_all P s" for s
      using that
    proof (induction s)
      case (Cons c s)
      moreover from this have "rx_match (RChar P) [c] []" by (auto intro: rx_match.char)
      ultimately show ?case using rx_plus_Cons [of "RChar P" "[c]" s] by simp
    qed simp
    with that show ?thesis by blast
  qed
qed

lemma id_rx_iff:
  "rx_match (id_rx n) s g \<longleftrightarrow>
     (\<exists>k. k \<noteq> [] \<and> (s = bquote # k @ [bquote] \<and> paired k \<and> g = [(n, k)]
        \<or> s = k \<and> list_all plain_char k \<and> g = [(Suc n, k)]))"
  (is "?L \<longleftrightarrow> ?R")
proof
  assume ?L
  then show ?R
    by (auto simp: id_rx_def rx_match_simps(2-5) plain_plus plain_char_def [abs_def] dest!: quoted_plus_sound)
next
  assume ?R
  then obtain k where "k \<noteq> []" and
    "s = bquote # k @ [bquote] \<and> paired k \<and> g = [(n, k)] \<or> s = k \<and> list_all plain_char k \<and> g = [(Suc n, k)]" by blast
  then show ?L
    using quoted_plus_complete [of k]
    by (auto simp: id_rx_def rx_match_simps(2-5) plain_plus plain_char_def [abs_def])
qed

subsection \<open>The scanner\<close>

lemma scan_quoted_sound:
  "scan_quoted z = Some (k, rest) \<Longrightarrow> z = k @ bquote # rest \<and> paired k \<and> (rest = [] \<or> hd rest \<noteq> bquote)"
  by (induction z arbitrary: k rest rule: scan_quoted.induct) (auto simp: paired_Cons split: if_splits)

lemma scan_quoted_complete:
  "paired k \<Longrightarrow> rest = [] \<or> hd rest \<noteq> bquote \<Longrightarrow> scan_quoted (k @ bquote # rest) = Some (k, rest)"
proof (induction k rule: paired.induct)
  case 1
  then show ?case by (cases rest) auto
next
  case (2 c)
  then show ?case by (cases rest) auto
qed (auto split: if_splits)

text \<open>An identifier, as the pattern has it, and the text after it.\<close>

definition id_text :: "string \<Rightarrow> string \<Rightarrow> bool" where
  "id_text s k \<longleftrightarrow> k \<noteq> [] \<and> (s = bquote # k @ [bquote] \<and> paired k \<or> s = k \<and> list_all plain_char k)"

lemma scan_id_sound:
  assumes "scan_id x = Some (k, rest)"
  shows "\<exists>s. x = s @ rest \<and> id_text s k"
proof (cases x)
  case (Cons c z)
  show ?thesis
  proof (cases "c = bquote")
    case True
    with assms Cons have "scan_quoted z = Some (k, rest)" "k \<noteq> []"
      by (auto simp: scan_id_def split: option.splits if_splits)
    then show ?thesis using Cons True scan_quoted_sound [of z k rest] by (auto simp: id_text_def)
  next
    case False
    with assms Cons have "k = takeWhile plain_char x" "rest = dropWhile plain_char x" "k \<noteq> []"
      by (auto simp: scan_id_def split: if_splits)
    moreover have "list_all plain_char (takeWhile plain_char x)"
      by (auto simp: list_all_iff dest: set_takeWhileD)
    ultimately show ?thesis by (metis id_text_def takeWhile_dropWhile_id)
  qed
qed (use assms in \<open>simp add: scan_id_def\<close>)

lemma scan_id_complete:
  assumes "id_text s k" "rest = [] \<or> hd rest = CHR ''.''"
  shows "scan_id (s @ rest) = Some (k, rest)"
  using assms(1) unfolding id_text_def
proof (elim conjE disjE)
  assume "k \<noteq> []" "s = bquote # k @ [bquote]" "paired k"
  then show ?thesis using assms(2) scan_quoted_complete [of k rest] by (auto simp: scan_id_def)
next
  assume k: "k \<noteq> []" "s = k" "list_all plain_char k"
  have plain: "\<forall>c \<in> set k. plain_char c" using k(3) by (simp add: list_all_iff)
  have stop: "takeWhile plain_char rest = []" "dropWhile plain_char rest = rest"
    using assms(2) by (cases rest; simp add: plain_char_def)+
  have split: "takeWhile plain_char (k @ rest) = k" "dropWhile plain_char (k @ rest) = rest"
    using plain stop by (simp_all add: takeWhile_append2 dropWhile_append2)
  obtain c z where c: "k = c # z" using k(1) by (cases k) auto
  with plain have "c \<noteq> bquote" by (auto simp: plain_char_def)
  with c split show ?thesis by (simp add: scan_id_def k(2))
qed

lemma id_text_not_empty: "id_text s k \<Longrightarrow> s \<noteq> []"
  by (auto simp: id_text_def)

text \<open>Two identifiers, each of which may be missing.\<close>

definition id_pair :: "string \<Rightarrow> string \<Rightarrow> string \<Rightarrow> bool" where
  "id_pair x schema table \<longleftrightarrow>
     (\<exists>s t. x = s @ t \<and> (s = [] \<and> schema = [] \<or> (\<exists>i. s = i @ [CHR ''.''] \<and> id_text i schema))
        \<and> (t = [] \<and> table = [] \<or> id_text t table))"

lemma id_rxD: "rx_match (id_rx n) s g \<Longrightarrow> \<exists>k m. id_text s k \<and> m \<in> {n, Suc n} \<and> g = [(m, k)]"
  unfolding id_rx_iff id_text_def by blast

lemma id_rxI: "id_text s k \<Longrightarrow> \<exists>m \<in> {n, Suc n}. rx_match (id_rx n) s [(m, k)]"
  unfolding id_rx_iff id_text_def by blast

lemma rx_seqD: "rx_match (RSeq a b) x gh \<Longrightarrow> \<exists>s t g h. x = s @ t \<and> gh = g @ h \<and> rx_match a s g \<and> rx_match b t h"
  unfolding rx_match_simps(3) by blast

lemma rx_optional: "rx_match (RAlt REmpty a) s g \<longleftrightarrow> s = [] \<and> g = [] \<or> rx_match a s g"
  by (simp add: rx_match_simps)

lemma rx_then_char: "rx_match (RSeq a (RLit c)) s g \<longleftrightarrow> (\<exists>i. s = i @ [c] \<and> rx_match a i g)"
  by (auto simp: rx_match_simps)

lemma captured_simps:
  "captured [] n = []" "captured ((m, k) # g) n = (if m = n then k else captured g n)"
  by (simp_all add: captured_def)

lemma identifier_rx_pair:
  "(\<exists>g. rx_match identifier_rx x g \<and> captured g 1 @ captured g 2 = schema \<and> captured g 3 @ captured g 4 = table)
     \<longleftrightarrow> id_pair x schema table"
  (is "?L \<longleftrightarrow> ?R")
proof
  assume ?L
  then obtain gh where gh: "rx_match identifier_rx x gh"
    "captured gh 1 @ captured gh 2 = schema" "captured gh 3 @ captured gh 4 = table" by blast
  from rx_seqD [OF gh(1) [unfolded identifier_rx_def]] obtain s t g h where x: "x = s @ t" and g: "gh = g @ h" and
    s: "s = [] \<and> g = [] \<or> (\<exists>i. s = i @ [CHR ''.''] \<and> rx_match (id_rx 1) i g)" and
    t: "t = [] \<and> h = [] \<or> rx_match (id_rx 3) t h"
    unfolding rx_optional rx_then_char by blast
  from s obtain k where k: "s = [] \<and> k = [] \<or> (\<exists>i. s = i @ [CHR ''.''] \<and> id_text i k)"
      "g = [] \<and> k = [] \<or> g = [(1, k)] \<or> g = [(Suc 1, k)]"
    using id_rxD [of 1] by (metis empty_iff insert_iff)
  from t have "\<exists>l. (t = [] \<and> l = [] \<or> id_text t l) \<and> (h = [] \<and> l = [] \<or> h = [(3, l)] \<or> h = [(Suc 3, l)])"
  proof (elim disjE conjE)
    assume "rx_match (id_rx 3) t h"
    from id_rxD [OF this] show ?thesis by blast
  qed simp
  then obtain l where l: "t = [] \<and> l = [] \<or> id_text t l" "h = [] \<and> l = [] \<or> h = [(3, l)] \<or> h = [(Suc 3, l)]" by blast
  have "captured (g @ h) 1 @ captured (g @ h) 2 = k" "captured (g @ h) 3 @ captured (g @ h) 4 = l"
    using k(2) l(2) by (auto simp: captured_simps)
  with gh(2,3) g have "schema = k" "table = l" by simp_all
  with x k(1) l(1) show ?R unfolding id_pair_def by blast
next
  assume ?R
  then obtain s t where x: "x = s @ t" and
    s: "s = [] \<and> schema = [] \<or> (\<exists>i. s = i @ [CHR ''.''] \<and> id_text i schema)" and
    t: "t = [] \<and> table = [] \<or> id_text t table"
    unfolding id_pair_def by blast
  from s obtain g where g: "rx_match (RAlt REmpty (RSeq (id_rx 1) (RLit (CHR ''.'')))) s g"
      "g = [] \<and> schema = [] \<or> (\<exists>m \<in> {1, Suc 1}. g = [(m, schema)])"
    unfolding rx_optional rx_then_char using id_rxI [of _ schema 1] by metis
  from t obtain h where h: "rx_match (RAlt REmpty (id_rx 3)) t h"
      "h = [] \<and> table = [] \<or> (\<exists>m \<in> {3, Suc 3}. h = [(m, table)])"
    unfolding rx_optional using id_rxI [of t table 3] by metis
  have "rx_match identifier_rx x (g @ h)"
    unfolding identifier_rx_def x by (rule rx_match.seq [OF g(1) h(1)])
  moreover have "captured (g @ h) 1 @ captured (g @ h) 2 = schema" "captured (g @ h) 3 @ captured (g @ h) 4 = table"
    using g(2) h(2) by (auto simp: captured_simps)
  ultimately show ?L by blast
qed

lemma match_identifier_pair: "match_identifier x = Some (schema, table) \<longleftrightarrow> id_pair x schema table"
proof
  assume m: "match_identifier x = Some (schema, table)"
  show "id_pair x schema table"
  proof (cases "x = []")
    case True
    with m show ?thesis by (simp add: match_identifier_def id_pair_def)
  next
    case x: False
    with m obtain k rest where k: "scan_id x = Some (k, rest)"
      by (auto simp: match_identifier_def split: option.splits)
    obtain s where s: "x = s @ rest" "id_text s k" using scan_id_sound [OF k] by blast
    show ?thesis
    proof (cases rest)
      case Nil
      with m x k s show ?thesis by (auto simp: match_identifier_def id_pair_def)
    next
      case (Cons c z)
      with m x k have c: "c = CHR ''.''" "schema = k"
        by (auto simp: match_identifier_def split: if_splits option.splits prod.splits list.splits)
      have "z = [] \<and> table = [] \<or> id_text z table"
        using m x k Cons c scan_id_sound [of z table "[]"]
        by (auto simp: match_identifier_def split: if_splits option.splits prod.splits list.splits)
      moreover have "x = (s @ [CHR ''.'']) @ z" using s Cons c by simp
      ultimately show ?thesis using s(2) c(2) unfolding id_pair_def by blast
    qed
  qed
next
  assume "id_pair x schema table"
  then obtain s t where x: "x = s @ t" and
    s: "s = [] \<and> schema = [] \<or> (\<exists>i. s = i @ [CHR ''.''] \<and> id_text i schema)" and
    t: "t = [] \<and> table = [] \<or> id_text t table"
    unfolding id_pair_def by blast
  have tail: "t = [] \<or> scan_id t = Some (table, [])" using t scan_id_complete [of t table "[]"] by auto
  from s show "match_identifier x = Some (schema, table)"
  proof (elim disjE exE conjE)
    assume "s = []" "schema = []"
    with x t tail show ?thesis by (auto simp: match_identifier_def dest: id_text_not_empty)
  next
    fix i assume i: "s = i @ [CHR ''.'']" "id_text i schema"
    then have "scan_id x = Some (schema, CHR ''.'' # t)" "x \<noteq> []"
      using scan_id_complete [of i schema "CHR ''.'' # t"] x by simp_all
    with t tail show ?thesis by (auto simp: match_identifier_def dest: id_text_not_empty)
  qed
qed

text \<open>
  \<open>dbUnquoteIdentifier\<close> captures what its regular expression captures.  The expression matches a
  text in at most one way, so that the schema and the table are those of every match.
\<close>

lemma unquote_is_regex:
  "(\<exists>g. rx_match identifier_rx x g \<and> captured g 1 @ captured g 2 = schema \<and> captured g 3 @ captured g 4 = table)
     \<longleftrightarrow> match_identifier x = Some (schema, table)"
  by (simp only: identifier_rx_pair match_identifier_pair)

subsection \<open>Quoted identifiers\<close>

lemma paired_double: "paired (double_char bquote x)"
  by (induction x) (auto simp: paired_Cons)

lemma undouble_double [simp]: "undouble_char q (double_char q x) = x"
proof (induction x)
  case (Cons c x)
  then show ?case by (cases "double_char q x") auto
qed simp

lemma double_char_Nil [simp]: "double_char q x = [] \<longleftrightarrow> x = []"
  by (cases x) auto

lemma quote_loop_double:
  "rest = [] \<or> hd rest \<noteq> q \<Longrightarrow> quote_loop q (double_char q x @ q # rest) = (length (double_char q x), Some q)"
proof (induction x)
  case Nil
  then show ?case by (cases rest) auto
next
  case (Cons c x)
  then show ?case by (cases "double_char q x @ q # rest") auto
qed

lemma dequote_loop_double: "dequote_loop q (double_char q x @ [q]) = x"
proof (induction x)
  case (Cons c x)
  then show ?case by (cases "double_char q x @ [q]") auto
qed simp

lemma id_text_quoted: "x \<noteq> [] \<Longrightarrow> id_text (quote_identifier x) (double_char bquote x)"
  by (simp add: id_text_def quote_identifier_def paired_double)

lemma match_quoted: "match_identifier (quote_identifier x) = (if x = [] then None else Some ([], double_char bquote x))"
proof (cases "x = []")
  case False
  then have "id_pair (quote_identifier x) [] (double_char bquote x)"
    using id_text_quoted [of x] unfolding id_pair_def by auto
  with False show ?thesis unfolding match_identifier_pair [symmetric] by simp
qed (simp add: match_identifier_def quote_identifier_def scan_id_def)

lemma match_quoted_pair:
  assumes "x \<noteq> []" "y \<noteq> []"
  shows "match_identifier (quote_identifier x @ ''.'' @ quote_identifier y) =
    Some (double_char bquote x, double_char bquote y)"
proof -
  have "id_pair ((quote_identifier x @ ''.'') @ quote_identifier y) (double_char bquote x) (double_char bquote y)"
    using id_text_quoted assms unfolding id_pair_def by blast
  then show ?thesis unfolding match_identifier_pair by simp
qed

lemma quote_refuses_NA:
  "dbQuoteIdentifier_SQLiteConnection_character (names, xs) = Inl (Stop ''Cannot pass NA to dbQuoteIdentifier()'')
     \<longleftrightarrow> NA_STRING \<in> set xs"
  by (simp add: dbQuoteIdentifier_SQLiteConnection_character_def)

lemma quote_strings:
  "dbQuoteIdentifier_SQLiteConnection_character (names, map RString xs) =
     Inr (names, map (\<lambda>x. RString (quote_identifier x)) xs)"
  by (auto simp: dbQuoteIdentifier_SQLiteConnection_character_def)

lemma quote_identifier_token:
  "rest = [] \<or> hd rest \<noteq> bquote \<Longrightarrow> quote_token (quote_identifier x @ rest) = (TK_ID, length (quote_identifier x))"
  using quote_loop_double [of rest bquote x] by (simp add: quote_token_def quote_identifier_def)

lemma quote_identifier_name: "sqlite3NameFromToken (quote_identifier x @ rest) (length (quote_identifier x)) = x"
  by (simp add: sqlite3NameFromToken_def sqlite3Dequote_def quote_identifier_def dequote_loop_double)

text \<open>
  C30: SQLite reads what \<open>dbQuoteIdentifier\<close> makes of a string as one identifier, which ends where it
  ends and whose name is the string that was quoted, whatever characters the string has, backticks
  included.  (The statement goes on with anything but a backtick.)
\<close>

theorem quoted_identifier_read:
  assumes "dbQuoteIdentifier_SQLiteConnection_character (names, xs) = Inr (names', qs)" "i < length xs"
    and "rest = [] \<or> hd rest \<noteq> bquote"
  shows "length qs = length xs \<and> names' = names \<and> (\<exists>x q. xs ! i = RString x \<and> qs ! i = RString q
    \<and> quote_token (q @ rest) = (TK_ID, length q) \<and> sqlite3NameFromToken (q @ rest) (length q) = x)"
proof -
  have qs: "NA_STRING \<notin> set xs" "names' = names"
      "qs = map (\<lambda>s. case s of NA_STRING \<Rightarrow> NA_STRING | RString s \<Rightarrow> RString (quote_identifier s)) xs"
    using assms(1) by (auto simp: dbQuoteIdentifier_SQLiteConnection_character_def split: if_splits)
  with assms(2) obtain x where "xs ! i = RString x" by (metis nth_mem rstring.exhaust)
  with qs assms(2) quote_identifier_token [OF assms(3)] quote_identifier_name show ?thesis by simp
qed

text \<open>A quoted table name, and a quoted schema and table as DBI joins them for an \<open>Id\<close>.\<close>

definition quote_id :: "string option \<times> string \<Rightarrow> string" where
  "quote_id = (\<lambda>(schema, table). (case schema of None \<Rightarrow> [] | Some s \<Rightarrow> quote_identifier s @ ''.'') @ quote_identifier table)"

definition id_args :: "string option \<times> string \<Rightarrow> (string \<times> string) list" where
  "id_args = (\<lambda>(schema, table). (case schema of None \<Rightarrow> [] | Some s \<Rightarrow> [(''schema'', s)]) @ [(''table'', table)])"

lemma match_quote_id:
  "schema \<noteq> Some [] \<Longrightarrow> table \<noteq> [] \<Longrightarrow> match_identifier (quote_id (schema, table)) =
     Some (case schema of None \<Rightarrow> [] | Some s \<Rightarrow> double_char bquote s, double_char bquote table)"
  using match_quoted_pair [of "the schema" table] by (cases schema) (auto simp: quote_id_def match_quoted)

lemma quote_id_none: "quote_id (None, x) = quote_identifier x"
  by (simp add: quote_id_def)

definition unquoted :: "string \<Rightarrow> (string \<times> string) list" where
  "unquoted x = (let m = the (match_identifier x) in
     as_table (undouble_char bquote (fst m)) (undouble_char bquote (snd m)))"

lemma unquoted_quote_id: "schema \<noteq> Some [] \<Longrightarrow> table \<noteq> [] \<Longrightarrow> unquoted (quote_id (schema, table)) = id_args (schema, table)"
  by (cases schema) (simp_all add: unquoted_def match_quote_id as_table_def id_args_def)

lemma unquote_all:
  assumes "\<forall>x \<in> set xs. match_identifier x \<noteq> None"
  shows "dbUnquoteIdentifier_SQLiteConnection_SQL (names, map RString xs) = Inr (names, map unquoted xs)"
proof -
  let ?m = "map (\<lambda>s. case s of NA_STRING \<Rightarrow> None | RString s \<Rightarrow> match_identifier s) (map RString xs)"
  have "filter (\<lambda>(s, m). m = None) (zip (map RString xs) ?m) = []"
    using assms by (induction xs) auto
  then show ?thesis by (simp add: dbUnquoteIdentifier_SQLiteConnection_SQL_def unquoted_def Let_def)
qed

text \<open>The empty string is quoted but not unquoted.\<close>

lemma empty_identifier: "rbind (dbQuoteIdentifier_SQLiteConnection_character (names, [RString []]))
    dbUnquoteIdentifier_SQLiteConnection_SQL = Inl (Stop ''Can't unquote ``'')"
  using match_quoted [of "[]"] quote_strings [of names "[[]]"]
  by (simp add: dbUnquoteIdentifier_SQLiteConnection_SQL_def Let_def quote_identifier_def)

text \<open>
  C31: unquoting gives back what was quoted: for tables, and for schemas and tables joined by a dot, the
  arguments of \<open>Id\<close> are the same strings, under the same names.
\<close>

theorem unquote_quote:
  assumes "\<forall>(schema, table) \<in> set ids. schema \<noteq> Some [] \<and> table \<noteq> []"
  shows "dbUnquoteIdentifier_SQLiteConnection_SQL (names, map (\<lambda>i. RString (quote_id i)) ids) = Inr (names, map id_args ids)"
proof -
  have ids: "match_identifier (quote_id i) \<noteq> None" "unquoted (quote_id i) = id_args i" if "i \<in> set ids" for i
    using assms that match_quote_id [of "fst i" "snd i"] unquoted_quote_id [of "fst i" "snd i"] by auto
  then have "\<forall>x \<in> set (map quote_id ids). match_identifier x \<noteq> None" by simp
  from unquote_all [OF this, of names] ids(2) show ?thesis by (simp add: comp_def)
qed

text \<open>A name with a backtick and the end of a statement, and its schema.\<close>

definition nasty :: string where
  "nasty = ''x`; DROP TABLE `y''"

theorem quoted_identifier_read_witness:
  "quote_token (''`x``; DROP TABLE ``y`'' @ '' (a)'') = (TK_ID, length ''`x``; DROP TABLE ``y`'')
    \<and> sqlite3NameFromToken (''`x``; DROP TABLE ``y`'' @ '' (a)'') (length ''`x``; DROP TABLE ``y`'') = nasty"
proof -
  have q: "dbQuoteIdentifier_SQLiteConnection_character (None, [RString nasty]) = Inr (None, [RString ''`x``; DROP TABLE ``y`''])"
    by (simp add: dbQuoteIdentifier_SQLiteConnection_character_def quote_identifier_def nasty_def)
  show ?thesis using quoted_identifier_read [OF q, of 0 "'' (a)''"] by simp
qed

theorem unquote_quote_witness:
  "dbUnquoteIdentifier_SQLiteConnection_SQL (Some [''t'', ''u''], [RString ''`x``; DROP TABLE ``y`'', RString ''`temp`.`b c`'']) =
     Inr (Some [''t'', ''u''], [[(''table'', nasty)], [(''schema'', ''temp''), (''table'', ''b c'')]])"
  using unquote_quote [of "[(None, nasty), (Some ''temp'', ''b c'')]" "Some [''t'', ''u'']"]
  by (simp add: quote_id_def id_args_def quote_identifier_def nasty_def)

end
