(* ===== verification/Transactions.thy ===== *)
theory Transactions
  imports Identifiers Connect
begin

text \<open>
  Transactions and savepoints: what SQLite does for the statements that begin, commit and roll back
  (\<open>OP_AutoCommit\<close>, \<open>OP_Savepoint\<close>), and the methods that send these: \<open>dbBegin\<close>, \<open>dbCommit\<close>,
  \<open>dbRollback\<close> and the savepoint around \<open>dbAppendTable\<close>.

  The content of the database is opaque; the pager keeps, for the transaction and for each savepoint,
  the content it restores.  Left out are virtual tables, input and output that fail, and the memory.
  Parameter: whether a commit finds the database locked (\<open>commit_busy\<close>).
\<close>

subsection \<open>The state of SQLite\<close>

datatype sp_op = SAVEPOINT_BEGIN | SAVEPOINT_RELEASE | SAVEPOINT_ROLLBACK

record savepoint =
  zName :: string
  sp_nDeferredCons :: int
  sp_nDeferredImmCons :: int

text \<open>
  The handle: its savepoints, the last one first, the number of those that the pager knows (all but
  one that began the transaction), and the statements that are writing.  Then the pager: the content,
  what a rollback of the transaction restores, and what each of its savepoints restores.
\<close>

record 'd sq_db =
  autoCommit :: bool
  isTransactionSavepoint :: bool
  pSavepoint :: "savepoint list"
  nSavepoint :: int
  nDeferredCons :: int
  nDeferredImmCons :: int
  nVdbeWrite :: nat
  content :: 'd
  pg_orig :: 'd
  aSavepoint :: "'d list"

definition upper_to_lower :: "char \<Rightarrow> int" where
  "upper_to_lower c = int (sqlite3UpperToLower ! of_char c)"

text \<open>The end of a string is the character 0.\<close>

fun sqlite3StrICmp :: "string \<Rightarrow> string \<Rightarrow> int" where
  "sqlite3StrICmp [] [] = 0"
| "sqlite3StrICmp [] (b # _) = - upper_to_lower b"
| "sqlite3StrICmp (a # _) [] = upper_to_lower a"
| "sqlite3StrICmp (a # l) (b # r) =
     (if a = b then sqlite3StrICmp l r
      else let c = upper_to_lower a - upper_to_lower b in if c \<noteq> 0 then c else sqlite3StrICmp l r)"

text \<open>The loop over the list; the number is \<open>iSavepoint\<close>.\<close>

fun find_savepoint :: "string \<Rightarrow> savepoint list \<Rightarrow> nat option" where
  "find_savepoint name [] = None"
| "find_savepoint name (sp # sps) =
     (if sqlite3StrICmp (zName sp) name = 0 then Some 0 else map_option Suc (find_savepoint name sps))"

definition sqlite3PagerSavepoint :: "sp_op \<Rightarrow> int \<Rightarrow> 'd sq_db \<Rightarrow> 'd sq_db" where
  "sqlite3PagerSavepoint op iSavepoint db =
     (if iSavepoint < int (length (aSavepoint db))
      then let nNew = nat (iSavepoint + (if op = SAVEPOINT_RELEASE then 0 else 1)) in
        db\<lparr>aSavepoint := take nNew (aSavepoint db),
           content := (if op = SAVEPOINT_RELEASE then content db
             else if nNew = 0 then pg_orig db else aSavepoint db ! (nNew - 1))\<rparr>
      else db)"

definition sqlite3VdbeCheckFkDeferred :: "'d sq_db \<Rightarrow> string option" where
  "sqlite3VdbeCheckFkDeferred db =
     (if nDeferredCons db + nDeferredImmCons db = 0 then None else Some ''FOREIGN KEY constraint failed'')"

text \<open>The end of the transaction in \<open>sqlite3VdbeHalt\<close> and \<open>vdbeCommit\<close>.\<close>

definition committed :: "'d sq_db \<Rightarrow> 'd sq_db" where
  "committed db = db\<lparr>nDeferredCons := 0, nDeferredImmCons := 0, pg_orig := content db, aSavepoint := []\<rparr>"

definition sqlite3RollbackAll :: "'d sq_db \<Rightarrow> 'd sq_db" where
  "sqlite3RollbackAll db =
     db\<lparr>content := pg_orig db, aSavepoint := [], nDeferredCons := 0, nDeferredImmCons := 0\<rparr>"

definition sqlite3CloseSavepoints :: "'d sq_db \<Rightarrow> 'd sq_db" where
  "sqlite3CloseSavepoints db = db\<lparr>pSavepoint := [], nSavepoint := 0, isTransactionSavepoint := False\<rparr>"

subsection \<open>The operations\<close>

text \<open>The message of an error, or none, and the state after the operation.\<close>

definition op_savepoint_begin :: "string \<Rightarrow> 'd sq_db \<Rightarrow> string option \<times> 'd sq_db" where
  "op_savepoint_begin name db =
     (if nVdbeWrite db > 0 then (Some ''cannot open savepoint - SQL statements in progress'', db)
      else
        let db' = (if autoCommit db
                   then db\<lparr>autoCommit := False, isTransactionSavepoint := True, pg_orig := content db\<rparr>
                   else db\<lparr>nSavepoint := nSavepoint db + 1, aSavepoint := aSavepoint db @ [content db]\<rparr>) in
        (None, db'\<lparr>pSavepoint := \<lparr>zName = name, sp_nDeferredCons = nDeferredCons db,
                     sp_nDeferredImmCons = nDeferredImmCons db\<rparr> # pSavepoint db\<rparr>))"

definition OP_Savepoint :: "('d sq_db \<Rightarrow> bool) \<Rightarrow> sp_op \<Rightarrow> string \<Rightarrow> 'd sq_db \<Rightarrow> string option \<times> 'd sq_db" where
  "OP_Savepoint commit_busy p1 name db =
     (if p1 = SAVEPOINT_BEGIN then op_savepoint_begin name db
      else case find_savepoint name (pSavepoint db) of
        None \<Rightarrow> (Some (''no such savepoint: '' @ name), db)
      | Some i \<Rightarrow>
          if nVdbeWrite db > 0 \<and> p1 = SAVEPOINT_RELEASE
          then (Some ''cannot release savepoint - SQL statements in progress'', db)
          else
            let isTransaction = (Suc i = length (pSavepoint db) \<and> isTransactionSavepoint db) in
            if isTransaction \<and> p1 = SAVEPOINT_RELEASE
            then (case sqlite3VdbeCheckFkDeferred db of
                Some m \<Rightarrow> (Some m, db)
              | None \<Rightarrow>
                  if commit_busy db then (Some ''database is locked'', db)
                  else (None, (committed db)\<lparr>autoCommit := True, isTransactionSavepoint := False,
                    pSavepoint := drop (Suc i) (pSavepoint db), nSavepoint := nSavepoint db - int i\<rparr>))
            else
              let sp = pSavepoint db ! i;
                  db' = (sqlite3PagerSavepoint p1 (nSavepoint db - int i - 1) db)
                    \<lparr>pSavepoint := drop i (pSavepoint db), nSavepoint := nSavepoint db - int i\<rparr> in
              (None,
                if p1 = SAVEPOINT_RELEASE
                then db'\<lparr>pSavepoint := tl (pSavepoint db'), nSavepoint := nSavepoint db' - 1\<rparr>
                else db'\<lparr>nDeferredCons := sp_nDeferredCons sp, nDeferredImmCons := sp_nDeferredImmCons sp\<rparr>))"

definition OP_AutoCommit :: "('d sq_db \<Rightarrow> bool) \<Rightarrow> bool \<Rightarrow> bool \<Rightarrow> 'd sq_db \<Rightarrow> string option \<times> 'd sq_db" where
  "OP_AutoCommit commit_busy desiredAutoCommit iRollback db =
     (if desiredAutoCommit \<noteq> autoCommit db
      then
        if iRollback then (None, sqlite3CloseSavepoints ((sqlite3RollbackAll db)\<lparr>autoCommit := True\<rparr>))
        else if desiredAutoCommit \<and> nVdbeWrite db > 0
        then (Some ''cannot commit transaction - SQL statements in progress'', db)
        else case sqlite3VdbeCheckFkDeferred db of
          Some m \<Rightarrow> (Some m, db)
        | None \<Rightarrow>
            if \<not> desiredAutoCommit then (None, sqlite3CloseSavepoints (db\<lparr>autoCommit := False, pg_orig := content db\<rparr>))
            else if commit_busy db then (Some ''database is locked'', db)
            else (None, sqlite3CloseSavepoints ((committed db)\<lparr>autoCommit := True\<rparr>))
      else
        (Some (if \<not> desiredAutoCommit then ''cannot start a transaction within a transaction''
           else if iRollback then ''cannot rollback - no transaction is active''
           else ''cannot commit - no transaction is active''), db))"

subsection \<open>The stack of savepoints\<close>

text \<open>
  What SQLite documents: a stack of names, each with the content to go back to.  \<open>ROLLBACK TO\<close> keeps
  the savepoint it names, \<open>RELEASE\<close> removes it, and both remove those after it.
\<close>

fun since :: "string \<Rightarrow> (string \<times> 'd) list \<Rightarrow> (string \<times> 'd) list" where
  "since name [] = []"
| "since name (sp # sps) = (if sqlite3StrICmp (fst sp) name = 0 then sp # sps else since name sps)"

fun spec_savepoint :: "sp_op \<Rightarrow> string \<Rightarrow> 'd \<times> (string \<times> 'd) list \<Rightarrow> 'd \<times> (string \<times> 'd) list" where
  "spec_savepoint SAVEPOINT_BEGIN name (d, sps) = (d, (name, d) # sps)"
| "spec_savepoint SAVEPOINT_RELEASE name (d, sps) = (d, tl (since name sps))"
| "spec_savepoint SAVEPOINT_ROLLBACK name (d, sps) = (snd (hd (since name sps)), since name sps)"

definition savepoint_stack :: "'d sq_db \<Rightarrow> 'd \<times> (string \<times> 'd) list" where
  "savepoint_stack db = (content db, zip (map zName (pSavepoint db))
     (rev (aSavepoint db) @ (if isTransactionSavepoint db then [pg_orig db] else [])))"

text \<open>What the assertions of \<open>OP_Savepoint\<close> say, and that the pager is in step with the list.\<close>

definition tx_inv :: "'d sq_db \<Rightarrow> bool" where
  "tx_inv db \<longleftrightarrow> (pSavepoint db \<noteq> [] \<longrightarrow> \<not> autoCommit db) \<and> (isTransactionSavepoint db \<longrightarrow> pSavepoint db \<noteq> [])
     \<and> nSavepoint db = int (length (aSavepoint db))
     \<and> length (pSavepoint db) = length (aSavepoint db) + (if isTransactionSavepoint db then 1 else 0)
     \<and> (autoCommit db \<longrightarrow> nDeferredCons db = 0 \<and> nDeferredImmCons db = 0 \<and> pg_orig db = content db)"

lemma find_savepoint_Some:
  "find_savepoint name sps = Some i \<Longrightarrow> length snaps = length sps \<Longrightarrow>
     i < length sps \<and> since name (zip (map zName sps) snaps) = drop i (zip (map zName sps) snaps)"
proof (induction sps arbitrary: i snaps)
  case (Cons sp sps)
  then show ?case by (cases snaps) (auto split: if_splits)
qed simp

lemma sqlite3StrICmp_refl [simp]: "sqlite3StrICmp s s = 0"
  by (induction s) simp_all

lemma tx_inv_snaps:
  "tx_inv db \<Longrightarrow> length (rev (aSavepoint db) @ (if isTransactionSavepoint db then [pg_orig db] else [])) =
     length (pSavepoint db)"
  by (simp add: tx_inv_def)

text \<open>The pager has for the savepoint number \<open>i\<close> of the list what the stack has for it.\<close>

lemma pager_savepoint:
  assumes "tx_inv db" "i < length (pSavepoint db)" "op \<noteq> SAVEPOINT_BEGIN"
    and "op = SAVEPOINT_RELEASE \<longrightarrow> \<not> (isTransactionSavepoint db \<and> Suc i = length (pSavepoint db))"
  shows "content (sqlite3PagerSavepoint op (nSavepoint db - int i - 1) db) =
      (if op = SAVEPOINT_RELEASE then content db
       else (rev (aSavepoint db) @ (if isTransactionSavepoint db then [pg_orig db] else [])) ! i)"
    and "aSavepoint (sqlite3PagerSavepoint op (nSavepoint db - int i - 1) db) =
      take (length (aSavepoint db) - i - (if op = SAVEPOINT_RELEASE then 1 else 0)) (aSavepoint db)"
proof -
  let ?n = "length (aSavepoint db)"
  have n: "nSavepoint db = int ?n" and i: "i < ?n + (if isTransactionSavepoint db then 1 else 0)"
    using assms(1,2) by (simp_all add: tx_inv_def)
  have "op = SAVEPOINT_RELEASE \<Longrightarrow> i < ?n" using assms(1,4) i by (auto simp: tx_inv_def split: if_splits)
  then have nat: "nat (int ?n - int i - 1 + (if op = SAVEPOINT_RELEASE then 0 else 1)) =
      ?n - i - (if op = SAVEPOINT_RELEASE then 1 else 0)"
    using i by (auto split: if_splits)
  have "int ?n - int i - 1 < int ?n" by simp
  then show "aSavepoint (sqlite3PagerSavepoint op (nSavepoint db - int i - 1) db) =
      take (?n - i - (if op = SAVEPOINT_RELEASE then 1 else 0)) (aSavepoint db)"
    unfolding sqlite3PagerSavepoint_def n Let_def nat by simp
  have "(if ?n - i = 0 then pg_orig db else aSavepoint db ! (?n - i - 1)) =
      (rev (aSavepoint db) @ (if isTransactionSavepoint db then [pg_orig db] else [])) ! i"
    using i by (auto simp: nth_append rev_nth split: if_splits)
  then show "content (sqlite3PagerSavepoint op (nSavepoint db - int i - 1) db) =
      (if op = SAVEPOINT_RELEASE then content db
       else (rev (aSavepoint db) @ (if isTransactionSavepoint db then [pg_orig db] else [])) ! i)"
    unfolding sqlite3PagerSavepoint_def n Let_def nat by (auto split: if_splits)
qed

lemma sqlite3PagerSavepoint_keeps [simp]:
  "pSavepoint (sqlite3PagerSavepoint op i db) = pSavepoint db"
  "nSavepoint (sqlite3PagerSavepoint op i db) = nSavepoint db"
  "autoCommit (sqlite3PagerSavepoint op i db) = autoCommit db"
  "isTransactionSavepoint (sqlite3PagerSavepoint op i db) = isTransactionSavepoint db"
  "pg_orig (sqlite3PagerSavepoint op i db) = pg_orig db"
  "nVdbeWrite (sqlite3PagerSavepoint op i db) = nVdbeWrite db"
  "nDeferredCons (sqlite3PagerSavepoint op i db) = nDeferredCons db"
  "nDeferredImmCons (sqlite3PagerSavepoint op i db) = nDeferredImmCons db"
  by (simp_all add: sqlite3PagerSavepoint_def Let_def)

lemma begin_refines:
  assumes "tx_inv db" "op_savepoint_begin name db = (None, db')"
  shows "tx_inv db' \<and> savepoint_stack db' = spec_savepoint SAVEPOINT_BEGIN name (savepoint_stack db)"
  using assms by (auto simp: op_savepoint_begin_def tx_inv_def savepoint_stack_def Let_def split: if_splits)

text \<open>A stack of which the first \<open>i\<close> elements are gone.\<close>

lemma drop_stack:
  assumes "length snaps = length sps"
  shows "drop i (zip (map zName sps) snaps) = zip (map zName (drop i sps)) (drop i snaps)"
  by (simp add: drop_zip drop_map)

lemma drop_snaps:
  assumes "tx_inv db" "i \<le> length (aSavepoint db)"
  shows "drop i (rev (aSavepoint db) @ (if isTransactionSavepoint db then [pg_orig db] else [])) =
    rev (take (length (aSavepoint db) - i) (aSavepoint db)) @ (if isTransactionSavepoint db then [pg_orig db] else [])"
  using assms by (simp add: rev_take)

lemma rollback_refines:
  assumes inv: "tx_inv db" and run: "OP_Savepoint busy SAVEPOINT_ROLLBACK name db = (None, db')"
  shows "tx_inv db' \<and> savepoint_stack db' = spec_savepoint SAVEPOINT_ROLLBACK name (savepoint_stack db)"
proof -
  let ?snaps = "rev (aSavepoint db) @ (if isTransactionSavepoint db then [pg_orig db] else [])"
  obtain i where i: "find_savepoint name (pSavepoint db) = Some i"
    using run by (auto simp: OP_Savepoint_def split: option.splits)
  note len = tx_inv_snaps [OF inv]
  note since = find_savepoint_Some [OF i len]
  let ?db = "sqlite3PagerSavepoint SAVEPOINT_ROLLBACK (nSavepoint db - int i - 1) db"
  have pg: "content ?db = ?snaps ! i" "aSavepoint ?db = take (length (aSavepoint db) - i) (aSavepoint db)"
    using pager_savepoint [OF inv conjunct1 [OF since], of SAVEPOINT_ROLLBACK] by simp_all
  have le: "i \<le> length (aSavepoint db)" using since len by (auto split: if_splits)
  have db': "pSavepoint db' = drop i (pSavepoint db)" "nSavepoint db' = nSavepoint db - int i"
      "content db' = ?snaps ! i" "aSavepoint db' = take (length (aSavepoint db) - i) (aSavepoint db)"
      "isTransactionSavepoint db' = isTransactionSavepoint db" "pg_orig db' = pg_orig db" "autoCommit db' = autoCommit db"
    using run i pg by (auto simp: OP_Savepoint_def Let_def)
  have "tx_inv db'" using inv since le unfolding tx_inv_def db' by auto
  moreover have "snd (hd (drop i (zip (map zName (pSavepoint db)) ?snaps))) = ?snaps ! i"
    using since len by (simp add: hd_drop_conv_nth)
  moreover have "savepoint_stack db' = (?snaps ! i, drop i (zip (map zName (pSavepoint db)) ?snaps))"
    unfolding savepoint_stack_def db' drop_stack [OF len] drop_snaps [OF inv le] ..
  ultimately show ?thesis using since by (simp add: savepoint_stack_def)
qed

lemma release_refines:
  assumes inv: "tx_inv db" and run: "OP_Savepoint busy SAVEPOINT_RELEASE name db = (None, db')"
  shows "tx_inv db' \<and> savepoint_stack db' = spec_savepoint SAVEPOINT_RELEASE name (savepoint_stack db)"
proof -
  let ?snaps = "rev (aSavepoint db) @ (if isTransactionSavepoint db then [pg_orig db] else [])"
  obtain i where i: "find_savepoint name (pSavepoint db) = Some i"
    using run by (auto simp: OP_Savepoint_def split: option.splits)
  note len = tx_inv_snaps [OF inv]
  note since = find_savepoint_Some [OF i len]
  have tl: "tl (drop i (zip (map zName (pSavepoint db)) ?snaps)) =
      zip (map zName (drop (Suc i) (pSavepoint db))) (drop (Suc i) ?snaps)"
    unfolding drop_stack [OF len, of "Suc i", symmetric] by (simp only: drop_Suc tl_drop)
  show ?thesis
  proof (cases "Suc i = length (pSavepoint db) \<and> isTransactionSavepoint db")
    case True
    with run i inv since have "db' = (committed db)\<lparr>autoCommit := True, isTransactionSavepoint := False,
        pSavepoint := [], nSavepoint := 0\<rparr>"
      by (auto simp: OP_Savepoint_def Let_def tx_inv_def split: if_splits option.splits)
    with True len tl since show ?thesis
      by (auto simp: committed_def tx_inv_def savepoint_stack_def)
  next
    case False
    let ?db = "sqlite3PagerSavepoint SAVEPOINT_RELEASE (nSavepoint db - int i - 1) db"
    have pg: "content ?db = content db" "aSavepoint ?db = take (length (aSavepoint db) - Suc i) (aSavepoint db)"
      using pager_savepoint [OF inv conjunct1 [OF since], of SAVEPOINT_RELEASE] False by auto
    have le: "Suc i \<le> length (aSavepoint db)" using since len False by (auto split: if_splits)
    have db': "pSavepoint db' = drop (Suc i) (pSavepoint db)" "nSavepoint db' = nSavepoint db - int (Suc i)"
        "content db' = content db" "aSavepoint db' = take (length (aSavepoint db) - Suc i) (aSavepoint db)"
        "isTransactionSavepoint db' = isTransactionSavepoint db" "pg_orig db' = pg_orig db" "autoCommit db' = autoCommit db"
      using run i pg False by (auto simp: OP_Savepoint_def Let_def drop_Suc tl_drop split: if_splits)
    have "tx_inv db'" using inv since le False unfolding tx_inv_def db' by auto
    moreover have "savepoint_stack db' = (content db, zip (map zName (drop (Suc i) (pSavepoint db))) (drop (Suc i) ?snaps))"
      unfolding savepoint_stack_def db' drop_snaps [OF inv le] ..
    ultimately show ?thesis using since tl by (simp add: savepoint_stack_def)
  qed
qed

text \<open>When an operation is refused; it then changes nothing.\<close>

definition savepoint_refused :: "('d sq_db \<Rightarrow> bool) \<Rightarrow> sp_op \<Rightarrow> string \<Rightarrow> 'd sq_db \<Rightarrow> bool" where
  "savepoint_refused commit_busy op name db \<longleftrightarrow>
     op \<noteq> SAVEPOINT_BEGIN \<and> since name (snd (savepoint_stack db)) = []
     \<or> op \<noteq> SAVEPOINT_ROLLBACK \<and> nVdbeWrite db > 0
     \<or> op = SAVEPOINT_RELEASE \<and> isTransactionSavepoint db \<and> tl (since name (snd (savepoint_stack db))) = []
       \<and> (nDeferredCons db + nDeferredImmCons db \<noteq> 0 \<or> commit_busy db)"

lemma find_savepoint_None:
  "length snaps = length sps \<Longrightarrow> find_savepoint name sps = None \<longleftrightarrow> since name (zip (map zName sps) snaps) = []"
proof (induction sps arbitrary: snaps)
  case (Cons sp sps)
  then show ?case by (cases snaps) auto
qed simp

lemma savepoint_result:
  assumes inv: "tx_inv db" and run: "OP_Savepoint busy op name db = (r, db')"
  shows "(r \<noteq> None \<longleftrightarrow> savepoint_refused busy op name db) \<and> (r \<noteq> None \<longrightarrow> db' = db)"
proof -
  let ?snaps = "rev (aSavepoint db) @ (if isTransactionSavepoint db then [pg_orig db] else [])"
  note len = tx_inv_snaps [OF inv]
  have stack: "snd (savepoint_stack db) = zip (map zName (pSavepoint db)) ?snaps" by (simp add: savepoint_stack_def)
  show ?thesis
  proof (cases "op = SAVEPOINT_BEGIN")
    case True
    with run show ?thesis by (auto simp: OP_Savepoint_def op_savepoint_begin_def savepoint_refused_def Let_def split: if_splits)
  next
    case op: False
    show ?thesis
    proof (cases "find_savepoint name (pSavepoint db)")
      case None
      then have "since name (snd (savepoint_stack db)) = []" using find_savepoint_None [OF len, of name] stack by simp
      with None run op show ?thesis by (auto simp: OP_Savepoint_def savepoint_refused_def)
    next
      case (Some i)
      note since = find_savepoint_Some [OF Some len]
      have "since name (snd (savepoint_stack db)) \<noteq> []" using since len unfolding stack by simp
      moreover have "tl (since name (snd (savepoint_stack db))) = [] \<longleftrightarrow> Suc i = length (pSavepoint db)"
      proof -
        have "length (tl (since name (snd (savepoint_stack db)))) = length (pSavepoint db) - Suc i"
          using since len unfolding stack by simp
        with since show ?thesis by (metis Suc_leI diff_is_0_eq le_antisym length_0_conv)
      qed
      ultimately show ?thesis using run op Some
        by (cases op) (auto simp: OP_Savepoint_def savepoint_refused_def sqlite3VdbeCheckFkDeferred_def Let_def split: if_splits)
    qed
  qed
qed

text \<open>
  C29: SQLite's savepoints, which it numbers differently in the handle and in the pager and of which one
  may be the transaction, are a stack of names with the contents to go back to, as its documentation
  says: for every operation that is not refused, the state after it has the stack and the content that
  the specification gives; an operation that is refused changes nothing.
\<close>

theorem savepoints_are_a_stack:
  assumes "tx_inv db" "OP_Savepoint commit_busy op name db = (r, db')"
  shows "tx_inv db' \<and> (if savepoint_refused commit_busy op name db then r \<noteq> None \<and> db' = db
    else r = None \<and> savepoint_stack db' = spec_savepoint op name (savepoint_stack db))"
proof (cases r)
  case None
  then have "tx_inv db' \<and> savepoint_stack db' = spec_savepoint op name (savepoint_stack db)"
    using assms begin_refines [of db name db'] rollback_refines [of db commit_busy name db']
      release_refines [of db commit_busy name db']
    by (cases op) (auto simp: OP_Savepoint_def)
  with None savepoint_result [OF assms] show ?thesis by auto
next
  case (Some m)
  with savepoint_result [OF assms] assms(1) show ?thesis by auto
qed

text \<open>A handle in autocommit mode.\<close>

definition fresh_db :: "'d \<Rightarrow> 'd sq_db" where
  "fresh_db d = \<lparr>autoCommit = True, isTransactionSavepoint = False, pSavepoint = [], nSavepoint = 0, nDeferredCons = 0,
     nDeferredImmCons = 0, nVdbeWrite = 0, content = d, pg_orig = d, aSavepoint = []\<rparr>"

text \<open>Two savepoints, then a change, then back to the first, whose name is written otherwise.\<close>

definition two_savepoints :: "nat sq_db" where
  "two_savepoints = (snd (OP_Savepoint (\<lambda>_. False) SAVEPOINT_BEGIN ''b''
     ((snd (OP_Savepoint (\<lambda>_. False) SAVEPOINT_BEGIN ''Outer'' (fresh_db 1)))\<lparr>content := 2\<rparr>)))\<lparr>content := 3\<rparr>"

theorem savepoints_are_a_stack_witness:
  "savepoint_stack two_savepoints = (3, [(''b'', 2), (''Outer'', 1)])
    \<and> savepoint_stack (snd (OP_Savepoint (\<lambda>_. False) SAVEPOINT_ROLLBACK ''OUTER'' two_savepoints)) = (1, [(''Outer'', 1)])"
proof -
  have inv: "tx_inv two_savepoints" and stack: "savepoint_stack two_savepoints = (3, [(''b'', 2), (''Outer'', 1)])"
    by (simp_all add: two_savepoints_def OP_Savepoint_def op_savepoint_begin_def fresh_db_def tx_inv_def savepoint_stack_def)
  have eq: "sqlite3StrICmp ''Outer'' ''OUTER'' = 0" "sqlite3StrICmp ''b'' ''OUTER'' \<noteq> 0"
    by (simp_all add: upper_to_lower_def sqlite3UpperToLower_def nth_append del: upt_rec_numeral)
  have "\<not> savepoint_refused (\<lambda>_. False) SAVEPOINT_ROLLBACK ''OUTER'' two_savepoints"
    using eq by (simp add: savepoint_refused_def stack)
  with savepoints_are_a_stack [OF inv, of "\<lambda>_. False" SAVEPOINT_ROLLBACK "''OUTER''"] eq stack
  show ?thesis by (cases "OP_Savepoint (\<lambda>_. False) SAVEPOINT_ROLLBACK ''OUTER'' two_savepoints") simp
qed

text \<open>The invariant is kept by the other operations.\<close>

lemma autocommit_keeps: "tx_inv db \<Longrightarrow> tx_inv (snd (OP_AutoCommit commit_busy desired rollback db))"
  by (auto simp: OP_AutoCommit_def tx_inv_def sqlite3CloseSavepoints_def sqlite3RollbackAll_def committed_def
      split: option.split)

subsection \<open>The statements\<close>

datatype tx_statement = AutoCommit bool bool | Savepoint sp_op string

text \<open>An identifier in backticks that is the rest of the statement.\<close>

definition name_token :: "string \<Rightarrow> string option" where
  "name_token z =
     (if z \<noteq> [] \<and> hd z = bquote \<and> quote_token z = (TK_ID, length z)
      then Some (sqlite3NameFromToken z (length z)) else None)"

text \<open>The statements of the grammar, as the package writes them, and their operations.\<close>

definition tx_command :: "string \<Rightarrow> tx_statement option" where
  "tx_command sql =
     (if sql = ''BEGIN'' then Some (AutoCommit False False)
      else if sql = ''COMMIT'' then Some (AutoCommit True False)
      else if sql = ''ROLLBACK'' then Some (AutoCommit True True)
      else if prefix ''SAVEPOINT '' sql then map_option (Savepoint SAVEPOINT_BEGIN) (name_token (drop 10 sql))
      else if prefix ''RELEASE SAVEPOINT '' sql then map_option (Savepoint SAVEPOINT_RELEASE) (name_token (drop 18 sql))
      else if prefix ''ROLLBACK TO '' sql then map_option (Savepoint SAVEPOINT_ROLLBACK) (name_token (drop 12 sql))
      else None)"

definition run_tx :: "('d sq_db \<Rightarrow> bool) \<Rightarrow> tx_statement \<Rightarrow> 'd sq_db \<Rightarrow> string option \<times> 'd sq_db" where
  "run_tx commit_busy c = (case c of
       AutoCommit desired rollback \<Rightarrow> OP_AutoCommit commit_busy desired rollback
     | Savepoint op name \<Rightarrow> OP_Savepoint commit_busy op name)"

text \<open>
  \<open>dbExecute\<close> on a handle: these statements as SQLite runs them, every other one as \<open>other\<close> says.
\<close>

definition sqlite_execute ::
  "('d sq_db \<Rightarrow> bool) \<Rightarrow> (string \<Rightarrow> ('d sq_db, i32) act) \<Rightarrow> string \<Rightarrow> ('d sq_db, i32) act" where
  "sqlite_execute commit_busy other sql db = (case tx_command sql of
       None \<Rightarrow> other sql db
     | Some c \<Rightarrow> (case run_tx commit_busy c db of
           (None, db') \<Rightarrow> (Inr 0, db', [])
         | (Some m, db') \<Rightarrow> (Inl (Stop m), db', [])))"

definition sqlite_dbi :: "('d sq_db \<Rightarrow> bool) \<Rightarrow> (string \<Rightarrow> ('d sq_db, i32) act) \<Rightarrow> 'd sq_db dbi" where
  "sqlite_dbi commit_busy other = \<lparr>
     dbExecute = (\<lambda>sql params. sqlite_execute commit_busy other sql),
     dbExecute_caught = (\<lambda>sql params db. case sqlite_execute commit_busy other sql db of
         (_, db', w # _) \<Rightarrow> (Some w, db')
       | (Inl (Stop m), db', []) \<Rightarrow> (Some m, db')
       | (Inl (RError m), db', []) \<Rightarrow> (Some m, db')
       | (_, db', []) \<Rightarrow> (None, db'))\<rparr>"

subsection \<open>The methods\<close>

definition compat_name :: "rstring option \<Rightarrow> rstring option \<Rightarrow> ('s, rstring option) act" where
  "compat_name name dot_name = (case dot_name of
       Some n \<Rightarrow> abind (awarn (''Please use `dbBegin(..., name = '' @ [dquote] @ ''<savepoint>'' @ [dquote] @
           '')` to specify the name of the savepoint.''))
         (\<lambda>_. areturn (Some n))
     | None \<Rightarrow> areturn name)"

definition get_savepoint_id :: "string \<Rightarrow> string \<Rightarrow> string \<Rightarrow> string" where
  "get_savepoint_id name pid random_string = name @ ''_'' @ pid @ ''_'' @ random_string"

text \<open>\<open>dbQuoteIdentifier\<close> of one string, as \<open>paste0\<close> takes it.\<close>

definition quoted_name :: "rstring \<Rightarrow> ('s, string) act" where
  "quoted_name n = abind (alift (lift_res (dbQuoteIdentifier_SQLiteConnection_character (None, [n])))) (\<lambda>(_, qs).
     areturn (case hd qs of RString q \<Rightarrow> q | NA_STRING \<Rightarrow> ''NA''))"

definition dbBegin_SQLiteConnection :: "'s dbi \<Rightarrow> rstring option \<Rightarrow> rstring option \<Rightarrow> ('s, bool) act" where
  "dbBegin_SQLiteConnection D dot_name name =
     abind (compat_name name dot_name) (\<lambda>name.
     abind (case name of
         None \<Rightarrow> dbExecute D ''BEGIN'' None
       | Some n \<Rightarrow> abind (quoted_name n) (\<lambda>q. dbExecute D (''SAVEPOINT '' @ q) None)) (\<lambda>_. areturn True))"

definition dbCommit_SQLiteConnection :: "'s dbi \<Rightarrow> rstring option \<Rightarrow> rstring option \<Rightarrow> ('s, bool) act" where
  "dbCommit_SQLiteConnection D dot_name name =
     abind (compat_name name dot_name) (\<lambda>name.
     abind (case name of
         None \<Rightarrow> dbExecute D ''COMMIT'' None
       | Some n \<Rightarrow> abind (quoted_name n) (\<lambda>q. dbExecute D (''RELEASE SAVEPOINT '' @ q) None)) (\<lambda>_. areturn True))"

definition dbRollback_SQLiteConnection :: "'s dbi \<Rightarrow> rstring option \<Rightarrow> rstring option \<Rightarrow> ('s, bool) act" where
  "dbRollback_SQLiteConnection D dot_name name =
     abind (compat_name name dot_name) (\<lambda>name.
     abind (case name of
         None \<Rightarrow> dbExecute D ''ROLLBACK'' None
       | Some n \<Rightarrow> abind (quoted_name n) (\<lambda>name_quoted.
           abind (dbExecute D (''ROLLBACK TO '' @ name_quoted) None) (\<lambda>_.
             dbExecute D (''RELEASE SAVEPOINT '' @ name_quoted) None))) (\<lambda>_. areturn True))"

text \<open>
  \<open>callNextMethod()\<close> is the method of DBI, the parameter \<open>next_method\<close>; the process and the random
  letters are parameters too.  \<open>on.exit(NULL)\<close> comes before the commit.
\<close>

definition dbAppendTable_SQLiteConnection ::
  "'s dbi \<Rightarrow> string \<Rightarrow> string \<Rightarrow> ('s, 'a) act \<Rightarrow> ('s, 'a) act" where
  "dbAppendTable_SQLiteConnection D pid random_string next_method =
     (let savepoint_id = Some (RString (get_savepoint_id ''dbAppendTable'' pid random_string)) in
      abind (dbBegin_SQLiteConnection D None savepoint_id) (\<lambda>_.
      abind (on_error (dbRollback_SQLiteConnection D None savepoint_id) next_method) (\<lambda>out.
      abind (dbCommit_SQLiteConnection D None savepoint_id) (\<lambda>_. areturn out))))"

subsection \<open>A savepoint and what comes after it\<close>

text \<open>Statements that leave the transaction alone change the content and the deferred violations.\<close>

definition same_tx :: "'d sq_db \<Rightarrow> 'd sq_db \<Rightarrow> bool" where
  "same_tx a b \<longleftrightarrow> b = a\<lparr>content := content b, nDeferredCons := nDeferredCons b, nDeferredImmCons := nDeferredImmCons b\<rparr>"

lemma same_tx_refl [simp]: "same_tx a a"
  by (simp add: same_tx_def)

lemma same_tx_iff:
  "same_tx a b \<longleftrightarrow> autoCommit b = autoCommit a \<and> isTransactionSavepoint b = isTransactionSavepoint a
     \<and> pSavepoint b = pSavepoint a \<and> nSavepoint b = nSavepoint a \<and> nVdbeWrite b = nVdbeWrite a
     \<and> pg_orig b = pg_orig a \<and> aSavepoint b = aSavepoint a"
  by (cases a; cases b) (auto simp: same_tx_def)

lemma same_tx_trans: "same_tx a b \<Longrightarrow> same_tx b c \<Longrightarrow> same_tx a c"
  by (simp add: same_tx_iff)

definition begun :: "string \<Rightarrow> 'd sq_db \<Rightarrow> 'd sq_db" where
  "begun name d = snd (op_savepoint_begin name d)"

text \<open>The state after the release of a savepoint opened in \<open>d\<close>, when it is reached in \<open>c\<close>.\<close>

definition kept :: "'d sq_db \<Rightarrow> 'd sq_db \<Rightarrow> 'd sq_db" where
  "kept d c = (if autoCommit d then d\<lparr>content := content c, pg_orig := content c\<rparr>
     else d\<lparr>content := content c, nDeferredCons := nDeferredCons c, nDeferredImmCons := nDeferredImmCons c\<rparr>)"

definition commits :: "('d sq_db \<Rightarrow> bool) \<Rightarrow> 'd sq_db \<Rightarrow> 'd sq_db \<Rightarrow> bool" where
  "commits commit_busy d c \<longleftrightarrow> \<not> autoCommit d \<or> nDeferredCons c + nDeferredImmCons c = 0 \<and> \<not> commit_busy c"

lemma begin_begun: "nVdbeWrite d = 0 \<Longrightarrow> OP_Savepoint busy SAVEPOINT_BEGIN name d = (None, begun name d)"
  by (simp add: OP_Savepoint_def begun_def op_savepoint_begin_def)

lemma begin_refused: "nVdbeWrite d \<noteq> 0 \<Longrightarrow>
    OP_Savepoint busy SAVEPOINT_BEGIN name d = (Some ''cannot open savepoint - SQL statements in progress'', d)"
  by (simp add: OP_Savepoint_def op_savepoint_begin_def)

lemma begun_open: "nVdbeWrite d = 0 \<Longrightarrow> tx_inv d \<Longrightarrow> tx_inv (begun name d) \<and> \<not> autoCommit (begun name d)
    \<and> nVdbeWrite (begun name d) = 0 \<and> content (begun name d) = content d"
  using begin_refines [of d name "begun name d"]
  by (simp add: begun_def op_savepoint_begin_def Let_def split: if_splits)

lemma tx_inv_auto:
  "tx_inv d \<Longrightarrow> autoCommit d \<Longrightarrow> pSavepoint d = [] \<and> aSavepoint d = [] \<and> nSavepoint d = 0 \<and> \<not> isTransactionSavepoint d
     \<and> nDeferredCons d = 0 \<and> nDeferredImmCons d = 0 \<and> pg_orig d = content d"
  by (auto simp: tx_inv_def)

lemma begun_eq:
  assumes "nVdbeWrite d = 0" "tx_inv d"
  shows "begun name d = (if autoCommit d
      then d\<lparr>autoCommit := False, isTransactionSavepoint := True, pg_orig := content d,
        pSavepoint := [\<lparr>zName = name, sp_nDeferredCons = 0, sp_nDeferredImmCons = 0\<rparr>]\<rparr>
      else d\<lparr>nSavepoint := int (Suc (length (aSavepoint d))), aSavepoint := aSavepoint d @ [content d],
        pSavepoint := \<lparr>zName = name, sp_nDeferredCons = nDeferredCons d, sp_nDeferredImmCons = nDeferredImmCons d\<rparr>
          # pSavepoint d\<rparr>)"
proof (cases "autoCommit d")
  case True
  with tx_inv_auto [OF assms(2)] assms(1) show ?thesis by (simp add: begun_def op_savepoint_begin_def)
qed (use assms in \<open>simp add: begun_def op_savepoint_begin_def tx_inv_def\<close>)

lemma tx_inv_nested: "tx_inv d \<Longrightarrow> \<not> (isTransactionSavepoint d \<and> pSavepoint d = [])"
  by (auto simp: tx_inv_def)

lemma rollback_begun:
  assumes d: "nVdbeWrite d = 0" "tx_inv d" and c: "same_tx (begun name d) c"
  shows "OP_Savepoint busy SAVEPOINT_ROLLBACK name c = (None, begun name d)"
proof -
  obtain x y z where c: "c = (begun name d)\<lparr>content := x, nDeferredCons := y, nDeferredImmCons := z\<rparr>"
    using c unfolding same_tx_def by blast
  show ?thesis
  proof (cases "autoCommit d")
    case True
    with tx_inv_auto [OF d(2)] show ?thesis
      unfolding c begun_eq [OF d] by (simp add: OP_Savepoint_def sqlite3PagerSavepoint_def)
  next
    case False
    have "nat (int (length (aSavepoint d)) + 1) = Suc (length (aSavepoint d))" by simp
    with False show ?thesis
      unfolding c begun_eq [OF d] by (cases d) (simp add: OP_Savepoint_def sqlite3PagerSavepoint_def Let_def)
  qed
qed

lemma release_begun:
  assumes d: "nVdbeWrite d = 0" "tx_inv d" and c: "same_tx (begun name d) c"
  shows "if commits busy d c then OP_Savepoint busy SAVEPOINT_RELEASE name c = (None, kept d c)
    else \<exists>m. OP_Savepoint busy SAVEPOINT_RELEASE name c = (Some m, c)"
proof -
  obtain x y z where c: "c = (begun name d)\<lparr>content := x, nDeferredCons := y, nDeferredImmCons := z\<rparr>"
    using c unfolding same_tx_def by blast
  show ?thesis
  proof (cases "autoCommit d")
    case True
    with tx_inv_auto [OF d(2)] d(1) show ?thesis
      unfolding c begun_eq [OF d]
      by (simp add: OP_Savepoint_def committed_def sqlite3VdbeCheckFkDeferred_def commits_def kept_def)
  next
    case False
    then show ?thesis
      using tx_inv_nested [OF d(2)] d unfolding c begun_eq [OF d]
      by (simp add: OP_Savepoint_def sqlite3PagerSavepoint_def commits_def kept_def tx_inv_def Let_def)
  qed
qed

lemma kept_begun: "nVdbeWrite d = 0 \<Longrightarrow> tx_inv d \<Longrightarrow> kept d (begun name d) = d"
  by (cases d) (auto simp: kept_def begun_def op_savepoint_begin_def tx_inv_def Let_def)

lemma commits_begun: "nVdbeWrite d = 0 \<Longrightarrow> tx_inv d \<Longrightarrow> commits busy d (begun name d) \<longleftrightarrow> \<not> autoCommit d \<or> \<not> busy (begun name d)"
  by (auto simp: commits_def begun_def op_savepoint_begin_def tx_inv_def Let_def)

lemma same_tx_kept: "\<not> autoCommit d \<Longrightarrow> same_tx d (kept d c)"
  by (simp add: same_tx_iff kept_def)

subsection \<open>The statements of the methods\<close>

lemma name_token_quoted [simp]: "name_token (quote_identifier x) = Some x"
  using quote_identifier_token [of "[]" x] quote_identifier_name [of x "[]"]
  by (simp add: name_token_def) (simp add: quote_identifier_def)

lemma tx_command_simps [simp]:
  "tx_command ''BEGIN'' = Some (AutoCommit False False)"
  "tx_command ''COMMIT'' = Some (AutoCommit True False)"
  "tx_command ''ROLLBACK'' = Some (AutoCommit True True)"
  "tx_command (''SAVEPOINT '' @ quote_identifier x) = Some (Savepoint SAVEPOINT_BEGIN x)"
  "tx_command (''RELEASE SAVEPOINT '' @ quote_identifier x) = Some (Savepoint SAVEPOINT_RELEASE x)"
  "tx_command (''ROLLBACK TO '' @ quote_identifier x) = Some (Savepoint SAVEPOINT_ROLLBACK x)"
  by (simp_all add: tx_command_def)

lemma quoted_name_string: "quoted_name (RString x) s = (Inr (quote_identifier x), s, [])"
  using quote_strings [of None "[x]"] by (simp add: quoted_name_def abind_def alift_def areturn_def ret_def)

text \<open>
  A connection whose \<open>dbExecute\<close> runs these statements as SQLite does, on the handle \<open>db\<close> of the state.
\<close>

locale tx_database =
  fixes D :: "'s dbi" and db :: "'s \<Rightarrow> 'd sq_db" and commit_busy :: "'d sq_db \<Rightarrow> bool"
  assumes execute_tx: "tx_command sql = Some c \<Longrightarrow> run_tx commit_busy c (db s) = (r, d) \<Longrightarrow>
    \<exists>x t. dbExecute D sql None s = (x, t, []) \<and> db t = d \<and> (case r of None \<Rightarrow> \<exists>k. x = Inr k | Some m \<Rightarrow> x = Inl (Stop m))"
begin

lemma begin_savepoint:
  assumes "OP_Savepoint commit_busy SAVEPOINT_BEGIN n (db s) = (r, d)"
  shows "\<exists>t. dbBegin_SQLiteConnection D None (Some (RString n)) s =
    ((case r of None \<Rightarrow> Inr True | Some m \<Rightarrow> Inl (Stop m)), t, []) \<and> db t = d"
proof -
  have "run_tx commit_busy (Savepoint SAVEPOINT_BEGIN n) (db s) = (r, d)" using assms by (simp add: run_tx_def)
  from execute_tx [OF tx_command_simps(4) this] obtain x t where
    "dbExecute D (''SAVEPOINT '' @ quote_identifier n) None s = (x, t, [])" "db t = d"
    "case r of None \<Rightarrow> \<exists>k. x = Inr k | Some m \<Rightarrow> x = Inl (Stop m)" by blast
  then show ?thesis
    by (auto simp: dbBegin_SQLiteConnection_def compat_name_def abind_def areturn_def quoted_name_string
        simp del: append_Cons split: option.splits)
qed

lemma commit_savepoint:
  assumes "OP_Savepoint commit_busy SAVEPOINT_RELEASE n (db s) = (r, d)"
  shows "\<exists>t. dbCommit_SQLiteConnection D None (Some (RString n)) s =
    ((case r of None \<Rightarrow> Inr True | Some m \<Rightarrow> Inl (Stop m)), t, []) \<and> db t = d"
proof -
  have "run_tx commit_busy (Savepoint SAVEPOINT_RELEASE n) (db s) = (r, d)" using assms by (simp add: run_tx_def)
  from execute_tx [OF tx_command_simps(5) this] obtain x t where
    "dbExecute D (''RELEASE SAVEPOINT '' @ quote_identifier n) None s = (x, t, [])" "db t = d"
    "case r of None \<Rightarrow> \<exists>k. x = Inr k | Some m \<Rightarrow> x = Inl (Stop m)" by blast
  then show ?thesis
    by (auto simp: dbCommit_SQLiteConnection_def compat_name_def abind_def areturn_def quoted_name_string
        simp del: append_Cons split: option.splits)
qed

lemma rollback_savepoint:
  assumes "OP_Savepoint commit_busy SAVEPOINT_ROLLBACK n (db s) = (None, d)"
    and "OP_Savepoint commit_busy SAVEPOINT_RELEASE n d = (None, d')"
  shows "\<exists>t. dbRollback_SQLiteConnection D None (Some (RString n)) s = (Inr True, t, []) \<and> db t = d'"
proof -
  have "run_tx commit_busy (Savepoint SAVEPOINT_ROLLBACK n) (db s) = (None, d)" using assms(1) by (simp add: run_tx_def)
  from execute_tx [OF tx_command_simps(6) this] obtain k t where
    t: "dbExecute D (''ROLLBACK TO '' @ quote_identifier n) None s = (Inr k, t, [])" "db t = d" by auto
  have "run_tx commit_busy (Savepoint SAVEPOINT_RELEASE n) (db t) = (None, d')" using assms(2) t by (simp add: run_tx_def)
  from execute_tx [OF tx_command_simps(5) this] obtain k' u where
    u: "dbExecute D (''RELEASE SAVEPOINT '' @ quote_identifier n) None t = (Inr k', u, [])" "db u = d'" by auto
  from t u show ?thesis
    by (simp add: dbRollback_SQLiteConnection_def compat_name_def abind_def areturn_def quoted_name_string
        del: append_Cons)
qed

text \<open>From wherever a transaction has got to: back to where the savepoint was opened, and without it.\<close>

lemma rollback_to_begin:
  assumes "nVdbeWrite d = 0" "tx_inv d" "same_tx (begun n d) (db s)" "\<not> autoCommit d \<or> \<not> commit_busy (begun n d)"
  shows "\<exists>t. dbRollback_SQLiteConnection D None (Some (RString n)) s = (Inr True, t, []) \<and> db t = d"
proof -
  have "commits commit_busy d (begun n d)" using commits_begun [OF assms(1,2), of commit_busy n] assms(4) by blast
  then have "OP_Savepoint commit_busy SAVEPOINT_RELEASE n (begun n d) = (None, d)"
    using release_begun [OF assms(1,2) same_tx_refl, where name = n and busy = commit_busy] kept_begun [OF assms(1,2)] by metis
  from rollback_savepoint [OF rollback_begun [OF assms(1-3)] this] show ?thesis .
qed

lemma commit_begun:
  assumes "nVdbeWrite d = 0" "tx_inv d" "same_tx (begun n d) (db s)"
  shows "if commits commit_busy d (db s)
    then \<exists>t. dbCommit_SQLiteConnection D None (Some (RString n)) s = (Inr True, t, []) \<and> db t = kept d (db s)
    else \<exists>t m. dbCommit_SQLiteConnection D None (Some (RString n)) s = (Inl (Stop m), t, []) \<and> db t = db s"
  using release_begun [OF assms, of commit_busy] commit_savepoint [of n s]
  by (auto split: if_splits)

end

interpretation sq: tx_database "sqlite_dbi commit_busy other" "\<lambda>d. d" commit_busy
  by unfold_locales (auto simp: sqlite_dbi_def sqlite_execute_def split: option.split)

text \<open>An action that, inside a transaction, leaves it alone, also when it fails.\<close>

definition keeps_tx :: "('s \<Rightarrow> 'd sq_db) \<Rightarrow> ('s, 'a) act \<Rightarrow> bool" where
  "keeps_tx db m \<longleftrightarrow> (\<forall>s x t ws. tx_inv (db s) \<longrightarrow> \<not> autoCommit (db s) \<longrightarrow> m s = (x, t, ws) \<longrightarrow>
     \<not> undefined_behaviour x \<longrightarrow> same_tx (db s) (db t))"

lemma keeps_txI:
  "(\<And>s x t ws. tx_inv (db s) \<Longrightarrow> \<not> autoCommit (db s) \<Longrightarrow> m s = (x, t, ws) \<Longrightarrow> \<not> undefined_behaviour x \<Longrightarrow>
     same_tx (db s) (db t)) \<Longrightarrow> keeps_tx db m"
  unfolding keeps_tx_def by blast

lemma keeps_txD:
  "keeps_tx db m \<Longrightarrow> m s = (x, t, ws) \<Longrightarrow> \<not> undefined_behaviour x \<Longrightarrow> tx_inv (db s) \<Longrightarrow> \<not> autoCommit (db s) \<Longrightarrow>
     same_tx (db s) (db t)"
  unfolding keeps_tx_def by blast

lemma same_tx_inv: "same_tx a b \<Longrightarrow> tx_inv a \<Longrightarrow> \<not> autoCommit a \<Longrightarrow> tx_inv b \<and> \<not> autoCommit b"
  by (simp add: same_tx_iff tx_inv_def)

lemma keeps_tx_return [intro]: "keeps_tx db (areturn x)" "keeps_tx db (athrow e)" "keeps_tx db (alift m)"
  by (auto simp: keeps_tx_def areturn_def athrow_def alift_def split: sum.splits)

lemma keeps_tx_bind:
  assumes "keeps_tx db m" "\<And>x. keeps_tx db (f x)"
  shows "keeps_tx db (abind m f)"
proof (rule keeps_txI)
  fix s z t ws
  assume s: "tx_inv (db s)" "\<not> autoCommit (db s)" and run: "abind m f s = (z, t, ws)" "\<not> undefined_behaviour z"
  obtain y u ws1 where y: "m s = (y, u, ws1)" by (metis prod.exhaust)
  show "same_tx (db s) (db t)"
  proof (cases y)
    case (Inl e)
    with run y keeps_txD [OF assms(1) y _ s] show ?thesis by (auto simp: abind_def)
  next
    case (Inr x)
    then have u: "same_tx (db s) (db u)" using keeps_txD [OF assms(1) y _ s] by simp
    obtain z' t' ws2 where "f x u = (z', t', ws2)" by (metis prod.exhaust)
    with run y Inr have "f x u = (z, t, ws2)" by (simp add: abind_def)
    from keeps_txD [OF assms(2) this run(2)] same_tx_inv [OF u s] u show ?thesis by (blast intro: same_tx_trans)
  qed
qed

text \<open>The commit of a transaction that has changed nothing does not find the database locked.\<close>

definition unlocked :: "('d sq_db \<Rightarrow> bool) \<Rightarrow> 'd sq_db \<Rightarrow> bool" where
  "unlocked commit_busy d \<longleftrightarrow> (autoCommit d \<longrightarrow> (\<forall>d'. content d' = content d \<longrightarrow> \<not> commit_busy d'))"

subsection \<open>dbAppendTable\<close>

context tx_database
begin

lemma append_table:
  fixes next_method :: "('s, 'a) act" and pid random_string :: string
  defines "sid \<equiv> get_savepoint_id ''dbAppendTable'' pid random_string"
  assumes inv: "tx_inv (db s)"
    and keeps: "keeps_tx db next_method" and free: "unlocked commit_busy (db s)"
    and run: "dbAppendTable_SQLiteConnection D pid random_string next_method s = (x, t, ws)" "\<not> undefined_behaviour x"
  shows "case x of
      Inr out \<Rightarrow> \<exists>s1 s2 ws. db s1 = begun sid (db s) \<and> next_method s1 = (Inr out, s2, ws) \<and> db t = kept (db s) (db s2)
    | Inl e \<Rightarrow> db t = db s \<or> (\<exists>s1 s2 out ws. db s1 = begun sid (db s) \<and> next_method s1 = (Inr out, s2, ws)
        \<and> \<not> commits commit_busy (db s) (db s2) \<and> db t = db s2)"
proof (cases "nVdbeWrite (db s) = 0")
  case False
  from begin_savepoint [OF begin_refused [OF False], of sid] run(1) show ?thesis
    by (auto simp: dbAppendTable_SQLiteConnection_def Let_def abind_def sid_def)
next
  case w: True
  obtain s1 where s1: "dbBegin_SQLiteConnection D None (Some (RString sid)) s = (Inr True, s1, [])" "db s1 = begun sid (db s)"
    using begin_savepoint [OF begin_begun [OF w]] by fastforce
  obtain y s2 ws2 where s2: "next_method s1 = (y, s2, ws2)" by (metis prod.exhaust)
  show ?thesis
  proof (cases "undefined_behaviour y")
    case True
    with s1 s2 run show ?thesis
      by (auto simp: dbAppendTable_SQLiteConnection_def Let_def abind_def on_error_def sid_def split: sum.splits)
  next
    case False
    from keeps_txD [OF keeps s2 this] s1(2) begun_open [OF w inv, of sid] have c: "same_tx (begun sid (db s)) (db s2)" by simp
    show ?thesis
    proof (cases y)
      case (Inl e)
      have "\<not> autoCommit (db s) \<or> \<not> commit_busy (begun sid (db s))" using free begun_open [OF w inv, of sid] by (auto simp: unlocked_def)
      from rollback_to_begin [OF w inv c this] Inl False s1 s2 run(1) show ?thesis
        by (auto simp: dbAppendTable_SQLiteConnection_def Let_def abind_def on_error_def sid_def)
    next
      case (Inr out)
      from commit_begun [OF w inv c] Inr s1 s2 run(1) show ?thesis
        by (fastforce simp: dbAppendTable_SQLiteConnection_def Let_def abind_def on_error_def areturn_def sid_def
            split: if_splits)
    qed
  qed
qed

end


text \<open>Methods that insert something: one then fails, one leaves a violated foreign key.\<close>

definition failing_append :: "nat sq_db \<Rightarrow> unit res \<times> nat sq_db \<times> string list" where
  "failing_append d = (Inl (Stop ''UNIQUE constraint failed''), d\<lparr>content := 2\<rparr>, [])"

definition violating_append :: "nat sq_db \<Rightarrow> unit res \<times> nat sq_db \<times> string list" where
  "violating_append d = (Inr (), d\<lparr>content := 2, nDeferredCons := 1\<rparr>, [])"

definition example_dbi :: "'d sq_db dbi" where
  "example_dbi = sqlite_dbi (\<lambda>_. False) (\<lambda>_ d. (Inr 0, d, []))"

lemmas savepoint_eval = dbBegin_SQLiteConnection_def dbCommit_SQLiteConnection_def dbRollback_SQLiteConnection_def
  compat_name_def quoted_name_string sqlite_dbi_def sqlite_execute_def run_tx_def OP_Savepoint_def op_savepoint_begin_def
  sqlite3PagerSavepoint_def sqlite3VdbeCheckFkDeferred_def committed_def abind_def on_error_def areturn_def Let_def

lemma append_example:
  "fst (dbAppendTable_SQLiteConnection example_dbi ''1'' ''a'' failing_append (fresh_db 1)) = Inl (Stop ''UNIQUE constraint failed'')"
  "fst (dbAppendTable_SQLiteConnection example_dbi ''1'' ''a'' violating_append (fresh_db 1)) = Inl (Stop ''FOREIGN KEY constraint failed'')"
  "content (fst (snd (dbAppendTable_SQLiteConnection example_dbi ''1'' ''a'' violating_append (fresh_db 1)))) = 2"
  by (simp_all add: dbAppendTable_SQLiteConnection_def failing_append_def violating_append_def example_dbi_def
      get_savepoint_id_def fresh_db_def savepoint_eval del: append_Cons)

lemma fresh_db_inv: "tx_inv (fresh_db d)"
  by (simp add: tx_inv_def fresh_db_def)


end
