(* ===== verification/Tables.thy ===== *)
theory Tables
  imports Transactions
begin

text \<open>
  Writing tables: \<open>dbWriteTable\<close> for data frames and for files, \<open>dbRemoveTable\<close>, and what they need of
  \<open>table.R\<close>, \<open>coerce.R\<close>, \<open>compatRowNames.R\<close> and \<open>dbDataType\<close>.

  Parameters, in the record \<open>table_methods\<close>: \<open>dbExecute\<close>, the generic functions \<open>dbExistsTable\<close>,
  \<open>dbCreateTable\<close> and \<open>dbListFields\<close>, the method of DBI that \<open>dbAppendTable\<close> continues with,
  \<open>sqlRownamesToColumn\<close>, \<open>sqlCreateTable\<close>, \<open>read.table\<close>, \<open>path.expand\<close>, the import of a file, the
  conversion of factors, \<open>tolower\<close>, and the process and random letters in the names of savepoints.
\<close>

subsection \<open>Data\<close>

text \<open>A data frame: its columns with their names, and the number of its rows.\<close>

record r_frame =
  fr_names :: "string list"
  fr_columns :: "robj list"
  fr_nrow :: nat

datatype row_names = RowNull | RowLogical "bool option list" | RowNumbers "r_number list" | RowStrings "rstring list"
  | RowOther

text \<open>An argument that should be a logical.\<close>

datatype r_flag = Flags "bool option list" | NotLogical

text \<open>The argument \<open>field.types\<close>, with its names unless they are NULL.\<close>

datatype field_types = FieldNull | FieldTypes "string list option" "string list" | FieldOther

record 's table_methods =
  tm_dbi :: "'s dbi"
  tm_dbExistsTable :: "string \<Rightarrow> ('s, bool) act"
  tm_dbCreateTable :: "string \<Rightarrow> (string \<times> string) list \<Rightarrow> bool option \<Rightarrow> ('s, unit) act"
  tm_dbListFields :: "string \<Rightarrow> ('s, string list) act"
  tm_dbAppendTable_next :: "string \<Rightarrow> r_frame \<Rightarrow> ('s, i32) act"
  tm_sqlRownamesToColumn :: "r_frame \<Rightarrow> row_names \<Rightarrow> r_frame res"
  tm_sqlCreateTable :: "string \<Rightarrow> (r_frame + (string \<times> string) list) \<Rightarrow> bool option \<Rightarrow> string res"
  tm_read_table :: "string \<Rightarrow> string \<Rightarrow> bool \<Rightarrow> int \<Rightarrow> int \<Rightarrow> r_frame res"
  tm_path_expand :: "string \<Rightarrow> string"
  tm_import_file :: "string \<Rightarrow> string \<Rightarrow> string \<Rightarrow> string \<Rightarrow> int \<Rightarrow> ('s, bool) act"
  tm_factor_as_character :: "robj \<Rightarrow> robj"
  tm_tolower :: "string \<Rightarrow> string"
  tm_extended_types :: bool
  tm_pid :: string
  tm_random_string :: "nat \<Rightarrow> string"

text \<open>\<open>warning_once\<close>, when it is called for the first time.\<close>

definition compatRowNames :: "row_names \<Rightarrow> row_names eff" where
  "compatRowNames row_names = (case row_names of
       RowNull \<Rightarrow> ret (RowLogical [Some False])
     | RowNumbers ns \<Rightarrow>
         ebind (warning (''RSQLite: Passing numeric values to row.names is deprecated. '' @
             ''Pass a logical or a column name.''))
           (\<lambda>_. ret (RowLogical (map (\<lambda>n. case n of NumNA \<Rightarrow> None | NumWhole k \<Rightarrow> Some (k \<noteq> 0) | _ \<Rightarrow> Some True) ns)))
     | _ \<Rightarrow> ret row_names)"

subsection \<open>Coercion\<close>

definition is_factor :: "robj \<Rightarrow> bool" where
  "is_factor x \<longleftrightarrow> ''factor'' \<in> set (rclass x)"

text \<open>\<open>as.character\<close> of bytes: two digits for each.\<close>

definition hex_char :: "nat \<Rightarrow> char" where
  "hex_char n = ''0123456789abcdef'' ! n"

definition byte_text :: "byte \<Rightarrow> string" where
  "byte_text b = [hex_char (unat b div 16), hex_char (unat b mod 16)]"

definition raw_as_character :: "robj \<Rightarrow> robj" where
  "raw_as_character x = (case rdata x of
       RawSXP bs \<Rightarrow> plain (StrSXP (map (\<lambda>b. RString (byte_text (case b of Some b \<Rightarrow> b | None \<Rightarrow> 0))) bs))
     | _ \<Rightarrow> x)"

definition raw_to_string :: "r_frame \<Rightarrow> r_frame eff" where
  "raw_to_string value =
     (let is_raw = (\<lambda>x. TYPEOF (rdata x) = RAWSXP) in
      ebind (if list_ex is_raw (fr_columns value)
             then warning ''Creating a TEXT column from raw, use lists of raw to create BLOB columns'' else ret ())
        (\<lambda>_. ret (value\<lparr>fr_columns := map (\<lambda>x. if is_raw x then raw_as_character x else x) (fr_columns value)\<rparr>)))"

text \<open>\<open>factor_to_string\<close> does not warn here; \<open>string_to_utf8\<close> changes nothing.\<close>

definition sql_data :: "'s table_methods \<Rightarrow> r_frame \<Rightarrow> row_names \<Rightarrow> r_frame eff" where
  "sql_data M value row_names =
     ebind (compatRowNames row_names) (\<lambda>row_names.
     ebind (lift_res (tm_sqlRownamesToColumn M value row_names)) (\<lambda>value.
       raw_to_string (value\<lparr>fr_columns :=
         map (\<lambda>x. if is_factor x then tm_factor_as_character M x else x) (fr_columns value)\<rparr>)))"

subsection \<open>Types and names of columns\<close>

text \<open>The type of a column; for a whole data frame the method of DBI calls this for each of its columns.\<close>

definition dbDataType_SQLiteDriver :: "bool \<Rightarrow> robj \<Rightarrow> string res" where
  "dbDataType_SQLiteDriver extended_types obj =
     (let is = (\<lambda>c. c \<in> set (rclass obj)) in
      if is_factor obj then Inr ''TEXT''
      else if is ''integer64'' then Inr ''INTEGER''
      else if extended_types \<and> is ''Date'' then Inr ''DATE''
      else if extended_types \<and> is ''POSIXct'' then Inr ''TIMESTAMP''
      else if extended_types \<and> is ''hms'' then Inr ''TIME''
      else case TYPEOF (rdata obj) of
          INTSXP \<Rightarrow> Inr ''INTEGER''
        | REALSXP \<Rightarrow> Inr ''REAL''
        | STRSXP \<Rightarrow> Inr ''TEXT''
        | LGLSXP \<Rightarrow> Inr ''INTEGER''
        | VECSXP \<Rightarrow> Inr ''BLOB''
        | RAWSXP \<Rightarrow> Inr ''TEXT''
        | NILSXP \<Rightarrow> Inl (Stop ''Unsupported type''))"

text \<open>\<open>unique\<close>, in the order of the first occurrences.\<close>

definition r_unique :: "string list \<Rightarrow> string list" where
  "r_unique xs = rev (remdups (rev xs))"

definition setdiff :: "string list \<Rightarrow> string list \<Rightarrow> string list" where
  "setdiff xs ys = r_unique (filter (\<lambda>x. x \<notin> set ys) xs)"

text \<open>The names of the value that is returned.\<close>

definition match_col :: "(string \<Rightarrow> string) \<Rightarrow> string list \<Rightarrow> string list \<Rightarrow> string list eff" where
  "match_col tolower names col_names =
     (if length col_names = length names \<and> names \<noteq> col_names \<and> map tolower names = map tolower col_names
      then ebind (warning ''Column names will be matched ignoring character case'') (\<lambda>_. ret col_names)
      else if \<not> set names \<subseteq> set col_names
      then Inl (Stop (''Columns '' @ comma_separated (map (\<lambda>n. [bquote] @ n @ [bquote]) (setdiff names col_names)) @
        '' not found''))
      else ret names)"

text \<open>The columns of these names, each the first one of its name.\<close>

definition column_named :: "r_frame \<Rightarrow> string \<Rightarrow> robj" where
  "column_named data n = fr_columns data ! the (r_match n (fr_names data))"

definition db_data_types :: "bool \<Rightarrow> r_frame \<Rightarrow> string list \<Rightarrow> (string \<times> string) list res" where
  "db_data_types extended_types data names =
     foldr (\<lambda>n types. rbind (dbDataType_SQLiteDriver extended_types (column_named data n)) (\<lambda>t.
       rbind types (\<lambda>ts. Inr ((n, t) # ts)))) names (Inr [])"

text \<open>The result of \<open>match_col\<close> is not used.\<close>

definition field_def ::
  "'s table_methods \<Rightarrow> r_frame \<Rightarrow> (string \<times> string) list \<Rightarrow> (string \<times> string) list eff" where
  "field_def M data field_types =
     ebind (match_col (tm_tolower M) (map fst field_types) (fr_names data)) (\<lambda>new_field_types.
     ebind (lift_res (db_data_types (tm_extended_types M) data (setdiff (fr_names data) (map fst field_types)))) (\<lambda>auto_field_types.
       ret (map (\<lambda>n. (n, the (map_of (field_types @ auto_field_types) n))) (fr_names data))))"

subsection \<open>dbRemoveTable\<close>

definition dbRemoveTable_SQLiteConnection_character :: "'s dbi \<Rightarrow> string \<Rightarrow> bool \<Rightarrow> bool \<Rightarrow> ('s, bool) act" where
  "dbRemoveTable_SQLiteConnection_character D name temporary fail_if_missing =
     abind (quoted_name (RString name)) (\<lambda>name.
       let extra = (if fail_if_missing then [] else ''IF EXISTS ''); extra = (if temporary then extra @ ''temp.'' else extra) in
       abind (dbExecute D (''DROP TABLE '' @ extra @ name) None) (\<lambda>_. areturn True))"

subsection \<open>dbWriteTable for a data frame\<close>

record write_args =
  wa_row_names :: row_names
  wa_overwrite :: r_flag
  wa_append :: r_flag
  wa_field_types :: field_types
  wa_temporary :: r_flag

definition scalar_row_names :: "row_names \<Rightarrow> bool" where
  "scalar_row_names rn \<longleftrightarrow> (case rn of RowLogical [_] \<Rightarrow> True | RowStrings [_] \<Rightarrow> True | _ \<Rightarrow> False)"

definition named_types :: "field_types \<Rightarrow> (string \<times> string) list option" where
  "named_types ft = (case ft of
       FieldNull \<Rightarrow> Some []
     | FieldTypes (Some names) types \<Rightarrow> if distinct names then Some (zip names types) else None
     | _ \<Rightarrow> None)"

text \<open>The checks: row names, \<open>overwrite\<close>, \<open>append\<close>, \<open>temporary\<close> and the types of the fields.\<close>

definition check_write_args ::
  "write_args \<Rightarrow> (row_names \<times> bool \<times> bool \<times> bool option \<times> (string \<times> string) list) eff" where
  "check_write_args args =
     ebind (compatRowNames (wa_row_names args)) (\<lambda>row_names. lift_res (
       if \<not> scalar_row_names row_names then Inl (Stop ''`row.names` must be a logical scalar or a string'')
       else case wa_overwrite args of Flags [Some overwrite] \<Rightarrow>
         (case wa_append args of Flags [Some app] \<Rightarrow>
           (case wa_temporary args of Flags [temporary] \<Rightarrow>
             if overwrite \<and> app then Inl (Stop ''overwrite and append cannot both be TRUE'')
             else (case named_types (wa_field_types args) of
                 None \<Rightarrow> Inl (Stop ''`field.types` must be a named character vector with unique names, or NULL'')
               | Some field_types \<Rightarrow>
                   if app \<and> wa_field_types args \<noteq> FieldNull
                   then Inl (Stop ''Cannot specify `field.types` with `append = TRUE`'')
                   else Inr (row_names, overwrite, app, temporary, field_types))
           | _ \<Rightarrow> Inl (Stop ''`temporary` must be a logical scalar''))
         | _ \<Rightarrow> Inl (Stop ''`append` must be a logical scalar''))
       | _ \<Rightarrow> Inl (Stop ''`overwrite` must be a logical scalar'')))"

definition table_exists_error :: "string \<Rightarrow> r_error" where
  "table_exists_error name =
     Stop (''Table '' @ name @ '' exists in database, and both overwrite and append are FALSE'')"

text \<open>The columns under the names they have in the table.\<close>

definition match_frame :: "'s table_methods \<Rightarrow> r_frame \<Rightarrow> string list \<Rightarrow> r_frame eff" where
  "match_frame M value col_names =
     ebind (match_col (tm_tolower M) (fr_names value) col_names) (\<lambda>names. ret (value\<lparr>fr_names := names\<rparr>))"

text \<open>
  What is done inside the savepoint, up to the commit.  The names of the savepoints take the first
  and the second random letters.
\<close>

definition write_table_steps ::
  "'s table_methods \<Rightarrow> string \<Rightarrow> r_frame \<Rightarrow> row_names \<times> bool \<times> bool \<times> bool option \<times> (string \<times> string) list \<Rightarrow> ('s, unit) act" where
  "write_table_steps M name value = (\<lambda>(row_names, overwrite, app, temporary, field_types).
     abind (tm_dbExistsTable M name) (\<lambda>found.
     if found \<and> \<not> overwrite \<and> \<not> app then athrow (table_exists_error name)
     else
       abind (if found \<and> overwrite then dbRemoveTable_SQLiteConnection_character (tm_dbi M) name False True
              else areturn True) (\<lambda>_.
       abind (alift (sql_data M value row_names)) (\<lambda>value.
       abind (if \<not> found \<or> overwrite
              then abind (alift (field_def M value field_types)) (\<lambda>fields.
                abind (tm_dbCreateTable M name fields temporary) (\<lambda>_. areturn value))
              else if app
              then abind (tm_dbListFields M name) (\<lambda>col_names. alift (match_frame M value col_names))
              else areturn value) (\<lambda>value.
         if fr_nrow value > 0
         then abind (dbAppendTable_SQLiteConnection (tm_dbi M) (tm_pid M) (tm_random_string M 1)
                (tm_dbAppendTable_next M name value)) (\<lambda>_. areturn ())
         else areturn ())))))"

definition dbWriteTable_SQLiteConnection_character_data_frame ::
  "'s table_methods \<Rightarrow> string \<Rightarrow> r_frame \<Rightarrow> write_args \<Rightarrow> ('s, bool) act" where
  "dbWriteTable_SQLiteConnection_character_data_frame M name value args =
     abind (alift (check_write_args args)) (\<lambda>checked.
       let savepoint_id = Some (RString (get_savepoint_id ''dbWriteTable'' (tm_pid M) (tm_random_string M 0))) in
       abind (dbBegin_SQLiteConnection (tm_dbi M) None savepoint_id) (\<lambda>_.
       on_error (dbRollback_SQLiteConnection (tm_dbi M) None savepoint_id)
         (abind (write_table_steps M name value checked) (\<lambda>_.
           dbCommit_SQLiteConnection (tm_dbi M) None savepoint_id))))"

subsection \<open>dbWriteTable for a file\<close>

record file_args =
  fa_field_types :: "(string \<times> string) list option"
  fa_overwrite :: bool
  fa_append :: bool
  fa_header :: bool
  fa_nrows :: int
  fa_sep :: string
  fa_eol :: string
  fa_skip :: int
  fa_temporary :: "bool option"

text \<open>\<open>sqlCreateTable\<close> of the fields, and its statement.\<close>

definition create_from :: "'s table_methods \<Rightarrow> string \<Rightarrow> bool option \<Rightarrow> r_frame + (string \<times> string) list \<Rightarrow> ('s, unit) act" where
  "create_from M name temporary columns =
     abind (alift (lift_res (tm_sqlCreateTable M name columns temporary))) (\<lambda>sql.
     abind (dbExecute (tm_dbi M) sql None) (\<lambda>_. areturn ()))"

definition write_file_steps :: "'s table_methods \<Rightarrow> string \<Rightarrow> string \<Rightarrow> file_args \<Rightarrow> ('s, unit) act" where
  "write_file_steps M name file args =
     abind (tm_dbExistsTable M name) (\<lambda>found.
     if found \<and> \<not> fa_overwrite args \<and> \<not> fa_append args then athrow (table_exists_error name)
     else
       abind (if found \<and> fa_overwrite args then dbRemoveTable_SQLiteConnection_character (tm_dbi M) name False True
              else areturn True) (\<lambda>_.
       abind (if \<not> found \<or> fa_overwrite args
              then
                abind (case fa_field_types args of
                    None \<Rightarrow> alift (lift_res (rbind
                        (tm_read_table M file (fa_sep args) (fa_header args) (fa_skip args) (fa_nrows args)) (\<lambda>fr. Inr (Inl fr))))
                  | Some types \<Rightarrow> areturn (Inr types)) (create_from M name (fa_temporary args))
              else areturn ()) (\<lambda>_.
       abind (tm_import_file M name file (fa_sep args) (fa_eol args) (fa_skip args + of_bool (fa_header args))) (\<lambda>_.
         areturn ()))))"

definition dbWriteTable_SQLiteConnection_character_character ::
  "'s table_methods \<Rightarrow> string \<Rightarrow> string \<Rightarrow> row_names \<Rightarrow> file_args \<Rightarrow> ('s, bool) act" where
  "dbWriteTable_SQLiteConnection_character_character M name value row_names args =
     (if fa_overwrite args \<and> fa_append args then athrow (Stop ''overwrite and append cannot both be TRUE'')
      else
        let value = tm_path_expand M value;
            savepoint_id = Some (RString (get_savepoint_id ''dbWriteTable'' (tm_pid M) (tm_random_string M 0))) in
        abind (alift (compatRowNames row_names)) (\<lambda>_.
        abind (dbBegin_SQLiteConnection (tm_dbi M) None savepoint_id) (\<lambda>_.
        on_error (dbRollback_SQLiteConnection (tm_dbi M) None savepoint_id)
          (abind (write_file_steps M name value args) (\<lambda>_.
            dbCommit_SQLiteConnection (tm_dbi M) None savepoint_id)))))"

subsection \<open>What the methods keep\<close>

text \<open>
  A statement that fails may take the transaction with it: after an error such as a full disk, and
  where a conflict clause says so, \<open>sqlite3VdbeHalt\<close> rolls everything back and is in autocommit mode.
\<close>

definition rolled_back :: "'d sq_db \<Rightarrow> 'd sq_db" where
  "rolled_back db = (sqlite3CloseSavepoints (sqlite3RollbackAll db))\<lparr>autoCommit := True\<rparr>"

text \<open>
  An action that, inside a transaction, leaves it alone, also when it fails, or else fails and has
  rolled it back.
\<close>

definition keeps_or_rolls_back :: "('s \<Rightarrow> 'd sq_db) \<Rightarrow> ('s, 'a) act \<Rightarrow> bool" where
  "keeps_or_rolls_back db m \<longleftrightarrow> (\<forall>s x t ws. tx_inv (db s) \<longrightarrow> \<not> autoCommit (db s) \<longrightarrow> m s = (x, t, ws) \<longrightarrow>
     \<not> undefined_behaviour x \<longrightarrow> same_tx (db s) (db t) \<or> isl x \<and> db t = rolled_back (db s))"

text \<open>
  What is assumed of the methods called inside the savepoint: of \<open>dbExecute\<close>, that SQLite's
  \<open>DROP TABLE\<close> and \<open>CREATE\<close> statements, which are all that is sent here, do not begin or end a
  transaction, except that they may fail and roll it back; the same of the other methods; and that
  what \<open>sqlCreateTable\<close> makes is a \<open>CREATE\<close> statement.
\<close>

definition methods_keep_tx :: "('s \<Rightarrow> 'd sq_db) \<Rightarrow> 's table_methods \<Rightarrow> bool" where
  "methods_keep_tx db M \<longleftrightarrow>
     (\<forall>sql. prefix ''DROP TABLE '' sql \<or> prefix ''CREATE'' sql \<longrightarrow> keeps_or_rolls_back db (dbExecute (tm_dbi M) sql None))
     \<and> (\<forall>name. keeps_or_rolls_back db (tm_dbExistsTable M name) \<and> keeps_or_rolls_back db (tm_dbListFields M name))
     \<and> (\<forall>name columns temporary. keeps_or_rolls_back db (tm_dbCreateTable M name columns temporary))
     \<and> (\<forall>name value. keeps_or_rolls_back db (tm_dbAppendTable_next M name value))
     \<and> (\<forall>name file sep eol skip. keeps_or_rolls_back db (tm_import_file M name file sep eol skip))
     \<and> (\<forall>name columns temporary sql. tm_sqlCreateTable M name columns temporary = Inr sql \<longrightarrow> prefix ''CREATE'' sql)"

lemma keeps_orI:
  "(\<And>s x t ws. tx_inv (db s) \<Longrightarrow> \<not> autoCommit (db s) \<Longrightarrow> m s = (x, t, ws) \<Longrightarrow> \<not> undefined_behaviour x \<Longrightarrow>
     same_tx (db s) (db t) \<or> isl x \<and> db t = rolled_back (db s)) \<Longrightarrow> keeps_or_rolls_back db m"
  unfolding keeps_or_rolls_back_def by blast

lemma keeps_orD:
  "keeps_or_rolls_back db m \<Longrightarrow> m s = (x, t, ws) \<Longrightarrow> \<not> undefined_behaviour x \<Longrightarrow> tx_inv (db s) \<Longrightarrow> \<not> autoCommit (db s) \<Longrightarrow>
     same_tx (db s) (db t) \<or> isl x \<and> db t = rolled_back (db s)"
  unfolding keeps_or_rolls_back_def by blast

lemma keeps_tx_or: "keeps_tx db m \<Longrightarrow> keeps_or_rolls_back db m"
  unfolding keeps_tx_def keeps_or_rolls_back_def by blast

lemma keeps_or_return [intro]:
  "keeps_or_rolls_back db (areturn x)" "keeps_or_rolls_back db (athrow e)" "keeps_or_rolls_back db (alift m)"
  by (auto intro: keeps_tx_or)

lemma rolled_back_same: "same_tx a b \<Longrightarrow> rolled_back b = rolled_back a"
  by (cases a; cases b) (auto simp: same_tx_def rolled_back_def sqlite3CloseSavepoints_def sqlite3RollbackAll_def)

lemma rolled_back_begun:
  assumes "nVdbeWrite d = 0" "tx_inv d"
  shows "rolled_back (begun n d) = (if autoCommit d then d else rolled_back d)"
  using assms
  by (cases d) (auto simp: begun_eq rolled_back_def sqlite3CloseSavepoints_def sqlite3RollbackAll_def tx_inv_def)

lemma keeps_or_bind:
  assumes "keeps_or_rolls_back db m" "\<And>x. keeps_or_rolls_back db (f x)"
  shows "keeps_or_rolls_back db (abind m f)"
proof (rule keeps_orI)
  fix s z t ws
  assume s: "tx_inv (db s)" "\<not> autoCommit (db s)" and run: "abind m f s = (z, t, ws)" "\<not> undefined_behaviour z"
  obtain y u ws1 where y: "m s = (y, u, ws1)" by (metis prod.exhaust)
  show "same_tx (db s) (db t) \<or> isl z \<and> db t = rolled_back (db s)"
  proof (cases y)
    case (Inl e)
    with run y keeps_orD [OF assms(1) y _ s] show ?thesis by (auto simp: abind_def)
  next
    case (Inr x)
    then have u: "same_tx (db s) (db u)" using keeps_orD [OF assms(1) y _ s] by simp
    obtain z' t' ws2 where "f x u = (z', t', ws2)" by (metis prod.exhaust)
    with run y Inr have "f x u = (z, t, ws2)" by (simp add: abind_def)
    from keeps_orD [OF assms(2) this run(2)] same_tx_inv [OF u s] u show ?thesis
      by (auto simp: rolled_back_same intro: same_tx_trans)
  qed
qed

lemma abind_eq_run: "abind (alift m) f s = (case m of Inl e \<Rightarrow> (Inl e, s, []) | Inr (x, ws) \<Rightarrow> (case f x s of (y, t, ws') \<Rightarrow> (y, t, ws @ ws')))"
  by (auto simp: abind_def alift_def split: sum.split prod.split)

lemma abind_alift_Inr: "abind (alift (lift_res (Inr x))) f = f x"
  by (rule ext) (simp add: abind_def alift_def ret_def split: prod.split)

lemma remove_table_keeps:
  assumes "methods_keep_tx db M"
  shows "keeps_or_rolls_back db (dbRemoveTable_SQLiteConnection_character (tm_dbi M) name temporary fail_if_missing)"
proof -
  have "keeps_or_rolls_back db (dbExecute (tm_dbi M) (''DROP TABLE '' @ sql) None)" for sql
    using assms by (simp add: methods_keep_tx_def del: append_Cons)
  then show ?thesis
    by (auto simp: dbRemoveTable_SQLiteConnection_character_def quoted_name_def Let_def simp del: append_Cons
        intro!: keeps_or_bind split: prod.split)
qed

context tx_database
begin

text \<open>Nothing is left to go back to when the transaction was rolled back.\<close>

lemma rollback_gone:
  assumes "db s = rolled_back d"
  shows "\<exists>m t. dbRollback_SQLiteConnection D None (Some (RString n)) s = (Inl (Stop m), t, []) \<and> db t = db s"
proof -
  have "run_tx commit_busy (Savepoint SAVEPOINT_ROLLBACK n) (db s) = (Some (''no such savepoint: '' @ n), db s)"
    unfolding assms by (simp add: run_tx_def OP_Savepoint_def rolled_back_def sqlite3CloseSavepoints_def)
  from execute_tx [OF tx_command_simps(6) this] show ?thesis
    by (auto simp: dbRollback_SQLiteConnection_def compat_name_def abind_def areturn_def quoted_name_string
        simp del: append_Cons)
qed

text \<open>Inside a transaction, \<open>dbAppendTable\<close> leaves the savepoints as they were, or all is rolled back.\<close>

lemma append_table_nested:
  assumes "keeps_or_rolls_back db next_method"
  shows "keeps_or_rolls_back db (dbAppendTable_SQLiteConnection D pid random_string next_method)"
proof (rule keeps_orI)
  let ?n = "get_savepoint_id ''dbAppendTable'' pid random_string"
  fix s x t ws
  assume inv: "tx_inv (db s)" "\<not> autoCommit (db s)" and
    run: "dbAppendTable_SQLiteConnection D pid random_string next_method s = (x, t, ws)" "\<not> undefined_behaviour x"
  note run = run [unfolded dbAppendTable_SQLiteConnection_def Let_def]
  show "same_tx (db s) (db t) \<or> isl x \<and> db t = rolled_back (db s)"
  proof (cases "nVdbeWrite (db s) = 0")
    case False
    from begin_savepoint [OF begin_refused [OF False], of ?n] run(1) show ?thesis by (auto simp: abind_def)
  next
    case w: True
    obtain s1 where s1: "dbBegin_SQLiteConnection D None (Some (RString ?n)) s = (Inr True, s1, [])" "db s1 = begun ?n (db s)"
      using begin_savepoint [OF begin_begun [OF w]] by fastforce
    obtain y s2 ws2 where s2: "next_method s1 = (y, s2, ws2)" by (metis prod.exhaust)
    show ?thesis
    proof (cases "undefined_behaviour y")
      case True
      with s1 s2 run show ?thesis by (auto simp: abind_def on_error_def split: sum.splits)
    next
      case defined: False
      from keeps_orD [OF assms s2 this] s1(2) begun_open [OF w inv(1), of ?n]
      consider (same) "same_tx (begun ?n (db s)) (db s2)" | (gone) e where "y = Inl e" "db s2 = rolled_back (begun ?n (db s))"
        by (cases y) auto
      then show ?thesis
      proof cases
        case gone
        from rollback_gone [OF gone(2), of ?n] gone s1 s2 defined run(1) rolled_back_begun [OF w inv(1)] inv(2) show ?thesis
          by (auto simp: abind_def on_error_def)
      next
        case same
        then show ?thesis
          using rollback_to_begin [OF w inv(1) same] commit_begun [OF w inv(1) same] inv(2) defined s1 s2 run(1)
          by (cases y) (auto simp: abind_def on_error_def areturn_def commits_def same_tx_kept)
      qed
    qed
  qed
qed

text \<open>
  The savepoint of \<open>dbWriteTable\<close>: everything is undone unless the commit succeeds; at most, when a
  step of it has rolled back the transaction around it, more than that.
\<close>

lemma with_savepoint:
  assumes inv: "tx_inv (db s)" and keeps: "keeps_or_rolls_back db steps" and free: "unlocked commit_busy (db s)"
    and run: "abind (dbBegin_SQLiteConnection D None (Some (RString n))) (\<lambda>_.
        on_error (dbRollback_SQLiteConnection D None (Some (RString n)))
          (abind steps (\<lambda>_. dbCommit_SQLiteConnection D None (Some (RString n))))) s = (x, t, ws)"
      "\<not> undefined_behaviour x"
  shows "case x of
      Inl e \<Rightarrow> db t = db s \<or> \<not> autoCommit (db s) \<and> db t = rolled_back (db s)
        \<and> (\<exists>s1 s2 e ws. db s1 = begun n (db s) \<and> steps s1 = (Inl e, s2, ws) \<and> db s2 = db t)
    | Inr r \<Rightarrow> r \<and> (\<exists>s1 s2 y ws. db s1 = begun n (db s) \<and> steps s1 = (Inr y, s2, ws) \<and> db t = kept (db s) (db s2))"
proof (cases "nVdbeWrite (db s) = 0")
  case False
  from begin_savepoint [OF begin_refused [OF False], of n] run(1) show ?thesis
    by (auto simp: abind_def)
next
  case w: True
  obtain s1 where s1: "dbBegin_SQLiteConnection D None (Some (RString n)) s = (Inr True, s1, [])" "db s1 = begun n (db s)"
    using begin_savepoint [OF begin_begun [OF w]] by fastforce
  have free: "\<not> autoCommit (db s) \<or> \<not> commit_busy (begun n (db s))"
    using free begun_open [OF w inv, of n] by (auto simp: unlocked_def)
  obtain y s2 ws2 where s2: "steps s1 = (y, s2, ws2)" by (metis prod.exhaust)
  show ?thesis
  proof (cases "undefined_behaviour y")
    case True
    with s1 s2 run show ?thesis by (auto simp: abind_def on_error_def split: sum.splits)
  next
    case defined: False
    from keeps_orD [OF keeps s2 this] s1(2) begun_open [OF w inv, of n]
    consider (same) "same_tx (begun n (db s)) (db s2)" | (gone) e where "y = Inl e" "db s2 = rolled_back (begun n (db s))"
      by (cases y) auto
    then show ?thesis
    proof cases
      case gone
      from rollback_gone [OF gone(2), of n] obtain m t1 where
        t1: "dbRollback_SQLiteConnection D None (Some (RString n)) s2 = (Inl (Stop m), t1, [])" "db t1 = db s2" by blast
      with gone s1 s2 defined run(1) have "x = Inl (Stop m)" "db t = db s2" by (auto simp: abind_def on_error_def)
      with gone s1 s2 rolled_back_begun [OF w inv, of n] show ?thesis by (cases "autoCommit (db s)") auto
    next
      case c: same
      from rollback_to_begin [OF w inv c free] obtain t1 where
        t1: "dbRollback_SQLiteConnection D None (Some (RString n)) s2 = (Inr True, t1, [])" "db t1 = db s" by blast
      show ?thesis
      proof (cases y)
        case (Inl e)
        with defined s1 s2 t1 run(1) show ?thesis by (auto simp: abind_def on_error_def)
      next
        case (Inr out)
        show ?thesis
        proof (cases "commits commit_busy (db s) (db s2)")
          case True
          with commit_begun [OF w inv c] Inr s1 s2 run(1) show ?thesis
            by (fastforce simp: abind_def on_error_def)
        next
          case refused: False
          with commit_begun [OF w inv c] obtain t2 m where
            t2: "dbCommit_SQLiteConnection D None (Some (RString n)) s2 = (Inl (Stop m), t2, [])" "db t2 = db s2" by auto
          from c t2 have "same_tx (begun n (db s)) (db t2)" by simp
          from rollback_to_begin [OF w inv this free] Inr s1 s2 t2 run(1) show ?thesis
            by (auto simp: abind_def on_error_def)
        qed
      qed
    qed
  qed
qed

lemma write_table_steps_keep:
  assumes M: "tm_dbi M = D" "methods_keep_tx db M"
  shows "keeps_or_rolls_back db (write_table_steps M name value checked)"
proof -
  have "keeps_or_rolls_back db (dbAppendTable_SQLiteConnection (tm_dbi M) pid letters (tm_dbAppendTable_next M name v))"
    for pid letters v
    unfolding M(1) by (rule append_table_nested) (use M in \<open>auto simp: methods_keep_tx_def\<close>)
  then show ?thesis using M(2) remove_table_keeps [OF M(2)] unfolding write_table_steps_def methods_keep_tx_def
    by (cases checked) (auto intro!: keeps_or_bind keeps_or_return)
qed

lemma write_file_steps_keep:
  assumes M: "tm_dbi M = D" "methods_keep_tx db M"
  shows "keeps_or_rolls_back db (write_file_steps M name file args)"
proof -
  have "keeps_or_rolls_back db (create_from M name temporary columns)" for columns temporary
  proof (cases "tm_sqlCreateTable M name columns temporary")
    case (Inl e)
    then show ?thesis by (auto simp: create_from_def keeps_or_rolls_back_def abind_def alift_def)
  next
    case (Inr sql)
    with M(2) have "keeps_or_rolls_back db (dbExecute (tm_dbi M) sql None)" by (auto simp: methods_keep_tx_def)
    then have "keeps_or_rolls_back db (abind (dbExecute (tm_dbi M) sql None) (\<lambda>_. areturn ()))"
      by (auto intro!: keeps_or_bind keeps_or_return)
    then show ?thesis unfolding create_from_def Inr abind_alift_Inr .
  qed
  then show ?thesis using M(2) remove_table_keeps [OF M(2)] unfolding write_file_steps_def methods_keep_tx_def
    by (auto intro!: keeps_or_bind keeps_or_return split: option.split)
qed

end


text \<open>The same for a file, of which the lines are inserted one by one.\<close>

lemma write_file_atomic:
  assumes "tm_dbi M = sqlite_dbi commit_busy other" "methods_keep_tx (\<lambda>d. d) M"
    and "tx_inv d" "unlocked commit_busy d"
    and run: "dbWriteTable_SQLiteConnection_character_character M name file row_names args d = (x, d', ws)"
      "\<not> undefined_behaviour x"
  shows "case x of
      Inl e \<Rightarrow> d' = d \<or> \<not> autoCommit d \<and> d' = rolled_back d
    | Inr r \<Rightarrow> r \<and> (\<exists>c ws2. write_file_steps M name (tm_path_expand M file) args
          (begun (get_savepoint_id ''dbWriteTable'' (tm_pid M) (tm_random_string M 0)) d) = (Inr (), c, ws2) \<and> d' = kept d c)"
proof (cases "fa_overwrite args \<and> fa_append args")
  case True
  with run show ?thesis by (auto simp: dbWriteTable_SQLiteConnection_character_character_def athrow_def)
next
  case False
  note keeps = sq.write_file_steps_keep [OF assms(1,2), of name "tm_path_expand M file" args]
  let ?n = "get_savepoint_id ''dbWriteTable'' (tm_pid M) (tm_random_string M 0)"
  obtain rn ws1 where "compatRowNames row_names = Inr (rn, ws1)"
    by (cases row_names) (auto simp: compatRowNames_def ret_def ebind_def warning_def)
  with run(1) False obtain ws' where "abind (dbBegin_SQLiteConnection (tm_dbi M) None (Some (RString ?n))) (\<lambda>_.
      on_error (dbRollback_SQLiteConnection (tm_dbi M) None (Some (RString ?n)))
        (abind (write_file_steps M name (tm_path_expand M file) args)
          (\<lambda>_. dbCommit_SQLiteConnection (tm_dbi M) None (Some (RString ?n))))) d = (x, d', ws')"
    by (auto simp: dbWriteTable_SQLiteConnection_character_character_def abind_eq_run Let_def split: prod.splits)
  from sq.with_savepoint [OF assms(3) keeps assms(4) this [unfolded assms(1)] run(2)] show ?thesis
    by (cases x) auto
qed

text \<open>
  The content is the number of the tables and rows; the table is made, then the first row is inserted
  and the second one refused; a third one does not fit on the disk.  Another statement, \<open>END\<close>, commits.
\<close>

definition ending :: "string \<Rightarrow> nat sq_db \<Rightarrow> i32 res \<times> nat sq_db \<times> string list" where
  "ending sql d = (if sql = ''END'' then sqlite_execute (\<lambda>_. False) (\<lambda>_ d. (Inr 0, d, [])) ''COMMIT'' d else (Inr 0, d, []))"

definition example_methods :: "nat sq_db table_methods" where
  "example_methods = \<lparr>tm_dbi = sqlite_dbi (\<lambda>_. False) ending, tm_dbExistsTable = (\<lambda>_. areturn False),
     tm_dbCreateTable = (\<lambda>_ _ _. amodify (\<lambda>d. d\<lparr>content := content d + 1\<rparr>)), tm_dbListFields = (\<lambda>_. areturn []),
     tm_dbAppendTable_next = (\<lambda>_ v d.
       if fr_nrow v = 1 then (Inr 1, d\<lparr>content := content d + 1\<rparr>, [])
       else if fr_nrow v = 2 then (Inl (Stop ''UNIQUE constraint failed''), d\<lparr>content := content d + 1\<rparr>, [])
       else (Inl (Stop ''database or disk is full''), rolled_back d, [])),
     tm_sqlRownamesToColumn = (\<lambda>v _. Inr v), tm_sqlCreateTable = (\<lambda>_ _ _. Inr ''CREATE TABLE t (a)''),
     tm_read_table = (\<lambda>_ _ _ _ _. Inr \<lparr>fr_names = [''a''], fr_columns = [], fr_nrow = 0\<rparr>), tm_path_expand = (\<lambda>f. f),
     tm_import_file = (\<lambda>_ _ _ _ _. areturn True), tm_factor_as_character = (\<lambda>x. x), tm_tolower = (\<lambda>s. s),
     tm_extended_types = False, tm_pid = ''1'', tm_random_string = (\<lambda>_. ''a'')\<rparr>"

definition example_frame :: "i32 list \<Rightarrow> r_frame" where
  "example_frame xs = \<lparr>fr_names = [''a''], fr_columns = [plain (IntSXP (map Some xs))], fr_nrow = length xs\<rparr>"

definition default_write_args :: write_args where
  "default_write_args = \<lparr>wa_row_names = RowLogical [Some False], wa_overwrite = Flags [Some False],
     wa_append = Flags [Some False], wa_field_types = FieldNull, wa_temporary = Flags [Some False]\<rparr>"

lemma example_methods_keep: "methods_keep_tx (\<lambda>d. d) example_methods"
proof -
  have run: "dbExecute (tm_dbi example_methods) sql None d = (Inr 0, d, [])"
    if "prefix ''DROP TABLE '' sql \<or> prefix ''CREATE'' sql" for sql d
  proof -
    have "tx_command sql = None \<and> sql \<noteq> ''END''"
      using that by (auto simp: tx_command_def elim!: prefixE)
    then show ?thesis by (simp add: example_methods_def sqlite_dbi_def sqlite_execute_def ending_def)
  qed
  have "keeps_or_rolls_back (\<lambda>d. d) (dbExecute (tm_dbi example_methods) sql None)"
    if "prefix ''DROP TABLE '' sql \<or> prefix ''CREATE'' sql" for sql
    using run [OF that] by (simp add: keeps_or_rolls_back_def)
  then show ?thesis
    unfolding methods_keep_tx_def
    by (auto simp: example_methods_def keeps_or_rolls_back_def same_tx_def areturn_def amodify_def)
qed

text \<open>The caller's transaction, in which it has changed something.\<close>

definition open_db :: "nat sq_db" where
  "open_db = (fresh_db 0)\<lparr>autoCommit := False, content := 5\<rparr>"

lemma open_db_inv: "tx_inv open_db"
  by (simp add: open_db_def fresh_db_def tx_inv_def)

lemma write_example:
  "fst (dbWriteTable_SQLiteConnection_character_data_frame example_methods ''t'' (example_frame [7]) default_write_args (fresh_db 0)) = Inr True"
  "content (fst (snd (dbWriteTable_SQLiteConnection_character_data_frame example_methods ''t'' (example_frame [7]) default_write_args (fresh_db 0)))) = 2"
  "fst (dbWriteTable_SQLiteConnection_character_data_frame example_methods ''t'' (example_frame [7, 7]) default_write_args (fresh_db 0)) = Inl (Stop ''UNIQUE constraint failed'')"
  "fst (dbWriteTable_SQLiteConnection_character_data_frame example_methods ''t'' (example_frame [7, 7, 7]) default_write_args open_db) =
    Inl (Stop ''no such savepoint: dbWriteTable_1_a'')"
  "content (fst (snd (dbWriteTable_SQLiteConnection_character_data_frame example_methods ''t'' (example_frame [7, 7, 7]) default_write_args open_db))) = 0"
  by (simp_all add: dbWriteTable_SQLiteConnection_character_data_frame_def write_table_steps_def check_write_args_def
      default_write_args_def example_methods_def example_frame_def open_db_def rolled_back_def sqlite3CloseSavepoints_def
      sqlite3RollbackAll_def scalar_row_names_def named_types_def
      compatRowNames_def sql_data_def raw_to_string_def field_def_def match_col_def db_data_types_def setdiff_def
      r_unique_def dbDataType_SQLiteDriver_def column_named_def is_factor_def plain_def dbAppendTable_SQLiteConnection_def
      get_savepoint_id_def fresh_db_def savepoint_eval alift_def amodify_def ret_def ebind_def lift_res_def del: append_Cons)


subsection \<open>The types of the columns\<close>

text \<open>The type of what is read from a column of no values, for each kind of column written.\<close>

definition column_read_type :: "bool \<Rightarrow> robj \<Rightarrow> data_type" where
  "column_read_type extended_types x =
     (if is_factor x then DT_STRING
      else if ''integer64'' \<in> set (rclass x) then DT_INT
      else if extended_types \<and> ''Date'' \<in> set (rclass x) then DT_DATE
      else if extended_types \<and> ''POSIXct'' \<in> set (rclass x) then DT_DATETIME
      else if extended_types \<and> ''hms'' \<in> set (rclass x) then DT_TIME
      else case TYPEOF (rdata x) of
          INTSXP \<Rightarrow> DT_INT | LGLSXP \<Rightarrow> DT_INT | REALSXP \<Rightarrow> DT_REAL | VECSXP \<Rightarrow> DT_BLOB | _ \<Rightarrow> DT_STRING)"

lemma affinity_of_types:
  "sqlite3AffinityType (Some ''TEXT'') = SQLITE_AFF_TEXT"
  "sqlite3AffinityType (Some ''INTEGER'') = SQLITE_AFF_INTEGER"
  "sqlite3AffinityType (Some ''REAL'') = SQLITE_AFF_REAL"
  "sqlite3AffinityType (Some ''BLOB'') = SQLITE_AFF_BLOB"
  by (simp_all add: affinity_of_declared affinity_spec_def class_of_def text_like_def blob_like_def real_like_def
      has_def bytes_of_def lower_def sublist_Cons_right)

lemma decltype_plain:
  "datatype_from_decltype (Some ''TEXT'') ext = DT_STRING"
  "datatype_from_decltype (Some ''INTEGER'') ext = DT_INT"
  "datatype_from_decltype (Some ''REAL'') ext = DT_REAL"
  "datatype_from_decltype (Some ''BLOB'') ext = DT_BLOB"
  by (simp_all add: datatype_from_decltype_def iequals_def to_upper_def affinity_of_types SQLITE_AFF_BLOB_def
      SQLITE_AFF_TEXT_def SQLITE_AFF_NUMERIC_def SQLITE_AFF_INTEGER_def SQLITE_AFF_REAL_def)

lemma decltype_dates:
  "datatype_from_decltype (Some ''DATE'') True = DT_DATE"
  "datatype_from_decltype (Some ''TIMESTAMP'') True = DT_DATETIME"
  "datatype_from_decltype (Some ''TIME'') True = DT_TIME"
  by (simp_all add: datatype_from_decltype_def iequals_def to_upper_def)

text \<open>
  C33: the types that \<open>dbDataType\<close> declares are read back by the C++ code as the types they were
  declared for: through SQLite's affinity a number is a number, text is text and a list of bytes a
  blob, and with extended types dates and times keep their classes.
\<close>

theorem declared_type_read:
  assumes "dbDataType_SQLiteDriver extended_types x = Inr type"
  shows "datatype_from_decltype (Some type) extended_types = column_read_type extended_types x"
  using assms unfolding dbDataType_SQLiteDriver_def column_read_type_def Let_def
  by (simp add: decltype_plain decltype_dates
      split: if_splits sexptype.splits) (auto simp: decltype_plain decltype_dates)

theorem declared_type_read_witness:
  "datatype_from_decltype (Some ''DATE'') True = DT_DATE \<and> datatype_from_decltype (Some ''REAL'') False = DT_REAL"
proof -
  let ?date = "\<lparr>rdata = RealSXP [], rclass = [''Date''], rtzone = None\<rparr>"
  have "dbDataType_SQLiteDriver True ?date = Inr ''DATE''" "dbDataType_SQLiteDriver False ?date = Inr ''REAL''"
    by (simp_all add: dbDataType_SQLiteDriver_def is_factor_def)
  from this [THEN declared_type_read] show ?thesis by (simp add: column_read_type_def is_factor_def)
qed

subsection \<open>Names of columns\<close>

text \<open>What is written is written to columns that exist; a name is changed only with a warning.\<close>

lemma set_r_unique [simp]: "set (r_unique xs) = set xs"
  by (simp add: r_unique_def)

lemma set_setdiff [simp]: "set (setdiff xs ys) = set xs - set ys"
  by (auto simp: setdiff_def)

lemma match_col_names:
  assumes "match_col tolower names col_names = Inr (names', ws)"
  shows "set names' \<subseteq> set col_names \<and> length names' = length names
    \<and> map tolower names' = map tolower names \<and> (ws = [] \<longrightarrow> names' = names)"
  using assms by (auto simp: match_col_def ebind_def warning_def ret_def split: if_splits)

lemma match_col_refused:
  "(\<exists>e. match_col tolower names col_names = Inl e) \<longleftrightarrow>
     \<not> set names \<subseteq> set col_names \<and> \<not> (length col_names = length names \<and> map tolower names = map tolower col_names)"
  by (auto simp: match_col_def ebind_def warning_def ret_def)

lemma db_data_types_names: "db_data_types ext data names = Inr ts \<Longrightarrow> map fst ts = names"
  by (induction names arbitrary: ts) (auto simp: db_data_types_def)

lemma db_data_types_value:
  "db_data_types ext data names = Inr ts \<Longrightarrow> n \<in> set names \<Longrightarrow>
     \<exists>t. map_of ts n = Some t \<and> dbDataType_SQLiteDriver ext (column_named data n) = Inr t"
  by (induction names arbitrary: ts) (auto simp: db_data_types_def)

text \<open>
  The fields of a new table: for every column of the data, in order, the type given for its name, or
  else the one \<open>dbDataType\<close> finds.
\<close>

lemma field_def_types:
  assumes "field_def M data field_types = Inr (defs, ws)" "distinct (map fst field_types)"
  shows "map fst defs = fr_names data \<and> (\<forall>(n, t) \<in> set defs.
    if n \<in> fst ` set field_types then (n, t) \<in> set field_types
    else dbDataType_SQLiteDriver (tm_extended_types M) (column_named data n) = Inr t)"
proof -
  obtain ts where ts: "db_data_types (tm_extended_types M) data (setdiff (fr_names data) (map fst field_types)) = Inr ts"
    and defs: "defs = map (\<lambda>n. (n, the (map_of (field_types @ ts) n))) (fr_names data)"
    using assms(1) by (auto simp: field_def_def ebind_eq_Inr lift_res_def ret_def split: sum.splits)
  have "if n \<in> fst ` set field_types then (n, the (map_of (field_types @ ts) n)) \<in> set field_types
    else dbDataType_SQLiteDriver (tm_extended_types M) (column_named data n) = Inr (the (map_of (field_types @ ts) n))"
    if "n \<in> set (fr_names data)" for n
  proof (cases "n \<in> fst ` set field_types")
    case True
    then obtain t where "(n, t) \<in> set field_types" by auto
    with assms(2) have "map_of field_types n = Some t" by simp
    with \<open>(n, t) \<in> set field_types\<close> True show ?thesis by (simp add: map_add_Some_iff domIff)
  next
    case False
    then have "map_of field_types n = None" by (simp add: map_of_eq_None_iff)
    with db_data_types_value [OF ts, of n] that False show ?thesis by (auto simp: map_add_def)
  qed
  with defs show ?thesis by (auto simp: comp_def simp del: map_of_append)
qed

text \<open>
  Types given under names that differ in case from all those of the data are announced as matched,
  with a warning, and ignored.
\<close>

lemma case_insensitive_types_ignored:
  assumes "length field_types = length (fr_names data)" "fr_names data \<noteq> []"
    and "map (tm_tolower M) (map fst field_types) = map (tm_tolower M) (fr_names data)"
    and "fst ` set field_types \<inter> set (fr_names data) = {}"
  shows "field_def M data field_types =
    ebind (warning ''Column names will be matched ignoring character case'') (\<lambda>_. field_def M data [])"
proof -
  have "filter (\<lambda>x. x \<notin> set (map fst field_types)) (fr_names data) = fr_names data"
    using assms(4) by (auto simp: filter_id_conv)
  then have d: "setdiff (fr_names data) (map fst field_types) = setdiff (fr_names data) []" by (simp add: setdiff_def)
  have "map fst field_types \<noteq> fr_names data" using assms(2,4) by (cases "fr_names data") auto
  then have m: "match_col (tm_tolower M) (map fst field_types) (fr_names data) =
      ebind (warning ''Column names will be matched ignoring character case'') (\<lambda>_. ret (fr_names data))"
    using assms(1,3) by (simp add: match_col_def)
  have m': "match_col (tm_tolower M) [] (fr_names data) = ret []" using assms(2) by (simp add: match_col_def)
  have types: "map (\<lambda>n. (n, the (map_of (field_types @ ts) n))) (fr_names data) =
      map (\<lambda>n. (n, the (map_of ([] @ ts) n))) (fr_names data)" for ts
    using assms(4) by (auto simp: map_add_def map_of_eq_None_iff split: option.split dest!: map_of_SomeD)
  show ?thesis unfolding field_def_def list.map(1) m m' d types ebind_assoc ebind_ret ..
qed

end
