(* ===== verification/Listing.thy ===== *)
theory Listing
  imports Tables
begin

text \<open>
  Asking for tables: the query of \<open>table.R\<close> on the schema, \<open>dbListTables\<close>, the methods of
  \<open>dbExistsTable\<close> and \<open>dbReadTable\<close>, on the methods for results of \<open>Client\<close>.

  Parameters: \<open>tolower\<close>, \<open>make.names\<close>, and DBI's \<open>dbGetQuery\<close> and quoting of an \<open>Id\<close>.  \<open>dbQuoteString\<close> of DBI does not change
  what is SQL already.
\<close>

subsection \<open>The query\<close>

text \<open>\<open>paste0\<close> has no argument \<open>sep\<close>: the end of line is one more text.\<close>

definition sqliteListTablesQuery :: "string option \<Rightarrow> string option \<Rightarrow> string" where
  "sqliteListTablesQuery schema name =
     (let info_sql = (case schema of
            None \<Rightarrow> ''(SELECT * FROM sqlite_master UNION ALL SELECT * FROM sqlite_temp_master)''
          | Some s \<Rightarrow> ''(SELECT * FROM '' @ quote_identifier s @ ''.sqlite_master)'') in
      ''SELECT name '' @ ''FROM '' @ info_sql @ '' '' @
      ''WHERE (type = '' @ [squote] @ ''table'' @ [squote] @ '' OR type = '' @ [squote] @ ''view'' @ [squote] @ '') '' @
      (case name of None \<Rightarrow> [] | Some n \<Rightarrow> ''AND (lower(name) = '' @ n @ '') '') @
      ''ORDER BY name'' @ [CHR 0x0A])"

definition sqliteListTables :: "('db, 'st) api \<Rightarrow> r_env \<Rightarrow> r_connection \<Rightarrow> (('db, 'st) client, r_result) act" where
  "sqliteListTables A E con = dbSendQuery A E con (sqliteListTablesQuery None None) None"

text \<open>A name that is a string, or SQL that is quoted already.\<close>

datatype table_name = NameString rstring | NameSQL string

definition unquoted_name :: "table_name \<Rightarrow> (string \<times> string) list res" where
  "unquoted_name name =
     rbind (case name of
         NameString x \<Rightarrow> dbQuoteIdentifier_SQLiteConnection_character (None, [x])
       | NameSQL q \<Rightarrow> dbQuoteIdentifier_SQLiteConnection_SQL (None, [RString q])) (\<lambda>quoted.
     rbind (dbUnquoteIdentifier_SQLiteConnection_SQL quoted) (\<lambda>(_, ids). Inr (hd ids)))"

text \<open>The list that is bound: no value when there is no table.\<close>

definition name_param :: "(string \<Rightarrow> string) \<Rightarrow> string option \<Rightarrow> r_list" where
  "name_param tolower table =
     (Some [''name''], [plain (StrSXP (case table of None \<Rightarrow> [] | Some t \<Rightarrow> [RString (tolower t)]))])"

definition sqliteListTablesWithName ::
  "('db, 'st) api \<Rightarrow> r_env \<Rightarrow> (string \<Rightarrow> string) \<Rightarrow> r_connection \<Rightarrow> table_name \<Rightarrow> (('db, 'st) client, r_result) act" where
  "sqliteListTablesWithName A E tolower con name =
     abind (alift (lift_res (unquoted_name name))) (\<lambda>id.
     abind (dbSendQuery A E con (sqliteListTablesQuery (map_of id ''schema'') (Some ''$name'')) None) (\<lambda>rs.
     abind (dbBind_SQLiteResult A E rs (name_param tolower (map_of id ''table''))) (\<lambda>_. areturn rs)))"

subsection \<open>The methods\<close>

definition nrow :: "r_data_frame \<Rightarrow> nat" where
  "nrow df = (case rdf_row_names df of
       [na, n] \<Rightarrow> if na = NA_INTEGER then nat \<bar>sint n\<bar> else 2
     | xs \<Rightarrow> length xs)"

definition dollar_name :: "r_data_frame \<Rightarrow> robj option" where
  "dollar_name df = map_option ((!) (rdf_columns df)) (r_match ''name'' (rdf_names df))"

text \<open>
  A fetch of a result that \<open>on.exit\<close> clears, and a function of what was fetched.  \<open>None\<close> is a fetch
  that does not end.
\<close>

definition fetch_then_clear ::
  "('db, 'st) api \<Rightarrow> r_env \<Rightarrow> (nat \<Rightarrow> bool) \<Rightarrow> r_result \<Rightarrow> r_number \<Rightarrow> (r_data_frame \<Rightarrow> 'a) \<Rightarrow> ('db, 'st) client \<Rightarrow>
     ((r_error + 'a) \<times> ('db, 'st) client \<times> string list) option" where
  "fetch_then_clear A E intr rs n f s =
     map_option (\<lambda>fetched. on_exit (dbClearResult_SQLiteResult A rs) (abind (\<lambda>_. fetched) (\<lambda>df. areturn (f df))) s)
       (dbFetch_SQLiteResult A E intr rs [n] s)"

text \<open>An action, then one that may not end.\<close>

definition pbind :: "('s, 'a) act \<Rightarrow> ('a \<Rightarrow> 's \<Rightarrow> (('b res) \<times> 's \<times> string list) option) \<Rightarrow> 's \<Rightarrow>
     (('b res) \<times> 's \<times> string list) option" where
  "pbind m f s = (case m s of
       (Inl e, t, ws) \<Rightarrow> Some (Inl e, t, ws)
     | (Inr x, t, ws) \<Rightarrow> map_option (\<lambda>(y, u, ws'). (y, u, ws @ ws')) (f x t))"

definition dbListTables_SQLiteConnection ::
  "('db, 'st) api \<Rightarrow> r_env \<Rightarrow> (nat \<Rightarrow> bool) \<Rightarrow> r_connection \<Rightarrow> ('db, 'st) client \<Rightarrow>
     ((r_error + robj option) \<times> ('db, 'st) client \<times> string list) option" where
  "dbListTables_SQLiteConnection A E intr con =
     pbind (sqliteListTables A E con) (\<lambda>rs. fetch_then_clear A E intr rs (NumWhole (- 1)) dollar_name)"

definition dbExistsTable_SQLiteConnection_character ::
  "('db, 'st) api \<Rightarrow> r_env \<Rightarrow> (nat \<Rightarrow> bool) \<Rightarrow> (string \<Rightarrow> string) \<Rightarrow> r_connection \<Rightarrow> table_name \<Rightarrow> ('db, 'st) client \<Rightarrow>
     ((r_error + bool) \<times> ('db, 'st) client \<times> string list) option" where
  "dbExistsTable_SQLiteConnection_character A E intr tolower con name =
     pbind (sqliteListTablesWithName A E tolower con name)
       (\<lambda>rs. fetch_then_clear A E intr rs (NumWhole 1) (\<lambda>df. nrow df > 0))"

text \<open>
  An \<open>Id\<close>: \<open>quoted\<close> is what \<open>dbQuoteIdentifier\<close> of DBI makes of it.  \<open>get_names\<close> is DBI's \<open>dbGetQuery\<close> of
  \<open>SELECT name FROM pragma_database_list;\<close>, of which the names are taken.
\<close>

definition dbExistsTable_SQLiteConnection_Id ::
  "('db, 'st) api \<Rightarrow> r_env \<Rightarrow> (nat \<Rightarrow> bool) \<Rightarrow> (string \<Rightarrow> string) \<Rightarrow> (string \<Rightarrow> (('db, 'st) client, string list) act) \<Rightarrow>
     r_connection \<Rightarrow> string \<Rightarrow> ('db, 'st) client \<Rightarrow>
     ((r_error + bool) \<times> ('db, 'st) client \<times> string list) option" where
  "dbExistsTable_SQLiteConnection_Id A E intr tolower get_names con quoted =
     pbind (alift (lift_res (unquoted_name (NameSQL quoted)))) (\<lambda>id.
     pbind (case map_of id ''schema'' of None \<Rightarrow> areturn True
         | Some schema \<Rightarrow> abind (get_names ''SELECT name FROM pragma_database_list;'')
             (\<lambda>schemas. areturn (schema \<in> set schemas))) (\<lambda>known s.
       if \<not> known then Some (areturn False s)
       else pbind (abind (dbSendQuery A E con (sqliteListTablesQuery (map_of id ''schema'') (Some ''$name'')) None) (\<lambda>rs.
              abind (dbBind_SQLiteResult A E rs (name_param tolower (map_of id ''table''))) (\<lambda>_. areturn rs)))
            (\<lambda>rs. fetch_then_clear A E intr rs (NumWhole 1) (\<lambda>df. nrow df > 0)) s))"

definition dbReadTable_SQLiteConnection_character ::
  "(string \<Rightarrow> row_names \<Rightarrow> ('s, r_frame) act) \<Rightarrow> (string list \<Rightarrow> string list) \<Rightarrow> string \<Rightarrow> row_names \<Rightarrow> r_flag \<Rightarrow>
     string option \<Rightarrow> ('s, r_frame) act" where
  "dbReadTable_SQLiteConnection_character get_query make_names name row_names check_names select_cols =
     abind (alift (compatRowNames row_names)) (\<lambda>row_names.
     if \<not> scalar_row_names row_names then athrow (Stop ''`row.names` must be a logical scalar or a string'')
     else case check_names of Flags [check_names] \<Rightarrow>
         abind (case select_cols of None \<Rightarrow> areturn ''*''
             | Some cols \<Rightarrow> abind (awarn ''`select.cols` is deprecated, use `dbGetQuery()` for complex queries.'') (\<lambda>_. areturn cols))
           (\<lambda>select_cols.
         abind (quoted_name (RString name)) (\<lambda>name.
         abind (get_query (''SELECT '' @ select_cols @ '' FROM '' @ name) row_names) (\<lambda>out.
         case check_names of
           None \<Rightarrow> athrow (Stop ''missing value where TRUE/FALSE needed'')
         | Some True \<Rightarrow> areturn (out\<lparr>fr_names := make_names (fr_names out)\<rparr>)
         | Some False \<Rightarrow> areturn out)))
       | _ \<Rightarrow> athrow (Stop ''`check.names` must be a logical scalar''))"

subsection \<open>No result is left open\<close>

lemma fetch_refs:
  "dbFetch_SQLiteResult A E intr res n s = Some (x, t, ws) \<Longrightarrow> cl_ref t = cl_ref s"
  by (auto simp: dbFetch_SQLiteResult_def athrow_def split: sum.splits)

lemma send_fails_closed:
  assumes inv: "client_inv s" and run: "dbSendQuery A E con sql None s = (Inl e, t, ws)"
  shows "cl_ref t (con_ref con) = None"
proof -
  obtain y s1 ws1 where s1: "close_pending A con s = (y, s1, ws1)" by (metis prod.exhaust)
  from close_pending_ok [OF inv s1] run s1 show ?thesis
    by (auto simp: dbSendQuery_def abind_def on_session_def on_error_def areturn_def Let_def split: sum.splits prod.splits)
qed

text \<open>The handler of \<open>on.exit\<close> after a body that left the results of the connection alone.\<close>

lemma exit_clears:
  assumes rs: "result_object s rs" "cl_ref s (con_ref (res_conn rs)) = Some rs"
    and ran: "client_inv u" "later s u" "cl_ref u = cl_ref s"
    and exit: "on_exit (dbClearResult_SQLiteResult A rs) (\<lambda>_. (y, u, ws1)) s = (x, t, ws)" "\<not> undefined_behaviour x"
  shows "client_inv t \<and> later s t \<and> cl_ref t (con_ref (res_conn rs)) = None \<and> x = y"
proof -
  have y: "\<not> undefined_behaviour y" using exit by (cases "undefined_behaviour y") (auto simp: on_exit_def)
  obtain z v ws2 where v: "dbClearResult_SQLiteResult A rs u = (z, v, ws2)" by (metis prod.exhaust)
  obtain k where "res_ptr rs = Some k"
    using ran rs(2) refs_okD(1) [of "cl_ref u" "holder (cl_session u)" "con_ref (res_conn rs)" rs]
    by (auto simp: client_inv_def)
  with clear_ok [OF ran(1) result_object_later [OF rs(1) ran(2)] v] rs(2) ran(3)
  have "z = Inr True" "client_inv v" "later u v" "cl_ref v (con_ref (res_conn rs)) = None" by simp_all
  with exit(1) v y ran(2) later_trans show ?thesis by (cases x) (auto simp: on_exit_def)
qed

lemma fetch_then_clear_ok:
  assumes P: "packages_keep_data (env_packages (api_stmt A))" and inv: "client_inv s"
    and rs: "result_object s rs" "cl_ref s (con_ref (res_conn rs)) = Some rs"
    and run: "fetch_then_clear A E intr rs n f s = Some (x, t, ws)" "\<not> undefined_behaviour x"
  shows "client_inv t \<and> later s t \<and> cl_ref t (con_ref (res_conn rs)) = None"
proof -
  obtain y u ws1 where u: "dbFetch_SQLiteResult A E intr rs [n] s = Some (y, u, ws1)"
    and exit: "on_exit (dbClearResult_SQLiteResult A rs) (abind (\<lambda>_. (y, u, ws1)) (\<lambda>df. areturn (f df))) s = (x, t, ws)"
    using run(1) by (auto simp: fetch_then_clear_def)
  have "abind (\<lambda>_. (y, u, ws1)) (\<lambda>df. areturn (f df)) = (\<lambda>_. (rbind y (\<lambda>df. Inr (f df)), u, ws1))"
    by (rule ext) (cases y; simp add: abind_def areturn_def)
  with exit_clears [OF rs _ _ fetch_refs [OF u] _ run(2)] exit fetch_ok_client [OF P inv u] show ?thesis by fastforce
qed

lemma pbind_Some:
  "pbind m f s = Some (x, t, ws) \<longleftrightarrow>
     (\<exists>e. m s = (Inl e, t, ws) \<and> x = Inl e) \<or>
     (\<exists>y u ws1 ws2. m s = (Inr y, u, ws1) \<and> f y u = Some (x, t, ws2) \<and> ws = ws1 @ ws2)"
  by (auto simp: pbind_def split: sum.splits prod.splits)

lemma list_tables_closes:
  assumes P: "packages_keep_data (env_packages (api_stmt A))" "env_ok E" and reach: "client_reachable A E s"
    and con: "con_object s con"
    and run: "dbListTables_SQLiteConnection A E intr con s = Some (x, t, ws)" "\<not> undefined_behaviour x"
  shows "client_inv t \<and> cl_ref t (con_ref con) = None"
proof -
  have inv: "client_inv s" using client_reachable_inv [OF P reach] .
  from run(1) [unfolded dbListTables_SQLiteConnection_def sqliteListTables_def pbind_Some]
  show ?thesis
  proof (elim disjE exE conjE)
    fix e assume m: "dbSendQuery A E con (sqliteListTablesQuery None None) None s = (Inl e, t, ws)" "x = Inl e"
    with send_fails_closed [OF inv m(1)] send_ok [OF P _ inv con m(1)] run(2) show ?thesis by simp
  next
    fix rs u ws1 ws2
    assume m: "dbSendQuery A E con (sqliteListTablesQuery None None) None s = (Inr rs, u, ws1)"
      "fetch_then_clear A E intr rs (NumWhole (- 1)) dollar_name u = Some (x, t, ws2)"
    from send_ok [OF P _ inv con m(1)] have "client_inv u" "cl_ref u (con_ref con) = Some rs" "res_conn rs = con"
      "result_object u rs" by simp_all
    with fetch_then_clear_ok [OF P(1) _ _ _ m(2) run(2)] show ?thesis by simp
  qed
qed

lemma name_param_ok: "r_params (name_param tolower table)"
  by (simp add: r_params_def named_ok_def name_param_def plain_def split: option.split)

text \<open>The statement for one name, with the name bound.\<close>

definition send_and_bind ::
  "('db, 'st) api \<Rightarrow> r_env \<Rightarrow> r_connection \<Rightarrow> string \<Rightarrow> r_list \<Rightarrow> (('db, 'st) client, r_result) act" where
  "send_and_bind A E con sql params =
     abind (dbSendQuery A E con sql None) (\<lambda>rs. abind (dbBind_SQLiteResult A E rs params) (\<lambda>_. areturn rs))"

lemma send_and_bind_ok:
  assumes P: "packages_keep_data (env_packages (api_stmt A))" "env_ok E" and inv: "client_inv s"
    and con: "con_object s con" and params: "r_params params"
    and run: "send_and_bind A E con sql params s = (x, t, ws)" "\<not> undefined_behaviour x"
  shows "client_inv t \<and> (case x of
      Inr rs \<Rightarrow> cl_ref t (con_ref con) = Some rs \<and> res_conn rs = con \<and> result_object t rs
    | Inl e \<Rightarrow> cl_ref t (con_ref con) = None \<or> (\<exists>rs u ws. dbSendQuery A E con sql None s = (Inr rs, u, ws)
        \<and> fst (dbBind_SQLiteResult A E rs params u) = Inl e \<and> cl_ref t (con_ref con) = Some rs))"
proof -
  obtain y u ws1 where u: "dbSendQuery A E con sql None s = (y, u, ws1)" by (metis prod.exhaust)
  show ?thesis
  proof (cases y)
    case (Inl e)
    with run u have x: "x = Inl e" "t = u" by (simp_all add: send_and_bind_def abind_def)
    with run(2) send_ok [OF P _ inv con u] send_fails_closed [OF inv u [unfolded Inl]] Inl show ?thesis by simp
  next
    case (Inr rs)
    from send_ok [OF P _ inv con u] Inr
    have s: "client_inv u" "cl_ref u (con_ref con) = Some rs" "res_conn rs = con" "result_object u rs" by simp_all
    obtain z v ws2 where v: "dbBind_SQLiteResult A E rs params u = (z, v, ws2)" by (metis prod.exhaust)
    have x: "t = v" "x = rbind z (\<lambda>_. Inr rs)"
      using run(1) u v Inr by (cases z; simp add: send_and_bind_def abind_def areturn_def)+
    with run(2) have "\<not> undefined_behaviour z" by (cases z) simp_all
    then have b: "session_inv (cl_session v)" "holder (cl_session v) = holder (cl_session u)" "cl_ref v = cl_ref u"
        "se_next (cl_session v) = se_next (cl_session u)"
      using bind_ok [OF P params _ v [unfolded dbBind_SQLiteResult_def]] s(1) by (auto simp: client_inv_def)
    then have "client_inv v" "result_object v rs" using s by (simp_all add: client_inv_def result_object_def)
    with x s b(3) u v Inr show ?thesis by (cases z) auto
  qed
qed

lemma sqliteListTablesWithName_send:
  "sqliteListTablesWithName A E tolower con name =
     abind (alift (lift_res (unquoted_name name))) (\<lambda>id. send_and_bind A E con
       (sqliteListTablesQuery (map_of id ''schema'') (Some ''$name'')) (name_param tolower (map_of id ''table'')))"
  by (simp add: sqliteListTablesWithName_def send_and_bind_def)

text \<open>
  \<open>dbExistsTable\<close> leaves no result open on the connection, also when the fetch fails; a name that
  cannot be unquoted is refused before anything is done.  The exception is a name whose binding fails:
  \<open>on.exit\<close> is set only after it, and the result stays open.
\<close>

lemma exists_table_closes:
  assumes P: "packages_keep_data (env_packages (api_stmt A))" "env_ok E" and reach: "client_reachable A E s"
    and con: "con_object s con"
    and run: "dbExistsTable_SQLiteConnection_character A E intr tolower con name s = Some (x, t, ws)" "\<not> undefined_behaviour x"
  shows "case unquoted_name name of
      Inl e \<Rightarrow> x = Inl e \<and> t = s
    | Inr ids \<Rightarrow> cl_ref t (con_ref con) = None \<or> (\<exists>rs u ws e.
        dbSendQuery A E con (sqliteListTablesQuery (map_of ids ''schema'') (Some ''$name'')) None s = (Inr rs, u, ws)
        \<and> fst (dbBind_SQLiteResult A E rs (name_param tolower (map_of ids ''table'')) u) = Inl e
        \<and> x = Inl e \<and> cl_ref t (con_ref con) = Some rs)"
proof (cases "unquoted_name name")
  case (Inl e)
  with run(1) show ?thesis
    by (simp add: dbExistsTable_SQLiteConnection_character_def sqliteListTablesWithName_def pbind_def abind_def alift_def)
next
  case (Inr ids)
  have inv: "client_inv s" using client_reachable_inv [OF P reach] .
  have send: "sqliteListTablesWithName A E tolower con name = send_and_bind A E con
      (sqliteListTablesQuery (map_of ids ''schema'') (Some ''$name'')) (name_param tolower (map_of ids ''table''))"
    unfolding sqliteListTablesWithName_send Inr abind_alift_Inr ..
  from run(1) [unfolded dbExistsTable_SQLiteConnection_character_def send pbind_Some]
  show ?thesis
  proof (elim disjE exE conjE)
    fix e assume m: "send_and_bind A E con (sqliteListTablesQuery (map_of ids ''schema'') (Some ''$name''))
      (name_param tolower (map_of ids ''table'')) s = (Inl e, t, ws)" "x = Inl e"
    with send_and_bind_ok [OF P inv con name_param_ok m(1)] run(2) Inr show ?thesis by auto
  next
    fix rs u ws1 ws2
    assume m: "send_and_bind A E con (sqliteListTablesQuery (map_of ids ''schema'') (Some ''$name''))
      (name_param tolower (map_of ids ''table'')) s = (Inr rs, u, ws1)"
      "fetch_then_clear A E intr rs (NumWhole 1) (\<lambda>df. nrow df > 0) u = Some (x, t, ws2)"
    from send_and_bind_ok [OF P inv con name_param_ok m(1)] have "client_inv u" "cl_ref u (con_ref con) = Some rs"
      "res_conn rs = con" "result_object u rs" by simp_all
    with fetch_then_clear_ok [OF P(1) _ _ _ m(2) run(2)] Inr show ?thesis by simp
  qed
qed

subsection \<open>What dbExistsTable answers\<close>

text \<open>A result that delivers \<open>rows\<close>, of which one is fetched before it is cleared.\<close>

lemma fetch_one_and_clear:
  fixes s :: "('db, 'st) client"
  assumes P: "packages_keep_data (env_packages (api_stmt A))" and quiet: "\<And>i. \<not> intr i"
    and int: "as_cpp_int E 1 = Inr 1"
    and r: "se_results (cl_session s) k = Some \<lparr>dr_conn = c, dr_impl = Some i\<rparr>"
    and w: "se_conns (cl_session s) c = Some (with_result w)" "ext_ptr w" "\<not> sq_closing w"
    and i: "delivers (api_stmt A) i rows" "ri_ready i" "length (ri_names i) = length (ri_types i)"
      "fst (ri_stmt i) = se_sqlite (cl_session s)"
    and rs: "res_ptr rs = Some k" "con_ref (res_conn rs) = c" "res_bigint rs = Integer64"
    and E: "\<And>df. sqlColumnToRownames E df = Inr df"
  shows "\<exists>e t ws. fetch_then_clear A E intr rs (NumWhole 1) f s = Some (Inr (f (frame_of (api_stmt A) i (take 1 rows) True e)), t, ws)
    \<and> cl_ref t = (cl_ref s)(c := None) \<and> se_results (cl_session t) = (se_results (cl_session s))(k := None)
    \<and> se_conns (cl_session t) = (se_conns (cl_session s))(c \<mapsto> w)"
proof -
  let ?env = "api_stmt A" and ?k = "length (take 1 rows)"
  have att: "attach (se_sqlite (cl_session s)) i = i" using i(4) by (simp add: attach_def flip: i(4))
  obtain e j ws where f: "result_fetch ?env intr 1 i = Some (Inr (frame_of ?env i (take 1 rows) True e), j, ws)"
    using fetch_rows_ok [where intr = intr and ?rows1.0 = "take 1 rows" and ?rows2.0 = "drop 1 rows", OF P quiet, of i 1] i
    by (auto simp: result_fetch_def Let_def)
  let ?r = "\<lparr>dr_conn = c, dr_impl = Some i\<rparr>" and ?r2 = "\<lparr>dr_conn = c, dr_impl = Some j\<rparr>"
  let ?t = "put_impl k ?r j (cl_session s)"
  let ?s2 = "s\<lparr>cl_session := ?t\<rparr>" and ?df = "frame_of ?env i (take 1 rows) True e"
  have "r_result_fetch A intr (Some k) 1 (cl_session s) = Some (Inr ?df, ?t, ws)"
    using r att f by (simp add: r_result_fetch_def db_fetch_def is_current_result_def)
  then have fetch: "dbFetch_SQLiteResult A E intr rs [NumWhole 1] s = Some (Inr ?df, ?s2, ws)"
    using int by (simp add: dbFetch_SQLiteResult_def rs fetch_count_def convert_bigint_def E)
  have r2: "se_results ?t k = Some ?r2" "se_conns ?t c = Some (with_result w)" "se_sqlite ?t = fst (ri_stmt j)"
    using w(1) by (simp_all add: put_impl_def)
  have "dbIsValid_SQLiteResult rs ?s2 = (Inr True, ?s2, [])" using r2(1) rs(1) by (simp add: is_valid_result holder_def)
  then obtain s3 where s3: "dbClearResult_SQLiteResult A rs ?s2 = (Inr True, s3, [])" "cl_ref s3 = (cl_ref s)(c := None)"
    "se_results (cl_session s3) = (se_results (cl_session s))(k := None)"
    "se_conns (cl_session s3) = (se_conns (cl_session s))(c \<mapsto> w)"
    using r_result_release_ok [OF r2(1,2) w(2,3), of A] rs
    by (simp add: dbClearResult_SQLiteResult_def abind_def on_session_def areturn_def)
  then show ?thesis
    by (intro exI [of _ e] exI [of _ s3] exI [of _ ws])
      (simp add: fetch_then_clear_def fetch on_exit_def abind_def areturn_def)
qed

lemma nrow_frame_of: "nrow (frame_of env r (take 1 rows) True e) > 0 \<longleftrightarrow> rows \<noteq> []"
  by (cases rows) (simp_all add: nrow_def frame_of_def frame_ref_def)

text \<open>
  C32: \<open>dbExistsTable\<close> answers \<open>TRUE\<close> exactly when SQLite has a row for the query with the lower-cased name
  bound to it, whatever else the rows hold; afterwards the connection has no open result and the
  session has the results and connections it had.
\<close>

theorem exists_table_answers:
  assumes P: "packages_keep_data (env_packages (api_stmt A))" "env_ok E" and reach: "client_reachable A E s"
    and con: "con_ptr con = Some c" "con_ref con = c" "cl_ref s c = None" "con_bigint con = Integer64"
    and w: "se_conns (cl_session s) c = Some w" "ext_ptr w" "is_valid w"
    and quiet: "\<And>i. \<not> intr i" and int: "as_cpp_int E 1 = Inr 1" and E: "\<And>df. sqlColumnToRownames E df = Inr df"
    and name: "unquoted_name name = Inr ids" "map_of ids ''table'' = Some table"
    and prep: "prepare (sqlite3_prepare_v2 A c (se_sqlite (cl_session s))
        (c_str (sqliteListTablesQuery (map_of ids ''schema'') (Some ''$name'')))) = Inr (vm, ws0)"
    and pn: "get_placeholder_names (api_stmt A) (result_impl_start (api_stmt A) (with_alt_types w) vm) = [''name'']"
    and rows: "group_runs (api_stmt A) [plain (StrSXP [RString (tolower table)])] vm 0 [rows]"
  shows "\<exists>t ws. dbExistsTable_SQLiteConnection_character A E intr tolower con name s = Some (Inr (rows \<noteq> []), t, ws)
    \<and> cl_ref t = cl_ref s \<and> se_results (cl_session t) = se_results (cl_session s)
    \<and> se_conns (cl_session t) = se_conns (cl_session s)"
proof -
  let ?env = "api_stmt A" and ?sql = "sqliteListTablesQuery (map_of ids ''schema'') (Some ''$name'')"
  let ?i = "result_impl_start ?env (with_alt_types w) vm" and ?p = "plain (StrSXP [RString (tolower table)])"
  let ?rs = "sent_result s con ?sql" and ?k = "se_next (cl_session s)"
  have inv: "session_inv (cl_session s)" using client_reachable_inv [OF P reach] by (simp add: client_inv_def)
  have closing: "\<not> sq_closing w" using reachable_open w(3) session_invD(1) [OF inv w(1)] by blast
  have fresh: "se_results (cl_session s) ?k = None" using session_tally(2) [OF inv] by auto
  note i = result_impl_start_simps [where env = ?env and alt = "with_alt_types w" and vm = vm]
  have impl: "sqlite_result_impl A c w ?sql (se_sqlite (cl_session s)) = (Inr ?i, fst (ri_stmt ?i), ws0)"
    using w(3) prep pn i(1,2) by (simp add: sqlite_result_impl_def result_impl_open_def areturn_def)
  have send: "dbSendQuery A E con ?sql None s = (Inr ?rs, sent s con ?sql c w ?i, ws0)"
    using r_result_create_ok [OF w(1,3) closing impl] con
    by (simp add: dbSendQuery_def close_pending_def abind_def areturn_def on_session_def on_error_def Let_def sent_def)
  obtain j where j: "result_bind ?env [?p] ?i = (Inr (), j, [])" "delivers ?env j rows" "ri_ready j"
    "ri_types j = ri_types ?i" "ri_names j = ri_names ?i"
    using result_bind_delivers [of ?i "[?p]" "[rows]" ?env] i(1,2) pn rows by (auto simp: plain_def)
  have "validate_params [?p] = Inr ()" by (subst validate_params_ok) (simp_all add: plain_def)
  then have bind: "db_bind ?env [?p] ?i = (Inr (), j, [])"
    using j(1) by (simp add: db_bind_def abind_def alift_def ret_def)
  let ?s1 = "sent s con ?sql c w ?i"
  let ?s2 = "?s1\<lparr>cl_session := (cl_session ?s1)\<lparr>se_sqlite := fst (ri_stmt j),
      se_results := (se_results (cl_session ?s1))(?k \<mapsto> \<lparr>dr_conn = c, dr_impl = Some j\<rparr>)\<rparr>\<rparr>"
  have "order_params False (get_placeholder_names ?env ?i) (Some [''name''], [?p]) = ret [?p]"
    using order_params_named [of "[''name'']" "[''name'']" "[?p]" False] pn by (simp add: is_number_def)
  then have bound: "dbBind_SQLiteResult A E ?rs (name_param tolower (Some table)) ?s1 = (Inr (), ?s2, [])"
    unfolding dbBind_SQLiteResult_def name_param_def option.case
    by (intro db_bind_R_run [OF _ _ _ _ _ bind]) (simp_all add: sent_def Let_def plain_def)
  have send: "sqliteListTablesWithName A E tolower con name s = (Inr ?rs, ?s2, ws0)"
    unfolding sqliteListTablesWithName_def name abind_alift_Inr using send bound
    by (simp add: name(2) abind_def areturn_def)
  have "\<exists>e t ws. fetch_then_clear A E intr ?rs (NumWhole 1) (\<lambda>df. nrow df > 0) ?s2 =
      Some (Inr (nrow (frame_of ?env j (take 1 rows) True e) > 0), t, ws)
    \<and> cl_ref t = (cl_ref ?s2)(c := None) \<and> se_results (cl_session t) = (se_results (cl_session ?s2))(?k := None)
    \<and> se_conns (cl_session t) = (se_conns (cl_session ?s2))(c \<mapsto> w)"
    by (rule fetch_one_and_clear [OF P(1) quiet int _ _ w(2) closing j(2,3) _ _ _ _ _ E])
      (use j i con in \<open>simp_all add: sent_def Let_def\<close>)
  then obtain t ws where t: "fetch_then_clear A E intr ?rs (NumWhole 1) (\<lambda>df. nrow df > 0) ?s2 =
      Some (Inr (rows \<noteq> []), t, ws)" "cl_ref t = (cl_ref ?s2)(c := None)"
    "se_results (cl_session t) = (se_results (cl_session ?s2))(?k := None)"
    "se_conns (cl_session t) = (se_conns (cl_session ?s2))(c \<mapsto> w)"
    unfolding nrow_frame_of by blast
  have "cl_ref t = cl_ref s" "se_results (cl_session t) = se_results (cl_session s)"
    "se_conns (cl_session t) = se_conns (cl_session s)"
    using con(3) w(1) fresh t(2-4) by (auto simp: sent_def Let_def fun_eq_iff)
  moreover have "dbExistsTable_SQLiteConnection_character A E intr tolower con name s = Some (Inr (rows \<noteq> []), t, ws0 @ ws)"
    unfolding dbExistsTable_SQLiteConnection_character_def pbind_Some using send t(1) by blast
  ultimately show ?thesis by blast
qed

theorem exists_table_answers_witness:
  "\<exists>t ws. dbExistsTable_SQLiteConnection_character (echo_api [''name'']) plain_env (\<lambda>_. False) (\<lambda>x. x) con0
      (NameString (RString ''t'')) client0 = Some (Inr True, t, ws)
    \<and> cl_ref t = cl_ref client0 \<and> se_results (cl_session t) = se_results (cl_session client0)"
proof -
  let ?A = "echo_api [''name'']" and ?vm = "(1 :: int, [] :: sqlite_value list, False)" and ?ids = "[(''table'', ''t'')]"
  let ?rows = "[\<lparr>row_values = [SqlText ''t''], row_decltypes = []\<rparr>]"
  have P: "packages_keep_data (env_packages (api_stmt ?A))" by simp
  have state: "cl_ref client0 0 = None" "se_conns (cl_session client0) 0 = Some world0" "\<And>i. \<not> (\<lambda>_ :: nat. False) i"
    by simp_all
  have name: "unquoted_name (NameString (RString ''t'')) = Inr ?ids" "map_of ?ids ''table'' = Some ''t''"
    by code_simp+
  have prep: "prepare (sqlite3_prepare_v2 ?A 0 (se_sqlite (cl_session client0))
      (c_str (sqliteListTablesQuery (map_of ?ids ''schema'') (Some ''$name'')))) = Inr (?vm, [])"
    by (simp add: prepare_def ret_def)
  have pn: "get_placeholder_names (api_stmt ?A) (result_impl_start (api_stmt ?A) (with_alt_types world0) ?vm) = [''name'']"
    by (simp add: get_placeholder_names_def echo_stmt_def)
  have rows: "group_runs (api_stmt ?A) [plain (StrSXP [RString ((\<lambda>x. x) ''t'')])] ?vm 0 [?rows]"
    by (simp add: echo_stmt_def bound_def plain_def bind_value_def get_init_def get_cell_def Cons_eq_map_conv) blast
  have some: "(?rows \<noteq> []) = True" by simp
  have "\<And>df. sqlColumnToRownames plain_env df = Inr df" "as_cpp_int plain_env 1 = Inr 1" "con_bigint con0 = Integer64"
    by (simp_all add: plain_env_def)
  from exists_table_answers [where tolower = "\<lambda>x. x" and intr = "\<lambda>_. False" and rows = ?rows,
      OF P plain_env_simps(1) client0_reachable con0_simps(1,2) state(1) this(3) state(2) echo_open(1,2) state(3) this(2,1)
      name prep pn rows, unfolded some]
  show ?thesis by blast
qed

end
