(* ===== verification/OtherMethods.thy ===== *)
theory OtherMethods
  imports Listing
begin

text \<open>
  The other methods and functions of \<open>R/\<close>: information on a connection, the state of encryption, the
  data for SQL, and the deprecated ones, of which \<open>dbSendPreparedQuery\<close> and \<open>dbGetPreparedQuery\<close> bind
  a data frame by name and, when that fails, by position.

  Parameters: \<open>dbGetQuery\<close>, \<open>dbQuoteString\<close> and \<open>sqlColumnToRownames\<close> of DBI.
\<close>

subsection \<open>Information\<close>

record connection_info =
  db_version :: string
  info_dbname :: string

text \<open>The other elements (\<open>username\<close>, \<open>host\<close>, \<open>port\<close>) are \<open>NA\<close>.\<close>

definition dbGetInfo_SQLiteConnection :: "('db, 'st) api \<Rightarrow> r_connection \<Rightarrow> (('db, 'st) client, connection_info) act" where
  "dbGetInfo_SQLiteConnection A dbObj =
     abind (on_session (r_rsqliteVersion A)) (\<lambda>version.
       areturn \<lparr>db_version = snd (version ! 1), info_dbname = con_dbname dbObj\<rparr>)"

definition format_SQLiteConnection :: "r_connection \<Rightarrow> (('db, 'st) client, string) act" where
  "format_SQLiteConnection x =
     abind (dbIsValid_SQLiteConnection x) (\<lambda>valid.
       let details = (if valid
             then (if con_dbname x \<noteq> [] then con_dbname x else ''(temporary)'') @
               (if con_loadable_extensions x then '' (with extensions)'' else [])
             else ''DISCONNECTED'') in
       areturn (''<SQLiteConnection> '' @ details))"

definition dbDataType_SQLiteConnection :: "r_connection \<Rightarrow> robj \<Rightarrow> string res" where
  "dbDataType_SQLiteConnection dbObj obj = dbDataType_SQLiteDriver (con_extended_types dbObj) obj"

text \<open>
  \<open>get_column\<close> is \<open>dbGetQuery(...)[[1]]\<close> under the \<open>tryCatch\<close>: the column, or the message of the first
  condition.  A comparison with \<open>NA\<close> is \<open>NA\<close>.
\<close>

definition databaseIsEncryptionOn :: "(string \<Rightarrow> 's \<Rightarrow> (string + rstring list) \<times> 's) \<Rightarrow> ('s, bool option list) act" where
  "databaseIsEncryptionOn get_column s =
     (case get_column ''PRAGMA cipher_status;'' s of
        (Inr st, t) \<Rightarrow> (Inr (map (\<lambda>x. case x of NA_STRING \<Rightarrow> None | RString v \<Rightarrow> Some (v = ''1'')) st), t, [])
      | (Inl m, t) \<Rightarrow> (Inr [Some False], t, [''Couldn't get database encryption status: '' @ m]))"

subsection \<open>Data for SQL\<close>

definition quote_string :: "(robj \<Rightarrow> robj) \<Rightarrow> r_frame \<Rightarrow> r_frame" where
  "quote_string dbQuoteString value =
     value\<lparr>fr_columns := map (\<lambda>x. if TYPEOF (rdata x) = STRSXP then dbQuoteString x else x) (fr_columns value)\<rparr>"

definition sqlData_SQLiteConnection ::
  "'s table_methods \<Rightarrow> (robj \<Rightarrow> robj) \<Rightarrow> r_frame \<Rightarrow> row_names \<Rightarrow> r_frame eff" where
  "sqlData_SQLiteConnection M dbQuoteString value row_names =
     ebind (sql_data M value row_names) (\<lambda>value. ret (quote_string dbQuoteString value))"

text \<open>\<open>paste(xs, collapse = sep)\<close>\<close>

fun paste_collapse :: "string \<Rightarrow> string list \<Rightarrow> string" where
  "paste_collapse sep [] = []"
| "paste_collapse sep [x] = x"
| "paste_collapse sep (x # xs) = x @ sep @ paste_collapse sep xs"

definition sqliteBuildTableDefinition ::
  "(r_frame \<Rightarrow> row_names \<Rightarrow> r_frame res) \<Rightarrow> r_connection \<Rightarrow> string \<Rightarrow> r_frame \<Rightarrow> (string \<times> string) list option \<Rightarrow>
     row_names \<Rightarrow> string eff" where
  "sqliteBuildTableDefinition column_to_rownames con name value field_types row_names =
     ebind (warning (''RSQLCipher::sqliteBuildTableDefinition() is deprecated, '' @
         ''please switch to DBI::sqlCreateTable().'')) (\<lambda>_.
     ebind (compatRowNames row_names) (\<lambda>row_names.
     ebind (lift_res (column_to_rownames value row_names)) (\<lambda>value.
     ebind (case field_types of
         Some types \<Rightarrow> ret types
       | None \<Rightarrow> lift_res (db_data_types (con_extended_types con) value (fr_names value))) (\<lambda>field_types.
       let flds = map (\<lambda>(n, t). quote_identifier n @ '' '' @ t) field_types in
       ret (''CREATE TABLE '' @ name @ '' '' @ [CHR 0x0A] @ ''( '' @
         paste_collapse ('','' @ [CHR 0x0A, CHR 0x09]) flds @ '' '' @ [CHR 0x0A] @ '')'')))))"

definition sqliteQuickColumn :: "(string \<Rightarrow> ('s, r_frame) act) \<Rightarrow> string \<Rightarrow> string \<Rightarrow> ('s, robj) act" where
  "sqliteQuickColumn get_query table column =
     abind (get_query (''SELECT  '' @ column @ ''  FROM  '' @ table)) (\<lambda>df.
       case fr_columns df of [] \<Rightarrow> athrow (Stop ''subscript out of bounds'') | x # _ \<Rightarrow> areturn x)"

subsection \<open>Prepared queries\<close>

text \<open>The \<open>tryCatch\<close> for errors: all parameters by name, or else by position.\<close>

definition bind_prepared :: "('db, 'st) api \<Rightarrow> r_env \<Rightarrow> r_result \<Rightarrow> r_list \<Rightarrow> (('db, 'st) client, unit) act" where
  "bind_prepared A E res bind_data =
     catch_error (db_bind_R A E True res bind_data) (\<lambda>_. db_bind_R A E False res (None, snd bind_data))"

definition dbSendPreparedQuery ::
  "('db, 'st) api \<Rightarrow> r_env \<Rightarrow> r_connection \<Rightarrow> string \<Rightarrow> r_list \<Rightarrow> (('db, 'st) client, r_result) act" where
  "dbSendPreparedQuery A E con statement bind_data =
     abind (awarn (''RSQLCipher::dbSendPreparedQuery() is deprecated, '' @
         ''please switch to DBI::dbSendQuery(params = bind.data).'')) (\<lambda>_.
     abind (dbSendQuery A E con statement None) (\<lambda>res.
     abind (bind_prepared A E res bind_data) (\<lambda>_. areturn res)))"

definition bind_fetch_clear ::
  "('db, 'st) api \<Rightarrow> r_env \<Rightarrow> (nat \<Rightarrow> bool) \<Rightarrow> r_list \<Rightarrow> r_result \<Rightarrow> ('db, 'st) client \<Rightarrow>
     ((r_error + r_data_frame) \<times> ('db, 'st) client \<times> string list) option" where
  "bind_fetch_clear A E intr bind_data res s =
     map_option (\<lambda>ran. on_exit (dbClearResult_SQLiteResult A res) (\<lambda>_. ran) s)
       (pbind (bind_prepared A E res bind_data) (\<lambda>_. dbFetch_SQLiteResult A E intr res [NumWhole (- 1)]) s)"

definition dbGetPreparedQuery ::
  "('db, 'st) api \<Rightarrow> r_env \<Rightarrow> (nat \<Rightarrow> bool) \<Rightarrow> r_connection \<Rightarrow> string \<Rightarrow> r_list \<Rightarrow> ('db, 'st) client \<Rightarrow>
     ((r_error + r_data_frame) \<times> ('db, 'st) client \<times> string list) option" where
  "dbGetPreparedQuery A E intr con statement bind_data =
     pbind (abind (awarn (''RSQLCipher::dbGetPreparedQuery() is deprecated, '' @
         ''please switch to DBI::dbGetQuery(params = bind.data).'')) (\<lambda>_. dbSendQuery A E con statement None))
       (bind_fetch_clear A E intr bind_data)"

subsection \<open>How a data frame is bound\<close>

text \<open>Columns the query does not name are allowed, with a warning; the others come in the order of the placeholders.\<close>

lemma order_params_superset:
  assumes pn: "\<forall>p \<in> set pn. p \<noteq> [] \<and> \<not> is_number p"
    and names: "set pn \<subseteq> set names" "length vals = length names"
  shows "\<exists>ws. order_params True pn (Some names, vals) = Inr (map (\<lambda>p. the (map_of (zip names vals) p)) pn, ws)"
proof -
  let ?idx = "map (\<lambda>p. r_match p names) pn"
  have missing: "filter (\<lambda>(p, i). i = None) (zip pn ?idx) = []"
    using names(1) r_match_None [of _ names] by (auto simp: filter_empty_conv zip_map2 set_zip)
  have chosen: "map (\<lambda>i. vals ! the i) ?idx = map (\<lambda>p. the (map_of (zip names vals) p)) pn"
    using map_of_match [OF names(2)] names(1) by auto
  have "\<exists>ws. match_params True pn (Some names, vals) = Inr (map (\<lambda>i. vals ! the i) ?idx, ws)"
    unfolding match_params_def Let_def names_of_def using missing by (simp add: ret_def warning_def ebind_def)
  moreover have "\<not> list_ex id (map (\<lambda>n. n = []) pn)" "\<not> list_ex id (map is_number pn)"
    using pn by (auto simp: list_ex_iff)
  ultimately show ?thesis unfolding order_params_def Let_def chosen by simp
qed

text \<open>Placeholders without names: the columns by position.\<close>

lemma prepared_anonymous:
  assumes names: "r_result_get_placeholder_names A (res_ptr res) (cl_session s) = (Inr pn, cl_session s, [])"
    and pn: "pn \<noteq> []" "\<forall>p \<in> set pn. p = []"
  shows "bind_prepared A E res (Some names, vals) s = db_bind_R A E False res (None, vals) s"
proof -
  have "order_params True pn (Some names, vals) =
      Inl (Stop ''Cannot use named parameters for anonymous/numbered placeholders'')"
    using pn by (cases pn) (auto simp: order_params_def Let_def list_all_iff list_ex_iff is_number_def)
  then have "db_bind_R A E True res (Some names, vals) s =
      (Inl (Stop ''Cannot use named parameters for anonymous/numbered placeholders''), s, [])"
    using names by (simp add: db_bind_R_def abind_def on_session_def alift_def)
  then show ?thesis by (simp add: bind_prepared_def catch_error_def split: prod.split)
qed

text \<open>
  Named placeholders: whatever goes wrong with the first attempt, a violated constraint or a value that
  cannot be bound, the error that is raised is the one of the second, which has no names.
\<close>

lemma prepared_error_masked:
  assumes failed: "db_bind_R A E True res bind_data s = (Inl e, t, ws)" "e = Stop m \<or> e = RError m"
    and names: "r_result_get_placeholder_names A (res_ptr res) (cl_session t) = (Inr pn, cl_session t, [])"
    and pn: "pn \<noteq> []" "\<forall>p \<in> set pn. p \<noteq> [] \<and> \<not> is_number p"
  shows "bind_prepared A E res bind_data s = (Inl (Stop (''No value given for placeholder '' @ comma_separated pn)), t, ws)"
proof -
  have "filter (\<lambda>(p, i). i = None) (zip pn (map (\<lambda>p. r_match p []) pn)) = map (\<lambda>p. (p, None)) pn"
    by (induction pn) auto
  then have "match_params False pn (None, snd bind_data) = Inl (Stop (''No value given for placeholder '' @ comma_separated pn))"
    unfolding match_params_def names_of_def Let_def using pn(1) by (simp add: comp_def del: append_Cons)
  moreover have "\<not> list_ex id (map (\<lambda>n. n = []) pn)" "\<not> list_ex id (map is_number pn)"
    using pn(2) by (auto simp: list_ex_iff)
  ultimately have "order_params False pn (None, snd bind_data) =
      Inl (Stop (''No value given for placeholder '' @ comma_separated pn))"
    unfolding order_params_def Let_def by simp
  then have "db_bind_R A E False res (None, snd bind_data) t =
      (Inl (Stop (''No value given for placeholder '' @ comma_separated pn)), t, [])"
    using names by (simp add: db_bind_R_def abind_def on_session_def alift_def)
  with failed show ?thesis by (elim disjE) (simp_all add: bind_prepared_def catch_error_def del: append_Cons)
qed

subsection \<open>Results that stay open\<close>

lemma bind_prepared_ok:
  assumes P: "packages_keep_data (env_packages (api_stmt A))" "env_ok E" and params: "r_params bind_data"
    and inv: "client_inv s" and run: "bind_prepared A E res bind_data s = (x, t, ws)" "\<not> undefined_behaviour x"
  shows "client_inv t \<and> later s t \<and> cl_ref t = cl_ref s"
proof -
  have unnamed: "r_params (None, snd bind_data)"
    using params by (simp add: r_params_def named_ok_def)
  have kept: "client_inv v \<and> later u v \<and> cl_ref v = cl_ref u"
    if "client_inv u" "r_params ps" "db_bind_R A E allow res ps u = (y, v, ws')" "\<not> undefined_behaviour y"
    for u v y ws' ps allow
    using bind_ok [OF P that(2) _ that(3,4)] that(1) by (auto simp: client_inv_def later_same)
  obtain y u ws1 where u: "db_bind_R A E True res bind_data s = (y, u, ws1)" by (metis prod.exhaust)
  have y: "\<not> undefined_behaviour y"
  proof
    assume "undefined_behaviour y"
    then obtain e where "y = Inl (UB e)" by (cases y) (auto elim: is_UB.elims)
    with u run show False by (auto simp: bind_prepared_def catch_error_def)
  qed
  note first = kept [OF inv params u y]
  obtain z v ws2 where v: "db_bind_R A E False res (None, snd bind_data) u = (z, v, ws2)" by (metis prod.exhaust)
  have "t = u \<or> t = v \<and> x = z"
    using run(1) u v by (cases y) (auto simp: bind_prepared_def catch_error_def split: r_error.splits)
  then show ?thesis
  proof (elim disjE conjE)
    assume "t = v" "x = z"
    with kept [OF conjunct1 [OF first] unnamed v] run(2) have "client_inv t" "later u t" "cl_ref t = cl_ref u" by simp_all
    with first show ?thesis using later_trans by metis
  qed (use first in simp)
qed

text \<open>\<open>dbGetPreparedQuery\<close> leaves no result open, whatever fails.\<close>

lemma get_prepared_closes:
  assumes P: "packages_keep_data (env_packages (api_stmt A))" "env_ok E" and reach: "client_reachable A E s"
    and con: "con_object s con" and params: "r_params bind_data"
    and run: "dbGetPreparedQuery A E intr con statement bind_data s = Some (x, t, ws)" "\<not> undefined_behaviour x"
  shows "client_inv t \<and> cl_ref t (con_ref con) = None"
proof -
  have inv: "client_inv s" using client_reachable_inv [OF P reach] .
  obtain y u ws1 where u: "dbSendQuery A E con statement None s = (y, u, ws1)" by (metis prod.exhaust)
  show ?thesis
  proof (cases y)
    case (Inl e)
    with run u have "x = Inl e" "t = u" by (auto simp: dbGetPreparedQuery_def pbind_Some abind_def)
    with send_fails_closed [OF inv u [unfolded Inl]] send_ok [OF P _ inv con u] run(2) Inl show ?thesis by simp
  next
    case (Inr rs)
    with run(1) u obtain ws2 where m: "bind_fetch_clear A E intr bind_data rs u = Some (x, t, ws2)"
      by (auto simp: dbGetPreparedQuery_def pbind_Some abind_def)
    then obtain z v ws3 where v: "pbind (bind_prepared A E rs bind_data)
        (\<lambda>_. dbFetch_SQLiteResult A E intr rs [NumWhole (- 1)]) u = Some (z, v, ws3)"
      and exit: "on_exit (dbClearResult_SQLiteResult A rs) (\<lambda>_. (z, v, ws3)) u = (x, t, ws2)"
      by (auto simp: bind_fetch_clear_def)
    from send_ok [OF P _ inv con u] Inr
    have s: "client_inv u" "cl_ref u (con_ref con) = Some rs" "res_conn rs = con" "result_object u rs" by simp_all
    have z: "\<not> undefined_behaviour z" using exit run(2) by (cases "undefined_behaviour z") (auto simp: on_exit_def)
    have "client_inv v \<and> later u v \<and> cl_ref v = cl_ref u"
      using v [unfolded pbind_Some]
    proof (elim disjE exE conjE)
      fix e assume b: "bind_prepared A E rs bind_data u = (Inl e, v, ws3)" "z = Inl e"
      with bind_prepared_ok [OF P params s(1) b(1)] z show ?thesis by simp
    next
      fix r w ws4 ws5
      assume b: "bind_prepared A E rs bind_data u = (Inr r, w, ws4)"
        "dbFetch_SQLiteResult A E intr rs [NumWhole (- 1)] w = Some (z, v, ws5)"
      with bind_prepared_ok [OF P params s(1) b(1)] fetch_ok_client [OF P(1) _ b(2)] fetch_refs [OF b(2)]
      show ?thesis by (auto intro: later_trans)
    qed
    with exit_clears [OF s(4) _ _ _ _ exit run(2)] s show ?thesis by simp
  qed
qed

text \<open>\<open>dbSendPreparedQuery\<close> has no handler: its result stays open also when nothing could be bound.\<close>

lemma send_prepared_stays_open:
  assumes send: "dbSendQuery A E con statement None s = (Inr res, u, ws)" "cl_ref u (con_ref con) = Some res"
    and P: "packages_keep_data (env_packages (api_stmt A))" "env_ok E" and params: "r_params bind_data" and inv: "client_inv u"
    and run: "dbSendPreparedQuery A E con statement bind_data s = (x, t, ws')" "\<not> undefined_behaviour x"
  shows "cl_ref t (con_ref con) = Some res"
proof -
  obtain y v ws1 where v: "bind_prepared A E res bind_data u = (y, v, ws1)" by (metis prod.exhaust)
  have "t = v \<and> undefined_behaviour x = undefined_behaviour y"
    using run(1) send(1) v by (cases y) (auto simp: dbSendPreparedQuery_def abind_def areturn_def)
  with bind_prepared_ok [OF P params inv v] run(2) send(2) show ?thesis by simp
qed

subsection \<open>The state of encryption\<close>

text \<open>One row: one answer, which is \<open>TRUE\<close> when the status is 1.\<close>

lemma encryption_status:
  "get_column ''PRAGMA cipher_status;'' s = (Inr [RString v], t) \<Longrightarrow>
     databaseIsEncryptionOn get_column s = (Inr [Some (v = ''1'')], t, [])"
  by (simp add: databaseIsEncryptionOn_def)

end
