(* ===== verification/Spec2Isabelle.thy ===== *)
theory Spec2Isabelle
  imports Affinity ColumnSource ColumnStorage Column DataFrame ResultImpl ResultProps Result ResultRun
    ResultRunProps Connection ImportFile Session SessionRun SessionProps SessionLeaks
    Glue GlueProps Client ClientRun ClientProps Keys Connect Identifiers Transactions
    Tables Listing OtherMethods
begin

text \<open>
  RSQLCipher: a model of the C and C++ code of the package under \<open>src/src/\<close>, of the R methods under
  \<open>src/R/\<close> that use it (results, connections, keys, transactions, tables), and what makes them correct.

  The package connects R to SQLite.  A connection object (\<open>DbConnection.cpp\<close>, \<open>connection.cpp\<close>)
  owns an SQLite handle; a result object (\<open>DbResult.cpp\<close>, \<open>SqliteResultImpl.cpp\<close>, \<open>result.cpp\<close>)
  owns a prepared statement, binds vectors of parameters to it, steps it and makes data frames of
  its rows.  A data frame (\<open>DbDataFrame.cpp\<close>) is a list of columns (\<open>DbColumn.cpp\<close>), a column a
  list of chunks (\<open>DbColumnStorage.cpp\<close>) filled from a source that reads the current row
  (\<open>SqliteColumnDataSource.cpp\<close>); the declared type of a column is mapped by \<open>affinity.c\<close>.
  \<open>import-file.c\<close> loads a delimited file into a table without any of these.  R calls all of it
  through the generated entry points of \<open>cpp11.cpp\<close>.  The methods of \<open>R/\<close> keep, for every connection
  object, the one result that is open on it (\<open>conn@ref$result\<close>).

  Theories, in the order of the calls from below:

  \<^item> \<open>Prelude\<close>: errors (\<open>r_error\<close>) as values, computations with warnings (\<open>eff\<close>), operations on an
    object that outlives an exception (\<open>act\<close>), C strings, and the lemmas on them all proofs share.
  \<^item> \<open>RValues\<close>: R vectors whose cells may be uninitialised, with checked access; doubles as
    bit patterns, so that a vector can hold doubles or 64-bit integers as \<open>integer64.h\<close> does.
  \<^item> \<open>SqliteValue\<close>: the values SQLite hands out and its conversions between numbers.
  \<^item> \<open>Affinity\<close>: \<open>affinity.c\<close>, equal to the search for substrings its comment describes.
  \<^item> \<open>ColumnSource\<close>: \<open>DATA_TYPE\<close>, the abstract source as a record, the SQLite source.  The locale
    \<open>column_source_contract\<close> is what the storage relies on; the SQLite source is interpreted in it.
  \<^item> \<open>ColumnStorage\<close>: a chunk.  \<open>storage_rep\<close> says which items a chunk holds; every operation is
    shown to be the operation on items (\<open>append_null_rep\<close>, \<open>append_data_ok\<close>, \<open>copy_to_ok\<close>), with no
    type error, index out of bounds or read of an uninitialised cell.
  \<^item> \<open>Column\<close>: a column; \<open>read_items\<close> is the reference, one pass with a type and a list, and a
    column is shown to be exactly that pass.  What this means for numbers, types and warnings
    follows from it.
  \<^item> \<open>DataFrame\<close>: the data frame of a list of rows in closed form (\<open>frame_ref\<close>), over the locale
    \<open>column_interface\<close>, which \<open>DbColumn\<close> interprets.
  \<^item> \<open>ResultImpl\<close>, \<open>ResultProps\<close>, \<open>Result\<close>: the result as a state machine over SQLite's statement
    interface (the record \<open>stmt_env\<close>, a parameter).  \<open>delivers\<close> says which rows stepping will show;
    \<open>group_runs\<close> what SQLite does for each group of parameters.  Proved: creating or binding leads
    to a result that delivers the rows of all groups in order, fetching returns them, all at once
    or in chunks, and looking at the column information consumes nothing.
  \<^item> \<open>ResultRun\<close>, \<open>ResultRunProps\<close>: a result through any sequence of calls (\<open>result_step\<close>,
    \<open>result_reachable\<close>), for any statement, with the invariant \<open>result_ok\<close>: every fetch gives a
    well-formed data frame or an error, no call is undefined.  Then what clients see: consecutive
    chunks, chunks against one fetch, a step that fails, the rows affected by many groups, the
    effect of asking for the column information.
  \<^item> \<open>Connection\<close>: shared ownership, the busy callback and its protection from R's garbage
    collector, as a step relation over the calls R can make, with an invariant of all reachable
    states.  A connection is only freed once its statements are finalized, those that a failed
    import leaves included, and its backups finished.  \<open>busy_event\<close> is SQLite asking the handler of a
    locked database, \<open>unsafe_handler\<close> when that is undefined.
  \<^item> \<open>ImportFile\<close>: \<open>RS_sqlite_getline\<close> on its growing buffer, the splitting of a line in place,
    and the import of whole files.  The insert statement is written into its malloc'd buffer cell
    by cell, every write and read checked (\<open>write_insert_sql\<close>), and shown to be the SQL text
    \<open>insert_sql\<close> specifies.  The statements it prepares and finalizes are counted: which failures
    leave one (\<open>import_abandons\<close>), and for which files the reader leaves its buffer
    (\<open>import_overruns\<close>), is said of the file and the lines the import comes to.
  \<^item> \<open>Session\<close>: all objects together.  A \<open>session\<close> holds SQLite's state, the connection objects
    (each a \<open>world\<close> of \<open>Connection\<close>) and the results (each a \<open>result_impl\<close> and the address of its
    connection); the functions R calls are actions on it, named \<open>r_\<close> and the function of
    \<open>connection.cpp\<close>, \<open>result.cpp\<close>, \<open>extensions.cpp\<close> or \<open>rsqlite.cpp\<close>.
  \<^item> \<open>SessionRun\<close>: any sequence of calls, with R's collector and other users of the databases in
    between (\<open>session_step\<close>, \<open>session_reachable\<close>).  Which locks SQLite finds during a call, and what
    the busy handlers answer that it asks, is an input of the call (\<open>run_busy\<close>).  The invariant \<open>session_inv\<close> ties the two
    components: a connection counts exactly the results that hold it and is in a state
    \<open>Connection\<close> reaches, every result is \<open>result_ok\<close>.
  \<^item> \<open>SessionProps\<close>: a result always holds a live connection, exactly which calls can be undefined
    (\<open>risky\<close>) and with which busy handlers (\<open>risky_handler\<close>), a released result is refused.
  \<^item> \<open>SessionLeaks\<close>: the statements prepared and not finalized are those of the results R has
    and those that imports have left, by the calls \<open>leaves_statement\<close> names; what SQLite's functions do to their number is assumed (\<open>counts_statements\<close>).
    Calls that leave a quantity of SQLite's state and the owners of the results alone compose
    (\<open>db_keeps\<close>, \<open>tally\<close>, \<open>leaves\<close>).
  \<^item> \<open>Glue\<close>, \<open>GlueProps\<close>: the entry points of \<open>cpp11.cpp\<close>, the table they are registered in and the
    functions of \<open>R/cpp11.R\<close>; each R function runs the call of its name with its arguments in their
    places, and what may go wrong with arbitrary arguments.
  \<^item> \<open>Client\<close>: the R methods on results (\<open>dbSendQuery\<close>, \<open>dbBind\<close> with \<open>db_bind.R\<close>, \<open>dbFetch\<close>,
    \<open>dbClearResult\<close> and those that ask) over a \<open>client\<close>: a session and the variable \<open>result\<close> of every
    connection object.  \<open>order_params\<close> is the matching of named parameters with placeholders.
  \<^item> \<open>ClientRun\<close>: any sequence of these methods (\<open>client_step\<close>, \<open>client_reachable\<close>).  The invariant
    \<open>client_inv\<close> adds to \<open>session_inv\<close> that results and variables correspond one to one
    (\<open>refs_ok\<close>); who calls the functions of \<open>Session\<close> directly leaves this discipline.
  \<^item> \<open>ClientProps\<close>: at most one result per connection; which methods are undefined, asking a closed
    connection for its transaction and those that ask an unsafe busy handler (\<open>methods_safe\<close>); a query, also with named parameters, from the
    method to the data frame and back.
  \<^item> \<open>Keys\<close>: the kinds of keys (\<open>key_type\<close>), the functions \<open>databaseKey...\<close> and the part of \<open>dbConnect\<close>
    that sets a key; SQLite's reading of the quoted literal and SQLCipher's choice between a raw
    key and a passphrase.  Proved: which key the cipher gets for which argument, and when the copy
    of \<open>databaseKeyAdd\<close> opens with the same argument.
  \<^item> \<open>Connect\<close>: \<open>dbConnect\<close> on a driver with all its steps, on a connection, and
    \<open>sqliteCopyDatabase\<close> to a file.  \<open>succeeds\<close> composes steps that cannot fail: once the database is
    opened, the connection is returned whatever becomes of the key and the pragmas.
  \<^item> \<open>Identifiers\<close>: \<open>dbQuoteIdentifier\<close>, which SQLite's tokenizer is shown to read as the one name that
    was quoted, and \<open>dbUnquoteIdentifier\<close>, whose regular expression is a term with matches defined by
    rules (\<open>rx_match\<close>); the scanner that stands for it captures what it captures, and unquoting
    undoes quoting.
  \<^item> \<open>Transactions\<close>: the savepoints of SQLite (\<open>OP_Savepoint\<close>, \<open>OP_AutoCommit\<close>, the pager) over an
    opaque content, shown to be the stack its documentation describes (\<open>savepoint_stack\<close>), and
    \<open>dbBegin\<close>, \<open>dbCommit\<close>, \<open>dbRollback\<close> and \<open>dbAppendTable\<close> over them.  The locale \<open>tx_database\<close> says
    what the methods rely on; it is interpreted on SQLite as modelled (\<open>sqlite_dbi\<close>).
  \<^item> \<open>Tables\<close>: \<open>dbWriteTable\<close> for data frames and files: all is written or nothing is changed, unless
    SQLite itself rolls back the transaction around the call (\<open>rolled_back\<close>).  The
    types \<open>dbDataType\<close> declares are read back by \<open>ColumnSource\<close> as the types they stand for; which
    columns are matched with which names.
  \<^item> \<open>Listing\<close>: \<open>dbListTables\<close>, \<open>dbExistsTable\<close> and \<open>dbReadTable\<close>, over \<open>Client\<close>: no result is left open,
    and what \<open>dbExistsTable\<close> answers.
  \<^item> \<open>OtherMethods\<close>: information on connections, the state of encryption, the data for SQL, and the
    deprecated functions; how the prepared queries bind a data frame by name or by position, which
    errors that hides and which results it leaves open.

  Conventions.  A C++ exception is \<open>Inl (Stop msg)\<close>, an error raised in R's C interface
  \<open>Inl (RError msg)\<close>, undefined behaviour of C or C++ \<open>Inl (UB what)\<close>.  Row counts and positions
  (\<open>int\<close> in the code) are natural numbers, so results beyond \<open>2 ^ 31\<close> rows are outside the model;
  values are words of their width.  Loops that need not end are \<open>partial_function (option)\<close>, where
  \<open>None\<close> is a call that does not return: \<open>append_data\<close>, shown to end after at most two new chunks,
  and \<open>fetch_loop\<close>, shown to end when the fetch has a bound or the statement finitely many rows.
  No fuel is used.

  Parameters: SQLite's statement interface and the text conversions of its values, the date
  parsers of Boost, R functions of other packages (\<open>blob::new_blob\<close> and \<open>hms::new_hms\<close> keep the
  data, \<open>packages_keep_data\<close>), the database of an import; for sessions the functions of SQLite on
  handles (the record \<open>api\<close>) and the conversions of cpp11 (the record \<open>conversion\<close>), of which the
  theorems assume what cpp11 documents (\<open>conversions_ok\<close>, \<open>conversions_safe\<close>, an exception for a
  NULL external pointer); for the R methods the conversions of factors, 64-bit integers and row
  names (the record \<open>r_env\<close>), \<open>dbExecute\<close> of DBI (the record \<open>dbi\<close>, assumed to go through the methods
  and to fail with R errors only, \<open>executes_ok\<close>) and the operating system (the record \<open>r_os\<close>);
  for tables the generics of DBI and what reads and inserts (the record \<open>table_methods\<close>, of which it is
  assumed that they begin and end no transaction, but they may fail and have SQLite roll back the whole
  of it, \<open>methods_keep_tx\<close>; of \<open>dbExecute\<close> only for \<open>CREATE\<close> and \<open>DROP TABLE\<close>), and whether a commit finds the
  database locked.  R's strings are the bytes of
  their UTF-8 encoding; a warning is recorded and does not stop the call, as with R's default
  options.  Allocation is assumed to succeed.  The address of a deleted result has
  no result any more, which stands for its NULL pointer; the arguments of one C++ call are
  converted from left to right, where the order is the compiler's.

  Not modelled: the one-line includes of the extensions and the vendored sources under
  \<open>src/src/vendor\<close> apart from the value interface of SQLite, its handling of keys and
  its savepoints; what a busy handler of R does to the
  package while it runs, apart from its answer; how cpp11
  formats messages; the functions of \<open>R/\<close> that only print or call another one, and the
  methods on the driver; finalizers that only warn; the encryption of
  pages; constructors and destructors with empty bodies.
\<close>

end
